(* ===== verification/Prelude.thy ===== *)
theory Prelude
  imports Complex_Main "HOL-Library.Sublist" "HOL-Library.AList" "HOL-Library.Multiset"
    "HOL-Library.Code_Target_Nat"
begin

text \<open>
  The part of the JavaScript language and standard library that the modelled
  code uses, and the lemmas on it that the components share.

  \<^item> A string is its sequence of UTF-16 code units, as ECMAScript has it: a list
    of naturals. \<open>js ''abc''\<close> is the string written \<open>'abc'\<close> in the source.
  \<^item> \<open>trim\<close>, \<open>split\<close>, \<open>join\<close>, \<open>indexOf\<close>, \<open>includes\<close>, \<open>startsWith\<close> and
    \<open>slice\<close> are the methods of \<open>String.prototype\<close> and \<open>Array.prototype\<close>.
  \<^item> A \<open>Set\<close> is the list of its elements in insertion order, a \<open>Map\<close> the
    association list of its entries in insertion order.
  \<^item> \<open>js_sort\<close> is the stable \<open>Array.prototype.sort\<close> for a comparison function;
    its contract is the locale \<open>js_comparator\<close>.
  \<^item> The loop "look the key up, start from an initial entry, add to it, store it"
    is \<open>tally\<close>; its contract is the locale \<open>tallying\<close>.
\<close>

named_theorems js_eval \<open>equations that evaluate string literals and string methods\<close>

section \<open>Strings\<close>

type_synonym code_unit = nat
type_synonym jstring = "code_unit list"

definition js :: "string \<Rightarrow> jstring" where
  "js s = map of_char s"

lemma js_Nil [simp, js_eval]: "js [] = []"
  by (simp add: js_def)

lemma js_Cons [js_eval]: "js (c # cs) = of_char c # js cs"
  by (simp add: js_def)

lemma js_eq_iff [simp]: "js s = js t \<longleftrightarrow> s = t"
  unfolding js_def by (simp add: inj_map_eq_map inj_def)

lemma js_eq_Nil_iff [simp]: "js s = [] \<longleftrightarrow> s = []" "[] = js s \<longleftrightarrow> s = []"
  by (auto simp: js_def)

lemma length_js [simp]: "length (js s) = length s"
  by (simp add: js_def)

subsection \<open>White space\<close>

text \<open>The white space and line terminators of ECMAScript (what \<open>trim\<close> and \<open>\s\<close> take).\<close>

definition is_ws :: "code_unit \<Rightarrow> bool" where
  "is_ws c \<longleftrightarrow> c \<in> {9, 10, 11, 12, 13, 32, 160, 5760, 8232, 8233, 8239, 8287, 12288, 65279}
     \<or> (8192 \<le> c \<and> c \<le> 8202)"

definition trim_start :: "jstring \<Rightarrow> jstring" where
  "trim_start s = dropWhile is_ws s"

definition trim_end :: "jstring \<Rightarrow> jstring" where
  "trim_end s = rev (dropWhile is_ws (rev s))"

definition trim :: "jstring \<Rightarrow> jstring" where
  "trim s = trim_end (trim_start s)"

text \<open>A trimmed string neither starts nor ends with white space.\<close>

definition trimmed :: "jstring \<Rightarrow> bool" where
  "trimmed s \<longleftrightarrow> s = [] \<or> (\<not> is_ws (hd s) \<and> \<not> is_ws (last s))"

lemma trim_Nil [simp]: "trim [] = []"
  by (simp add: trim_def trim_start_def trim_end_def)

lemma trim_eq_Nil_iff: "trim s = [] \<longleftrightarrow> (\<forall>c \<in> set s. is_ws c)"
proof -
  have "trim s = [] \<longleftrightarrow> (\<forall>c \<in> set (dropWhile is_ws s). is_ws c)"
    by (simp add: trim_def trim_start_def trim_end_def dropWhile_eq_Nil_conv)
  also have "\<dots> \<longleftrightarrow> (\<forall>c \<in> set s. is_ws c)"
    by (induction s) auto
  finally show ?thesis .
qed

lemma dropWhile_hd: "dropWhile P xs \<noteq> [] \<Longrightarrow> \<not> P (hd (dropWhile P xs))"
  by (induction xs) auto

lemma trim_end_Nil_iff: "trim_end s = [] \<longleftrightarrow> (\<forall>c \<in> set s. is_ws c)"
  by (simp add: trim_end_def dropWhile_eq_Nil_conv)

lemma trim_end_decomp: "\<exists>w. s = trim_end s @ w \<and> (\<forall>c \<in> set w. is_ws c)"
proof -
  have "rev s = takeWhile is_ws (rev s) @ dropWhile is_ws (rev s)" by simp
  then have "s = rev (dropWhile is_ws (rev s)) @ rev (takeWhile is_ws (rev s))"
    by (metis rev_append rev_rev_ident)
  then show ?thesis
    unfolding trim_end_def by (metis set_rev set_takeWhileD)
qed

lemma trimmed_trim [simp]: "trimmed (trim s)"
proof (cases "trim s = []")
  case True
  then show ?thesis by (simp add: trimmed_def)
next
  case False
  let ?t = "trim_start s"
  from False have ne: "trim_end ?t \<noteq> []" by (simp add: trim_def)
  then have "\<not> is_ws (last (trim_end ?t))"
    unfolding trim_end_def by (simp add: last_rev dropWhile_hd)
  moreover have "\<not> is_ws (hd (trim_end ?t))"
  proof -
    obtain w where w: "?t = trim_end ?t @ w" using trim_end_decomp by blast
    then have "hd ?t = hd (trim_end ?t)" using ne by (metis hd_append2)
    moreover have "?t \<noteq> []" using ne w by auto
    ultimately show ?thesis by (metis dropWhile_hd trim_start_def)
  qed
  ultimately show ?thesis by (simp add: trimmed_def trim_def)
qed

lemma trim_trimmed [simp]: "trimmed s \<Longrightarrow> trim s = s"
proof (cases "s = []")
  case False
  assume "trimmed s"
  with False have h: "\<not> is_ws (hd s)" and l: "\<not> is_ws (last s)" by (auto simp: trimmed_def)
  from False h have "dropWhile is_ws s = s" by (cases s) auto
  moreover from False l have "dropWhile is_ws (rev s) = rev s"
    by (cases "rev s") (auto simp: last_rev hd_rev[symmetric])
  ultimately show ?thesis by (simp add: trim_def trim_start_def trim_end_def)
qed simp

lemma trim_trim [simp]: "trim (trim s) = trim s"
  by simp

lemma trimmed_noWs: "\<forall>c \<in> set s. \<not> is_ws c \<Longrightarrow> trimmed s"
  by (cases "s = []") (auto simp: trimmed_def)

lemma set_trim: "set (trim s) \<subseteq> set s"
  unfolding trim_def trim_start_def trim_end_def
  by (auto dest!: set_dropWhileD)

lemma length_trim: "length (trim s) \<le> length s"
  unfolding trim_def trim_start_def trim_end_def
  by (metis length_dropWhile_le length_rev order_trans)

subsection \<open>Searching and slicing\<close>

definition startsWith :: "jstring \<Rightarrow> jstring \<Rightarrow> bool" where
  "startsWith s p \<longleftrightarrow> prefix p s"

definition endsWith :: "jstring \<Rightarrow> jstring \<Rightarrow> bool" where
  "endsWith s p \<longleftrightarrow> suffix p s"

definition str_includes :: "jstring \<Rightarrow> jstring \<Rightarrow> bool" where
  "str_includes s p \<longleftrightarrow> sublist p s"

text \<open>\<open>s.slice(i, j)\<close> for \<open>0 \<le> i \<le> j\<close>, and \<open>s.slice(-n)\<close> for \<open>0 < n\<close>.\<close>

definition slice :: "nat \<Rightarrow> nat \<Rightarrow> 'a list \<Rightarrow> 'a list" where
  "slice i j xs = take (j - i) (drop i xs)"

definition slice_last :: "nat \<Rightarrow> 'a list \<Rightarrow> 'a list" where
  "slice_last n xs = drop (length xs - n) xs"

fun find_sub :: "jstring \<Rightarrow> jstring \<Rightarrow> nat option" where
  "find_sub p [] = (if p = [] then Some 0 else None)"
| "find_sub p (c # s) = (if prefix p (c # s) then Some 0 else map_option Suc (find_sub p s))"

text \<open>\<open>s.indexOf(p, from)\<close>, with \<open>None\<close> for \<open>-1\<close>.\<close>

definition indexOf :: "jstring \<Rightarrow> jstring \<Rightarrow> nat \<Rightarrow> nat option" where
  "indexOf s p from = map_option (\<lambda>i. i + from) (find_sub p (drop from s))"

lemma find_sub_None_iff: "find_sub p s = None \<longleftrightarrow> \<not> sublist p s"
  by (induction s) (auto simp: sublist_Cons_right)

lemma find_sub_SomeD:
  "find_sub p s = Some i \<Longrightarrow> i + length p \<le> length s \<and> prefix p (drop i s)"
proof (induction s arbitrary: i)
  case Nil
  then show ?case by (auto split: if_splits)
next
  case (Cons c s)
  show ?case
  proof (cases "prefix p (c # s)")
    case True
    with Cons.prems show ?thesis using prefix_length_le by force
  next
    case False
    with Cons.prems obtain j where "find_sub p s = Some j" "i = Suc j" by auto
    with Cons.IH show ?thesis by auto
  qed
qed

lemma find_sub_first:
  assumes "\<And>j. j < length u \<Longrightarrow> \<not> prefix p (drop j (u @ p @ v))"
  shows "find_sub p (u @ p @ v) = Some (length u)"
  using assms
proof (induction u)
  case Nil
  show ?case by (cases "p @ v") (auto, metis prefixI)
next
  case (Cons c u)
  from Cons.prems [of 0] have "\<not> prefix p (c # u @ p @ v)" by simp
  moreover have "find_sub p (u @ p @ v) = Some (length u)"
  proof (rule Cons.IH)
    fix j assume "j < length u"
    with Cons.prems [of "Suc j"] show "\<not> prefix p (drop j (u @ p @ v))" by simp
  qed
  ultimately show ?case by simp
qed

subsection \<open>Splitting and joining\<close>

text \<open>\<open>s.split(c)\<close> for a separator of one code unit, and \<open>xs.join(sep)\<close>.\<close>

fun split_char :: "code_unit \<Rightarrow> jstring \<Rightarrow> jstring list" where
  "split_char c [] = [[]]"
| "split_char c (x # xs) =
     (if x = c then [] # split_char c xs
      else (case split_char c xs of [] \<Rightarrow> [[x]] | y # ys \<Rightarrow> (x # y) # ys))"

fun join :: "jstring \<Rightarrow> jstring list \<Rightarrow> jstring" where
  "join sep [] = []"
| "join sep [x] = x"
| "join sep (x # y # ys) = x @ sep @ join sep (y # ys)"

lemma split_char_neq_Nil [simp]: "split_char c s \<noteq> []"
  by (cases s) (auto split: list.split)

lemma join_Cons: "xs \<noteq> [] \<Longrightarrow> join sep (x # xs) = x @ sep @ join sep xs"
  by (cases xs) auto

lemma join_split_char: "join [c] (split_char c s) = s"
proof (induction s)
  case (Cons x s)
  then show ?case
    by (cases "split_char c s"; cases "tl (split_char c s)") (auto simp: join_Cons)
qed simp

lemma split_char_notin: "c \<notin> set s \<Longrightarrow> split_char c s = [s]"
  by (induction s) auto

lemma split_char_append: "c \<notin> set u \<Longrightarrow> split_char c (u @ c # v) = u # split_char c v"
  by (induction u) auto

lemma split_char_join:
  assumes "xs \<noteq> []" and "\<forall>x \<in> set xs. c \<notin> set x"
  shows "split_char c (join [c] xs) = xs"
  using assms
proof (induction xs)
  case (Cons x xs)
  then show ?case
    by (cases "xs = []") (auto simp: split_char_notin join_Cons split_char_append)
qed simp

lemma split_char_no_sep: "x \<in> set (split_char c s) \<Longrightarrow> c \<notin> set x"
proof (induction s arbitrary: x)
  case (Cons y s)
  then show ?case
    by (cases "split_char c s") (auto split: if_splits)
qed auto

lemma split_char_subset: "x \<in> set (split_char c s) \<Longrightarrow> set x \<subseteq> set s"
proof (induction s arbitrary: x)
  case (Cons y s)
  then show ?case
    by (cases "split_char c s") (auto split: if_splits, fastforce+)
qed auto

text \<open>\<open>xs.filter(Boolean)\<close> on strings keeps the non-empty ones.\<close>

definition nonempty :: "jstring list \<Rightarrow> jstring list" where
  "nonempty xs = filter (\<lambda>x. x \<noteq> []) xs"

lemma set_nonempty [simp]: "set (nonempty xs) = set xs - {[]}"
  by (auto simp: nonempty_def)

subsection \<open>Decimal integers\<close>

definition is_digit :: "code_unit \<Rightarrow> bool" where
  "is_digit c \<longleftrightarrow> 48 \<le> c \<and> c \<le> 57"

fun nat_str :: "nat \<Rightarrow> jstring" where
  "nat_str n = (if n < 10 then [48 + n] else nat_str (n div 10) @ [48 + n mod 10])"

declare nat_str.simps [simp del]

definition int_str :: "int \<Rightarrow> jstring" where
  "int_str i = (if i < 0 then 45 # nat_str (nat (- i)) else nat_str (nat i))"

text \<open>\<open>Number.parseInt(s, 10)\<close> on a string of decimal digits.\<close>

definition parse_digits :: "jstring \<Rightarrow> nat" where
  "parse_digits s = foldl (\<lambda>a c. a * 10 + (c - 48)) 0 s"

lemma nat_str_digits: "\<forall>c \<in> set (nat_str n). is_digit c"
proof (induction n rule: nat_str.induct)
  case (1 n)
  show ?case
    by (cases "n < 10") (use "1.IH" in \<open>auto simp: nat_str.simps [of n] is_digit_def\<close>)
qed

lemma nat_str_neq_Nil [simp]: "nat_str n \<noteq> []"
  by (subst nat_str.simps) simp

lemma parse_digits_nat_str [simp]: "parse_digits (nat_str n) = n"
proof (induction n rule: nat_str.induct)
  case (1 n)
  show ?case
    by (cases "n < 10") (use "1.IH" in \<open>auto simp: nat_str.simps [of n] parse_digits_def\<close>)
qed

lemma nat_str_inject [simp]: "nat_str m = nat_str n \<longleftrightarrow> m = n"
  by (metis parse_digits_nat_str)

lemma ascii_not_ws: "32 < c \<Longrightarrow> c < 127 \<Longrightarrow> \<not> is_ws c"
  by (simp add: is_ws_def)

lemma digit_not_ws: "is_digit c \<Longrightarrow> \<not> is_ws c"
  by (auto simp: is_digit_def is_ws_def)

section \<open>Partial maps over lists\<close>

lemma set_map_filter [simp]: "set (List.map_filter f xs) = {y. \<exists>x \<in> set xs. f x = Some y}"
  by (force simp: List.map_filter_def)

lemma filter_unique:
  assumes "i < length xs" and "\<And>j. j < length xs \<Longrightarrow> P (xs ! j) \<Longrightarrow> j = i"
  shows "filter P xs = (if P (xs ! i) then [xs ! i] else [])"
proof -
  have "filter P xs = filter P (take i xs @ xs ! i # drop (Suc i) xs)"
    using assms(1) by (simp add: id_take_nth_drop [symmetric])
  moreover have "\<not> P x" if x: "x \<in> set (take i xs)" for x
  proof -
    obtain j where "j < i" "x = xs ! j" using x by (auto simp: in_set_conv_nth)
    then show ?thesis using assms(1) assms(2) [of j] by auto
  qed
  moreover have "\<not> P x" if x: "x \<in> set (drop (Suc i) xs)" for x
  proof -
    obtain j where "i < j" "j < length xs" "x = xs ! j"
      using x by (auto simp: in_set_conv_nth) (metis add.commute add_Suc_right less_add_Suc1 less_diff_conv)
    then show ?thesis using assms(2) [of j] by auto
  qed
  ultimately show ?thesis by (simp add: filter_empty_conv)
qed

section \<open>Searching a list from its end\<close>

text \<open>The loop \<open>for (let i = n - 1; i >= 0; i--)\<close> that stops at the first hit.\<close>

primrec last_index :: "('a \<Rightarrow> bool) \<Rightarrow> 'a list \<Rightarrow> nat \<Rightarrow> nat option" where
  "last_index P xs 0 = None"
| "last_index P xs (Suc i) = (if P (xs ! i) then Some i else last_index P xs i)"

lemma last_index_SomeD:
  "last_index P xs n = Some i \<Longrightarrow> i < n \<and> P (xs ! i) \<and> (\<forall>j. i < j \<and> j < n \<longrightarrow> \<not> P (xs ! j))"
  by (induction n) (auto split: if_splits simp: less_Suc_eq)

lemma last_index_None_iff: "last_index P xs n = None \<longleftrightarrow> (\<forall>j < n. \<not> P (xs ! j))"
  by (induction n) (auto simp: less_Suc_eq)

section \<open>Sets in insertion order\<close>

definition set_add :: "'a list \<Rightarrow> 'a \<Rightarrow> 'a list" where
  "set_add s x = (if x \<in> set s then s else s @ [x])"

definition js_Set :: "'a list \<Rightarrow> 'a list" where
  "js_Set xs = foldl set_add [] xs"

lemma set_foldl_set_add [simp]: "set (foldl set_add s xs) = set s \<union> set xs"
  by (induction xs arbitrary: s) (auto simp: set_add_def)

lemma distinct_foldl_set_add: "distinct s \<Longrightarrow> distinct (foldl set_add s xs)"
  by (induction xs arbitrary: s) (auto simp: set_add_def)

lemma foldl_set_add_distinct:
  "distinct (s @ xs) \<Longrightarrow> foldl set_add s xs = s @ xs"
  by (induction xs arbitrary: s) (auto simp: set_add_def)

lemma set_js_Set [simp]: "set (js_Set xs) = set xs"
  by (simp add: js_Set_def)

lemma distinct_js_Set [simp]: "distinct (js_Set xs)"
  by (simp add: js_Set_def distinct_foldl_set_add)

lemma js_Set_distinct: "distinct xs \<Longrightarrow> js_Set xs = xs"
  by (simp add: js_Set_def foldl_set_add_distinct)

lemma js_Set_idem [simp]: "js_Set (js_Set xs) = js_Set xs"
  by (simp add: js_Set_distinct)

lemma js_Set_Nil [simp]: "js_Set [] = []"
  by (simp add: js_Set_def)

lemma js_Set_eq_Nil_iff [simp]: "js_Set xs = [] \<longleftrightarrow> xs = []"
  by (metis set_empty set_js_Set)

lemma subseq_js_Set: "subseq (js_Set xs) xs"
proof -
  have "subseq (foldl set_add s xs) (s @ xs)" for s :: "'a list"
  proof (induction xs arbitrary: s)
    case (Cons x xs)
    have "subseq (foldl set_add (set_add s x) xs) (set_add s x @ xs)" by (rule Cons.IH)
    moreover have "subseq (set_add s x @ xs) (s @ x # xs)"
      using list_emb_append_mono [of "(=)" s s xs "x # xs"] by (auto simp: set_add_def)
    ultimately show ?case by (simp add: subseq_order.trans)
  qed simp
  from this [of "[]"] show ?thesis by (simp add: js_Set_def)
qed

lemma js_Set_filter: "js_Set (filter P xs) = filter P (js_Set xs)"
proof -
  have "foldl set_add (filter P s) (filter P xs) = filter P (foldl set_add s xs)" for s
  proof (induction xs arbitrary: s)
    case (Cons x xs)
    show ?case using Cons.IH [of "set_add s x"] by (cases "P x"; cases "x \<in> set s") (simp_all add: set_add_def)
  qed simp
  from this [of "[]"] show ?thesis by (simp add: js_Set_def)
qed

lemma js_Set_append:
  assumes "distinct ys" and "set xs \<inter> set ys = {}"
  shows "js_Set (xs @ ys) = js_Set xs @ ys"
proof -
  have "foldl set_add (js_Set xs) ys = js_Set xs @ ys"
    using assms by (intro foldl_set_add_distinct) simp
  then show ?thesis by (simp add: js_Set_def)
qed

section \<open>Stable sorting with a comparison function\<close>

fun sort_insert :: "('a \<Rightarrow> 'a \<Rightarrow> int) \<Rightarrow> 'a \<Rightarrow> 'a list \<Rightarrow> 'a list" where
  "sort_insert cmp x [] = [x]"
| "sort_insert cmp x (y # ys) = (if cmp x y \<le> 0 then x # y # ys else y # sort_insert cmp x ys)"

definition js_sort :: "('a \<Rightarrow> 'a \<Rightarrow> int) \<Rightarrow> 'a list \<Rightarrow> 'a list" where
  "js_sort cmp xs = foldr (sort_insert cmp) xs []"

lemma js_sort_simps [simp]:
  "js_sort cmp [] = []" "js_sort cmp (x # xs) = sort_insert cmp x (js_sort cmp xs)"
  by (simp_all add: js_sort_def)

lemma mset_sort_insert [simp]: "mset (sort_insert cmp x xs) = add_mset x (mset xs)"
  by (induction xs) auto

lemma mset_js_sort [simp]: "mset (js_sort cmp xs) = mset xs"
  by (induction xs) auto

lemma set_js_sort [simp]: "set (js_sort cmp xs) = set xs"
  by (metis mset_js_sort set_mset_mset)

lemma length_js_sort [simp]: "length (js_sort cmp xs) = length xs"
  by (metis mset_js_sort size_mset)

lemma distinct_js_sort [simp]: "distinct (js_sort cmp xs) = distinct xs"
  by (metis mset_js_sort mset_eq_imp_distinct_iff)

text \<open>
  What the code expects of a comparison function: its sign orders the values
  totally and transitively. The result of the sort is then ordered, and equal
  elements keep their order.
\<close>

locale js_comparator =
  fixes cmp :: "'a \<Rightarrow> 'a \<Rightarrow> int"
  assumes cmp_total: "cmp x y \<le> 0 \<or> cmp y x \<le> 0"
    and cmp_trans: "cmp x y \<le> 0 \<Longrightarrow> cmp y z \<le> 0 \<Longrightarrow> cmp x z \<le> 0"
begin

abbreviation le where
  "le x y \<equiv> cmp x y \<le> 0"

lemma set_sort_insert: "set (sort_insert cmp x xs) = insert x (set xs)"
  by (metis mset_sort_insert set_mset_add_mset_insert set_mset_mset)

lemma sorted_sort_insert: "sorted_wrt le xs \<Longrightarrow> sorted_wrt le (sort_insert cmp x xs)"
proof (induction xs)
  case (Cons y ys)
  then show ?case
    using cmp_total [of x y] by (auto simp: set_sort_insert intro: cmp_trans)
qed simp

lemma sorted_js_sort: "sorted_wrt le (js_sort cmp xs)"
  by (induction xs) (auto intro: sorted_sort_insert)

lemma sort_sorted: "sorted_wrt le xs \<Longrightarrow> js_sort cmp xs = xs"
proof (induction xs)
  case (Cons x xs)
  then show ?case by (cases xs) auto
qed simp

lemma sort_idem: "js_sort cmp (js_sort cmp xs) = js_sort cmp xs"
  by (rule sort_sorted) (rule sorted_js_sort)

lemma filter_sort_insert:
  assumes "sorted_wrt le xs"
  shows "filter (\<lambda>y. le z y \<and> le y z) (sort_insert cmp x xs) =
    (if le z x \<and> le x z then x # filter (\<lambda>y. le z y \<and> le y z) xs
     else filter (\<lambda>y. le z y \<and> le y z) xs)"
  using assms
proof (induction xs)
  case (Cons y ys)
  then show ?case
    using cmp_total [of x y] by (auto intro: cmp_trans)
qed simp

lemma sort_stable:
  "filter (\<lambda>y. le z y \<and> le y z) (js_sort cmp xs) = filter (\<lambda>y. le z y \<and> le y z) xs"
  by (induction xs) (auto simp: filter_sort_insert sorted_js_sort)

end

text \<open>Where only equal values compare equal, the sorted list depends on the elements alone.\<close>

locale js_strict_comparator = js_comparator +
  assumes cmp_antisym: "cmp x y \<le> 0 \<Longrightarrow> cmp y x \<le> 0 \<Longrightarrow> x = y"
begin

lemma sorted_mset_unique:
  "sorted_wrt le xs \<Longrightarrow> sorted_wrt le ys \<Longrightarrow> mset xs = mset ys \<Longrightarrow> xs = ys"
proof (induction xs arbitrary: ys)
  case (Cons x xs)
  then obtain y ys' where ys: "ys = y # ys'" by (cases ys) auto
  have "x \<in> set ys" and "y \<in> set (x # xs)"
    using Cons.prems(3) ys mset_eq_setD by fastforce+
  then have "x = y"
    using Cons.prems(1,2) ys by (auto intro: cmp_antisym)
  with Cons ys show ?case by simp
qed simp

lemma sort_cong: "mset xs = mset ys \<Longrightarrow> js_sort cmp xs = js_sort cmp ys"
  by (rule sorted_mset_unique) (simp_all add: sorted_js_sort)

end

section \<open>Maps in insertion order\<close>

text \<open>
  The accumulation step: take the entry under the key, or a fresh one, add the
  record to it and store it. A new key goes to the end of the map.
\<close>

definition tally :: "('r \<Rightarrow> 'k) \<Rightarrow> ('r \<Rightarrow> 'e) \<Rightarrow> ('r \<Rightarrow> 'e \<Rightarrow> 'e) \<Rightarrow> ('k \<times> 'e) list \<Rightarrow> 'r
    \<Rightarrow> ('k \<times> 'e) list" where
  "tally key init add m r = AList.update_with_aux (init r) (key r) (add r) m"

lemma keys_update_with_aux:
  "map fst (AList.update_with_aux v k f m) = set_add (map fst m) k"
  by (induction m) (auto simp: set_add_def)

lemma map_of_update_with_aux:
  "map_of (AList.update_with_aux v k f m) k' =
     (if k' = k then Some (f (case map_of m k of None \<Rightarrow> v | Some e \<Rightarrow> e)) else map_of m k')"
  by (induction m) auto

lemma keys_tally: "map fst (foldl (tally key init add) m rs) = foldl set_add (map fst m) (map key rs)"
  by (induction rs arbitrary: m) (simp_all add: tally_def keys_update_with_aux)

lemma keys_tally_Nil: "map fst (foldl (tally key init add) [] rs) = js_Set (map key rs)"
  by (simp add: keys_tally js_Set_def)

lemma map_of_tally_None_iff:
  "map_of (foldl (tally key init add) [] rs) k = None \<longleftrightarrow> k \<notin> key ` set rs"
  by (simp add: map_of_eq_None_iff keys_tally_Nil flip: set_map)

lemma keys_tally_eq_Nil: "foldl (tally key init add) [] rs = [] \<longleftrightarrow> rs = []"
  using keys_tally_Nil [of key init add rs] by (metis Nil_is_map_conv js_Set_eq_Nil_iff)

lemma distinct_keys_tally: "distinct (map fst (foldl (tally key init add) [] rs))"
  by (simp add: keys_tally_Nil)

lemma set_update_with_aux:
  "x \<in> set (AList.update_with_aux v k f m) \<Longrightarrow>
   x \<in> set m \<or> (\<exists>e. x = (k, f e) \<and> ((k, e) \<in> set m \<or> e = v))"
  by (induction m) (auto split: if_splits)

text \<open>What holds of a fresh entry under its key, and is kept by every addition, holds of all entries.\<close>

lemma tally_invariant:
  assumes "\<And>r. r \<in> set rs \<Longrightarrow> P (key r) (init r)"
    and "\<And>r k e. r \<in> set rs \<Longrightarrow> P k e \<Longrightarrow> P k (add r e)"
    and "(k, e) \<in> set (foldl (tally key init add) m rs)" and "\<And>k e. (k, e) \<in> set m \<Longrightarrow> P k e"
  shows "P k e"
  using assms
proof (induction rs arbitrary: m)
  case (Cons r rs)
  show ?case
  proof (rule Cons.IH [OF Cons.prems(1,2)])
    show "(k, e) \<in> set (foldl (tally key init add) (tally key init add m r) rs)" using Cons.prems(3) by simp
    fix k e assume "(k, e) \<in> set (tally key init add m r)"
    then show "P k e" unfolding tally_def
      using Cons.prems(1,2,4) by (fastforce dest: set_update_with_aux)
  qed simp_all
qed simp

text \<open>The entries under some of the keys are those of the records with these keys.\<close>

lemma filter_update_with_aux:
  "filter (\<lambda>p. Q (fst p)) (AList.update_with_aux v k f m) =
     (if Q k then AList.update_with_aux v k f (filter (\<lambda>p. Q (fst p)) m) else filter (\<lambda>p. Q (fst p)) m)"
  by (induction m) auto

lemma filter_tally:
  "filter (\<lambda>p. Q (fst p)) (foldl (tally key init add) m rs) =
     foldl (tally key init add) (filter (\<lambda>p. Q (fst p)) m) (filter (\<lambda>r. Q (key r)) rs)"
  by (induction rs arbitrary: m) (simp_all add: tally_def filter_update_with_aux)

text \<open>What the accumulated entries add up to.\<close>

locale tallying =
  fixes key :: "'r \<Rightarrow> 'k" and init :: "'r \<Rightarrow> 'e" and add :: "'r \<Rightarrow> 'e \<Rightarrow> 'e"
    and val :: "'e \<Rightarrow> 'v::comm_monoid_add" and amount :: "'r \<Rightarrow> 'v"
  assumes val_init: "val (init r) = 0"
    and val_add: "val (add r e) = val e + amount r"
begin

abbreviation run where
  "run \<equiv> foldl (tally key init add)"

definition at_key where
  "at_key m k = (case map_of m k of None \<Rightarrow> 0 | Some e \<Rightarrow> val e)"

lemma at_key_tally: "at_key (tally key init add m r) k = at_key m k + (if key r = k then amount r else 0)"
  by (auto simp: at_key_def tally_def map_of_update_with_aux val_init val_add split: option.split)

lemma at_key_run: "at_key (run m rs) k = at_key m k + (\<Sum>r\<leftarrow>filter (\<lambda>r. key r = k) rs. amount r)"
  by (induction rs arbitrary: m) (auto simp: at_key_tally add.assoc)

lemma entry_value:
  assumes "map_of (run [] rs) k = Some e"
  shows "val e = (\<Sum>r\<leftarrow>filter (\<lambda>r. key r = k) rs. amount r)"
  using at_key_run [of "[]" rs k] assms by (simp add: at_key_def)

lemma total_update:
  "distinct (map fst m) \<Longrightarrow>
   (\<Sum>p\<leftarrow>tally key init add m r. val (snd p)) = (\<Sum>p\<leftarrow>m. val (snd p)) + amount r"
  by (induction m) (auto simp: tally_def val_init val_add ac_simps)

lemma total_run:
  assumes "distinct (map fst m)"
  shows "(\<Sum>p\<leftarrow>run m rs. val (snd p)) = (\<Sum>p\<leftarrow>m. val (snd p)) + (\<Sum>r\<leftarrow>rs. amount r)"
  using assms
proof (induction rs arbitrary: m)
  case (Cons r rs)
  have "distinct (map fst (tally key init add m r))"
    using Cons.prems by (simp add: tally_def keys_update_with_aux set_add_def)
  then show ?case
    using Cons by (simp add: total_update add.assoc)
qed simp

lemma total: "(\<Sum>p\<leftarrow>run [] rs. val (snd p)) = (\<Sum>r\<leftarrow>rs. amount r)"
  using total_run [of "[]"] by simp

end

section \<open>Printers and readers\<close>

text \<open>
  What a client may rely on where data is kept as text: an object that is \<open>ok\<close> is read back from its text as its
  canonical form, which has the same text.
\<close>

locale printed_form =
  fixes ok :: "'a \<Rightarrow> bool" and show_text :: "'a \<Rightarrow> jstring" and read_text :: "jstring \<Rightarrow> 'b" and found :: "'a \<Rightarrow> 'b" and canon :: "'a \<Rightarrow> 'a"
  assumes read_back: "ok x \<Longrightarrow> read_text (show_text x) = found (canon x)"
    and canon_ok: "ok x \<Longrightarrow> ok (canon x)"
    and canon_text: "ok x \<Longrightarrow> show_text (canon x) = show_text x"
    and found_inj: "found x = found y \<Longrightarrow> x = y"
begin

lemma canon_canon: "ok x \<Longrightarrow> canon (canon x) = canon x"
  using read_back [of x] read_back [OF canon_ok [of x]] canon_text [of x] found_inj by metis

lemma same_text: "ok x \<Longrightarrow> ok y \<Longrightarrow> show_text x = show_text y \<longleftrightarrow> canon x = canon y"
  using read_back [of x] read_back [of y] canon_text found_inj by metis

end

end
