(* ===== verification/Status_Codes.thy ===== *)
theory Status_Codes
  imports Prelude
begin

text \<open>
  HTTP status code rules (\<open>lib/http-status-code-rules.ts\<close>): the text an
  administrator types ("401, 500-503") is split into tokens, each token is
  parsed into an interval of codes, and the intervals are sorted and merged.
  The lemmas show that the merged list is the canonical form of the set of
  codes the tokens name, and that the normalised text parses back to the same
  result.
\<close>

section \<open>Data\<close>

record status_code_range =
  range_start :: nat
  range_end :: nat

record parsed_rules =
  ok :: bool
  ranges :: "status_code_range list"
  tokens :: "jstring list"
  normalized :: jstring
  invalidTokens :: "jstring list"

section \<open>Parsing a token\<close>

definition isNumber :: "jstring \<Rightarrow> bool" where
  "isNumber s \<longleftrightarrow> s \<noteq> [] \<and> list_all is_digit s"

definition isValidCode :: "nat \<Rightarrow> bool" where
  "isValidCode code \<longleftrightarrow> code \<ge> 100 \<and> code \<le> 599"

text \<open>The text between two \<open>-\<close> beyond the second part is not looked at, as in \<open>[a, b]\<close>.\<close>

definition parseToken :: "jstring \<Rightarrow> status_code_range option" where
  "parseToken token =
     (let cleaned = filter (\<lambda>c. \<not> is_ws c) (trim token) in
      if cleaned = [] then None
      else if 45 \<in> set cleaned then
        (case split_char 45 cleaned of
           a # b # _ \<Rightarrow>
             if \<not> isNumber a \<or> \<not> isNumber b then None
             else
               let start = parse_digits a; end' = parse_digits b in
               if \<not> isValidCode start \<or> \<not> isValidCode end' \<or> start > end' then None
               else Some \<lparr>range_start = start, range_end = end'\<rparr>
         | _ \<Rightarrow> None)
      else if \<not> isNumber cleaned then None
      else
        let code = parse_digits cleaned in
        if \<not> isValidCode code then None
        else Some \<lparr>range_start = code, range_end = code\<rparr>)"

section \<open>Merging the ranges\<close>

definition range_cmp :: "status_code_range \<Rightarrow> status_code_range \<Rightarrow> int" where
  "range_cmp a b =
     (if range_start a \<noteq> range_start b then int (range_start a) - int (range_start b)
      else int (range_end a) - int (range_end b))"

definition merge_step :: "status_code_range list \<Rightarrow> status_code_range \<Rightarrow> status_code_range list" where
  "merge_step merged current =
     (if merged = [] \<or> range_start current > range_end (last merged) + 1 then merged @ [current]
      else butlast merged @
        [(last merged)\<lparr>range_end := max (range_end (last merged)) (range_end current)\<rparr>])"

definition mergeRanges :: "status_code_range list \<Rightarrow> status_code_range list" where
  "mergeRanges rs = (if rs = [] then [] else foldl merge_step [] (js_sort range_cmp rs))"

section \<open>The parser\<close>

definition range_token :: "status_code_range \<Rightarrow> jstring" where
  "range_token r =
     (if range_start r = range_end r then nat_str (range_start r)
      else nat_str (range_start r) @ [45] @ nat_str (range_end r))"

text \<open>The full-width comma U+FF0C is read as a comma.\<close>

definition rule_segments :: "jstring \<Rightarrow> jstring list" where
  "rule_segments raw =
     nonempty (map trim (split_char 44 (map (\<lambda>c. if c = 65292 then 44 else c) raw)))"

text \<open>
  The argument is what \<open>toString()\<close> gives for the input, \<open>None\<close> for \<open>null\<close>
  and \<open>undefined\<close>.
\<close>

definition parseHttpStatusCodeRules :: "jstring option \<Rightarrow> parsed_rules" where
  "parseHttpStatusCodeRules input =
     (let raw = trim (case input of None \<Rightarrow> [] | Some s \<Rightarrow> s) in
      if length raw = 0 then
        \<lparr>ok = True, ranges = [], tokens = [], normalized = [], invalidTokens = []\<rparr>
      else
        let segments = rule_segments raw;
            rs = List.map_filter parseToken segments;
            invalid = filter (\<lambda>s. parseToken s = None) segments in
        if length invalid > 0 then
          \<lparr>ok = False, ranges = [], tokens = [], normalized = raw, invalidTokens = invalid\<rparr>
        else
          let merged = mergeRanges rs; toks = map range_token merged in
          \<lparr>ok = True, ranges = merged, tokens = toks, normalized = join [44] toks,
            invalidTokens = []\<rparr>)"

section \<open>The comparison function\<close>

interpretation range_order: js_strict_comparator range_cmp
proof
  fix x y z :: status_code_range
  show "range_cmp x y \<le> 0 \<or> range_cmp y x \<le> 0"
    by (auto simp: range_cmp_def)
  show "range_cmp x y \<le> 0 \<Longrightarrow> range_cmp y z \<le> 0 \<Longrightarrow> range_cmp x z \<le> 0"
    by (auto simp: range_cmp_def split: if_splits)
  show "range_cmp x y \<le> 0 \<Longrightarrow> range_cmp y x \<le> 0 \<Longrightarrow> x = y"
    by (cases x; cases y) (auto simp: range_cmp_def split: if_splits)
qed

section \<open>Sets of codes and canonical lists\<close>

definition covers :: "status_code_range list \<Rightarrow> nat \<Rightarrow> bool" where
  "covers rs c \<longleftrightarrow> (\<exists>r \<in> set rs. range_start r \<le> c \<and> c \<le> range_end r)"

definition valid_range :: "status_code_range \<Rightarrow> bool" where
  "valid_range r \<longleftrightarrow> 100 \<le> range_start r \<and> range_start r \<le> range_end r \<and> range_end r \<le> 599"

text \<open>Ascending, and with at least one code between two neighbours.\<close>

definition separated :: "status_code_range list \<Rightarrow> bool" where
  "separated rs \<longleftrightarrow> sorted_wrt (\<lambda>a b. range_end a + 1 < range_start b) rs"

definition canonical :: "status_code_range list \<Rightarrow> bool" where
  "canonical rs \<longleftrightarrow> separated rs \<and> list_all valid_range rs"

lemma covers_simps [simp]:
  "covers [] c \<longleftrightarrow> False"
  "covers (r # rs) c \<longleftrightarrow> (range_start r \<le> c \<and> c \<le> range_end r) \<or> covers rs c"
  "covers (rs @ rs') c \<longleftrightarrow> covers rs c \<or> covers rs' c"
  by (auto simp: covers_def)

lemma covers_js_sort [simp]: "covers (js_sort cmp rs) c = covers rs c"
  by (simp add: covers_def)

lemma parseToken_valid: "parseToken t = Some r \<Longrightarrow> valid_range r"
  by (auto simp: parseToken_def valid_range_def isValidCode_def Let_def
        split: if_splits list.splits)

text \<open>
  One step of the merge, where the next range starts no earlier than the last
  merged one: coverage is added, and the list stays separated.
\<close>

definition merge_inv :: "status_code_range list \<Rightarrow> bool" where
  "merge_inv rs \<longleftrightarrow> separated rs \<and> (\<forall>r \<in> set rs. valid_range r)"

lemma merge_step_covers:
  assumes "merged \<noteq> [] \<Longrightarrow> range_start (last merged) \<le> range_start r"
    and "merged \<noteq> [] \<Longrightarrow> range_start (last merged) \<le> range_end (last merged)"
    and "range_start r \<le> range_end r"
  shows "covers (merge_step merged r) c \<longleftrightarrow> covers merged c \<or> covers [r] c"
proof (cases "merged = []")
  case True
  then show ?thesis by (simp add: merge_step_def)
next
  case False
  then obtain ms l where m: "merged = ms @ [l]" by (metis append_butlast_last_id)
  with assms False show ?thesis by (auto simp: merge_step_def max_def)
qed

lemma merge_step_inv:
  assumes "merge_inv merged" and "valid_range r"
    and "merged \<noteq> [] \<Longrightarrow> range_start (last merged) \<le> range_start r"
  shows "merge_inv (merge_step merged r)"
    and "range_start (last (merge_step merged r)) \<le> range_start r"
    and "merge_step merged r \<noteq> []"
proof -
  show "merge_step merged r \<noteq> []" by (simp add: merge_step_def)
  show "range_start (last (merge_step merged r)) \<le> range_start r"
    using assms(3) by (simp add: merge_step_def)
  show "merge_inv (merge_step merged r)"
  proof (cases "merged = []")
    case True
    with assms show ?thesis by (simp add: merge_step_def merge_inv_def separated_def)
  next
    case False
    then obtain ms l where m: "merged = ms @ [l]" by (metis append_butlast_last_id)
    with assms show ?thesis
      by (fastforce simp: merge_step_def merge_inv_def separated_def sorted_wrt_append
            valid_range_def max_def)
  qed
qed

lemma foldl_merge_step:
  assumes "sorted_wrt (\<lambda>a b. range_start a \<le> range_start b) rs" and "\<forall>r \<in> set rs. valid_range r"
    and "merge_inv merged"
    and "merged \<noteq> [] \<Longrightarrow> \<forall>r \<in> set rs. range_start (last merged) \<le> range_start r"
  shows "merge_inv (foldl merge_step merged rs) \<and>
    (\<forall>c. covers (foldl merge_step merged rs) c \<longleftrightarrow> covers merged c \<or> covers rs c)"
  using assms
proof (induction rs arbitrary: merged)
  case (Cons r rs)
  have le: "merged \<noteq> [] \<Longrightarrow> range_start (last merged) \<le> range_start r"
    using Cons.prems(4) by simp
  have v: "valid_range r" using Cons.prems(2) by simp
  note step = merge_step_inv [OF Cons.prems(3) v le]
  have "\<forall>r' \<in> set rs. range_start (last (merge_step merged r)) \<le> range_start r'"
    using step(2) Cons.prems(1) by fastforce
  then have IH: "merge_inv (foldl merge_step (merge_step merged r) rs) \<and>
      (\<forall>c. covers (foldl merge_step (merge_step merged r) rs) c
        \<longleftrightarrow> covers (merge_step merged r) c \<or> covers rs c)"
    using Cons.prems(1,2) step(1) by (intro Cons.IH) simp_all
  have "covers (merge_step merged r) c \<longleftrightarrow> covers merged c \<or> covers [r] c" for c
    using le v Cons.prems(3)
    by (intro merge_step_covers) (auto simp: valid_range_def merge_inv_def)
  with IH show ?case by auto
qed simp

lemma mergeRanges_correct:
  assumes "\<forall>r \<in> set rs. valid_range r"
  shows "canonical (mergeRanges rs)" and "covers (mergeRanges rs) c \<longleftrightarrow> covers rs c"
proof -
  have "sorted_wrt (\<lambda>a b. range_start a \<le> range_start b) (js_sort range_cmp rs)"
    by (rule sorted_wrt_mono_rel [OF _ range_order.sorted_js_sort])
      (auto simp: range_cmp_def split: if_splits)
  then have "merge_inv (foldl merge_step [] (js_sort range_cmp rs)) \<and>
      (\<forall>c. covers (foldl merge_step [] (js_sort range_cmp rs)) c \<longleftrightarrow>
        covers [] c \<or> covers (js_sort range_cmp rs) c)"
    using assms by (intro foldl_merge_step) (auto simp: merge_inv_def separated_def)
  then show "canonical (mergeRanges rs)" "covers (mergeRanges rs) c \<longleftrightarrow> covers rs c"
    by (auto simp: mergeRanges_def canonical_def merge_inv_def list_all_iff separated_def)
qed

lemma foldl_merge_separated: "separated (ms @ rs) \<Longrightarrow> foldl merge_step ms rs = ms @ rs"
proof (induction rs arbitrary: ms)
  case (Cons r rs)
  have "merge_step ms r = ms @ [r]"
    using Cons.prems by (auto simp: merge_step_def separated_def sorted_wrt_append)
  with Cons show ?case by simp
qed simp

lemma mergeRanges_canonical:
  assumes "canonical rs" shows "mergeRanges rs = rs"
proof -
  have "sorted_wrt (\<lambda>a b. range_cmp a b \<le> 0) rs"
  proof (rule sorted_wrt_mono_rel)
    show "sorted_wrt (\<lambda>a b. range_end a + 1 < range_start b) rs"
      using assms by (simp add: canonical_def separated_def)
  next
    fix a b assume "a \<in> set rs" "b \<in> set rs" "range_end a + 1 < range_start b"
    then show "range_cmp a b \<le> 0"
      using assms by (auto simp: canonical_def list_all_iff valid_range_def range_cmp_def)
  qed
  then have "js_sort range_cmp rs = rs" by (rule range_order.sort_sorted)
  with assms show ?thesis
    by (simp add: mergeRanges_def foldl_merge_separated canonical_def)
qed

text \<open>A separated list is determined by the codes it covers.\<close>

lemma canonical_unique:
  assumes "canonical rs" and "canonical rs'" and "\<And>c. covers rs c = covers rs' c"
  shows "rs = rs'"
  using assms
proof (induction rs arbitrary: rs')
  case Nil
  show ?case
  proof (cases rs')
    case (Cons r t)
    have "covers [] (range_start r)"
      using Nil.prems Cons by (auto simp: canonical_def valid_range_def)
    then show ?thesis by simp
  qed simp
next
  case (Cons r rs)
  show ?case
  proof (cases rs')
    case Nil
    have "covers rs' (range_start r)"
      using Cons.prems(1) by (simp flip: Cons.prems(3)) (simp add: canonical_def valid_range_def)
    with Nil show ?thesis by simp
  next
    fix q t assume rs': "rs' = q # t"
    have r: "valid_range r" "\<forall>x \<in> set rs. range_end r + 1 < range_start x" "canonical rs"
      and q: "valid_range q" "\<forall>x \<in> set t. range_end q + 1 < range_start x" "canonical t"
      using Cons.prems(1,2) rs' by (auto simp: canonical_def separated_def)
    have cov: "covers (r # rs) c = covers (q # t) c" for c
      using Cons.prems(3) rs' by simp
    have low: "covers rs c \<Longrightarrow> range_end r + 1 < c" "covers t c \<Longrightarrow> range_end q + 1 < c" for c
      using r(2) q(2) by (force simp: covers_def)+
    have "range_start r = range_start q"
      using cov [of "range_start r"] cov [of "range_start q"] r(1) q(1) low
      by (fastforce simp: valid_range_def)
    moreover have "range_end r = range_end q"
    proof (rule ccontr)
      assume "range_end r \<noteq> range_end q"
      then consider "range_end r < range_end q" | "range_end q < range_end r" by linarith
      then show False
      proof cases
        case 1
        then show False
          using cov [of "range_end r + 1"] low(1) [of "range_end r + 1"] \<open>range_start r = range_start q\<close>
            r(1) by (auto simp: valid_range_def)
      next
        case 2
        then show False
          using cov [of "range_end q + 1"] low(2) [of "range_end q + 1"] \<open>range_start r = range_start q\<close>
            q(1) by (auto simp: valid_range_def)
      qed
    qed
    ultimately have "r = q" by simp
    have "covers rs c = covers t c" for c
      using cov [of c] low [of c] \<open>r = q\<close> by auto
    with Cons.IH r(3) q(3) have "rs = t" by blast
    with \<open>r = q\<close> rs' show ?thesis by simp
  qed
qed

section \<open>Printing and parsing back\<close>

lemma nat_str_isNumber: "isNumber (nat_str n)"
  by (simp add: isNumber_def list_all_iff nat_str_digits)

lemma digits_not_sep: "list_all is_digit s \<Longrightarrow> 45 \<notin> set s \<and> 44 \<notin> set s"
  by (auto simp: list_all_iff is_digit_def)

lemma range_token_chars:
  "c \<in> set (range_token r) \<Longrightarrow> is_digit c \<or> c = 45"
  using nat_str_digits by (auto simp: range_token_def split: if_splits)

lemma range_token_noWs: "c \<in> set (range_token r) \<Longrightarrow> \<not> is_ws c"
  by (drule range_token_chars) (auto simp: digit_not_ws, simp add: is_ws_def)

lemma range_token_trimmed [simp]: "trim (range_token r) = range_token r"
  by (rule trim_trimmed, rule trimmed_noWs) (simp add: range_token_noWs)

lemma range_token_clean: "filter (\<lambda>c. \<not> is_ws c) (range_token r) = range_token r"
  by (simp add: filter_id_conv range_token_noWs)

lemma range_token_neq_Nil [simp]: "range_token r \<noteq> []"
  by (simp add: range_token_def)

lemma dash_range_token: "45 \<in> set (range_token r) \<longleftrightarrow> range_start r \<noteq> range_end r"
  using nat_str_digits [of "range_start r"] by (force simp: range_token_def is_digit_def)

lemma split_dash_token:
  "split_char 45 (nat_str m @ 45 # nat_str n) = [nat_str m, nat_str n]"
  using nat_str_isNumber [of m] nat_str_isNumber [of n] digits_not_sep
  by (simp add: isNumber_def split_char_append split_char_notin)

lemma parseToken_range_token:
  assumes "valid_range r" shows "parseToken (range_token r) = Some r"
proof (cases "range_start r = range_end r")
  case True
  then have "\<not> 45 \<in> set (range_token r)" by (simp add: dash_range_token)
  moreover have "isNumber (range_token r)" "parse_digits (range_token r) = range_end r"
    using True by (simp_all add: range_token_def nat_str_isNumber)
  ultimately show ?thesis
    using True assms
    by (cases r) (simp add: parseToken_def range_token_clean valid_range_def isValidCode_def)
next
  case False
  then have d: "45 \<in> set (range_token r)" by (simp add: dash_range_token)
  from False have "split_char 45 (range_token r) = [nat_str (range_start r), nat_str (range_end r)]"
    by (simp add: range_token_def split_dash_token)
  with d assms show ?thesis
    by (simp add: parseToken_def range_token_clean nat_str_isNumber valid_range_def isValidCode_def)
qed

lemma map_comma_id: "65292 \<notin> set s \<Longrightarrow> map (\<lambda>c. if c = 65292 then 44 else c) s = s"
  by (induction s) auto

lemma set_join: "set (join sep xs) \<subseteq> set sep \<union> \<Union> (set ` set xs)"
  by (induction sep xs rule: join.induct) auto

lemma tokens_chars:
  assumes "c \<in> set (join [44] (map range_token rs))" shows "is_digit c \<or> c = 45 \<or> c = 44"
  using set_join [of "[44]" "map range_token rs"] assms range_token_chars by fastforce

lemma segments_tokens:
  "rs \<noteq> [] \<Longrightarrow> rule_segments (join [44] (map range_token rs)) = map range_token rs"
proof -
  assume "rs \<noteq> []"
  have no: "65292 \<notin> set (join [44] (map range_token rs))"
    using tokens_chars [of 65292 rs] by (auto simp: is_digit_def)
  have "44 \<notin> set (range_token r)" for r
    using range_token_chars [of 44 r] by (auto simp: is_digit_def)
  then have "split_char 44 (join [44] (map range_token rs)) = map range_token rs"
    using \<open>rs \<noteq> []\<close> by (intro split_char_join) auto
  then show ?thesis
    by (simp add: rule_segments_def map_comma_id [OF no] nonempty_def comp_def filter_id_conv)
qed

lemma tokens_trim: "trim (join [44] (map range_token rs)) = join [44] (map range_token rs)"
  by (rule trim_trimmed, rule trimmed_noWs)
    (use tokens_chars in \<open>force simp: is_ws_def is_digit_def\<close>)

lemma join_tokens_Nil: "join [44] (map range_token rs) = [] \<longleftrightarrow> rs = []"
proof (cases rs)
  case (Cons r t)
  then show ?thesis by (cases t) auto
qed simp

text \<open>The values the parser returns, on its three paths.\<close>

definition ok_result :: "status_code_range list \<Rightarrow> parsed_rules" where
  "ok_result rs = \<lparr>ok = True, ranges = rs, tokens = map range_token rs,
     normalized = join [44] (map range_token rs), invalidTokens = []\<rparr>"

lemma parse_cases:
  obtains (good) rs where "parseHttpStatusCodeRules input = ok_result rs" "canonical rs"
      "\<And>c. covers rs c \<longleftrightarrow> (\<exists>s \<in> set (rule_segments (trim (case input of None \<Rightarrow> [] | Some s \<Rightarrow> s))).
         \<exists>r. parseToken s = Some r \<and> range_start r \<le> c \<and> c \<le> range_end r)"
      "\<forall>s \<in> set (rule_segments (trim (case input of None \<Rightarrow> [] | Some s \<Rightarrow> s))). parseToken s \<noteq> None"
  | (bad) raw inv where "raw = trim (case input of None \<Rightarrow> [] | Some s \<Rightarrow> s)" "raw \<noteq> []"
      "inv = filter (\<lambda>s. parseToken s = None) (rule_segments raw)" "inv \<noteq> []"
      "parseHttpStatusCodeRules input =
         \<lparr>ok = False, ranges = [], tokens = [], normalized = raw, invalidTokens = inv\<rparr>"
proof -
  let ?raw = "trim (case input of None \<Rightarrow> [] | Some s \<Rightarrow> s)"
  let ?segs = "rule_segments ?raw"
  let ?rs = "List.map_filter parseToken ?segs"
  have valid: "\<forall>r \<in> set ?rs. valid_range r"
    by (auto intro: parseToken_valid)
  have cov: "covers (mergeRanges ?rs) c \<longleftrightarrow>
      (\<exists>s \<in> set ?segs. \<exists>r. parseToken s = Some r \<and> range_start r \<le> c \<and> c \<le> range_end r)" for c
    unfolding mergeRanges_correct(2) [OF valid] by (auto simp: covers_def)
  consider "?raw = []" | "?raw \<noteq> []" "filter (\<lambda>s. parseToken s = None) ?segs \<noteq> []"
    | "?raw \<noteq> []" "filter (\<lambda>s. parseToken s = None) ?segs = []" by blast
  then show thesis
  proof cases
    case 1
    show thesis
      by (rule good [of "[]"])
        (auto simp: 1 parseHttpStatusCodeRules_def ok_result_def canonical_def separated_def
          rule_segments_def nonempty_def)
  next
    case 2
    then show thesis
      by (intro bad [OF refl _ refl]) (simp_all add: parseHttpStatusCodeRules_def Let_def)
  next
    case 3
    show thesis
      by (rule good [of "mergeRanges ?rs"])
        (use 3 in \<open>auto simp: parseHttpStatusCodeRules_def ok_result_def Let_def cov
          mergeRanges_correct(1) [OF valid] filter_empty_conv\<close>)
  qed
qed

lemma parse_ok_result: "canonical rs \<Longrightarrow> parseHttpStatusCodeRules (Some (normalized (ok_result rs))) = ok_result rs"
proof (cases "rs = []")
  case True
  then show ?thesis by (simp add: ok_result_def parseHttpStatusCodeRules_def)
next
  case False
  assume c: "canonical rs"
  then have v: "r \<in> set rs \<Longrightarrow> parseToken (range_token r) = Some r" for r
    by (simp add: canonical_def list_all_iff parseToken_range_token)
  have "List.map_filter parseToken (map range_token rs) = rs"
    using v by (induction rs) (auto simp: List.map_filter_simps)
  moreover have "filter (\<lambda>s. parseToken s = None) (map range_token rs) = []"
    using v by (auto simp: filter_empty_conv)
  ultimately show ?thesis
    using False c
    by (simp add: parseHttpStatusCodeRules_def ok_result_def tokens_trim segments_tokens
        join_tokens_Nil Let_def mergeRanges_canonical)
qed

lemma parse_trim:
  "parseHttpStatusCodeRules (Some (trim (case input of None \<Rightarrow> [] | Some s \<Rightarrow> s)))
     = parseHttpStatusCodeRules input"
  unfolding parseHttpStatusCodeRules_def by (simp only: option.case trim_trim)

section \<open>Properties\<close>

text \<open>
  whatever is typed, the parsed ranges are in canonical form: every range lies
  within 100 to 599, they ascend, and two neighbours are neither overlapping nor
  adjacent.
\<close>

theorem rules_canonical: "canonical (ranges (parseHttpStatusCodeRules input))"
  by (rule parse_cases [of input]) (auto simp: ok_result_def canonical_def separated_def)

text \<open>
  merging neither loses nor invents a code: a code is in the parsed ranges
  exactly when the whole text was accepted and one of its comma-separated
  segments names it.
\<close>

theorem rules_cover:
  "covers (ranges (parseHttpStatusCodeRules input)) c \<longleftrightarrow>
     ok (parseHttpStatusCodeRules input) \<and>
     (\<exists>s \<in> set (rule_segments (trim (case input of None \<Rightarrow> [] | Some s \<Rightarrow> s))).
        \<exists>r. parseToken s = Some r \<and> range_start r \<le> c \<and> c \<le> range_end r)"
  by (rule parse_cases [of input]) (simp_all add: ok_result_def)

text \<open>
  C24: normalising is idempotent: parsing the normalised text gives the same result
  again, for an accepted text and for a rejected one.
\<close>

theorem rules_normalized_roundtrip:
  "parseHttpStatusCodeRules (Some (normalized (parseHttpStatusCodeRules input)))
     = parseHttpStatusCodeRules input"
proof (rule parse_cases [of input])
  fix rs assume "parseHttpStatusCodeRules input = ok_result rs" "canonical rs"
  then show ?thesis by (simp add: parse_ok_result)
next
  fix raw inv
  assume "raw = trim (case input of None \<Rightarrow> [] | Some s \<Rightarrow> s)"
    "parseHttpStatusCodeRules input =
       \<lparr>ok = False, ranges = [], tokens = [], normalized = raw, invalidTokens = inv\<rparr>"
  then show ?thesis by (simp add: parse_trim)
qed

text \<open>
  C23: two accepted texts that stand for the same set of codes give the same
  result, the same normalised text in particular.
\<close>

theorem rules_unique:
  assumes "ok (parseHttpStatusCodeRules x)" and "ok (parseHttpStatusCodeRules y)"
    and "\<And>c. covers (ranges (parseHttpStatusCodeRules x)) c
           = covers (ranges (parseHttpStatusCodeRules y)) c"
  shows "parseHttpStatusCodeRules x = parseHttpStatusCodeRules y"
proof -
  obtain rs where x: "parseHttpStatusCodeRules x = ok_result rs" "canonical rs"
    by (rule parse_cases [of x]) (use assms(1) in auto)
  obtain rs' where y: "parseHttpStatusCodeRules y = ok_result rs'" "canonical rs'"
    by (rule parse_cases [of y]) (use assms(2) in auto)
  have "rs = rs'"
    using assms(3) x y by (intro canonical_unique) (simp_all add: ok_result_def)
  with x y show ?thesis by simp
qed

lemma rules_unique_witness:
  "parseHttpStatusCodeRules (Some (js ''502-504,500-502'')) =
   parseHttpStatusCodeRules (Some (js '' 503 - 504, 500, 501-502 ''))"
proof (rule rules_unique)
  have x: "parseHttpStatusCodeRules (Some (js ''502-504,500-502''))
      = ok_result [\<lparr>range_start = 500, range_end = 504\<rparr>]" by code_simp
  have y: "parseHttpStatusCodeRules (Some (js '' 503 - 504, 500, 501-502 ''))
      = ok_result [\<lparr>range_start = 500, range_end = 504\<rparr>]" by code_simp
  show "ok (parseHttpStatusCodeRules (Some (js ''502-504,500-502'')))"
    "ok (parseHttpStatusCodeRules (Some (js '' 503 - 504, 500, 501-502 '')))"
    "covers (ranges (parseHttpStatusCodeRules (Some (js ''502-504,500-502'')))) c =
     covers (ranges (parseHttpStatusCodeRules (Some (js '' 503 - 504, 500, 501-502 '')))) c" for c
    by (simp_all add: x y) (simp_all add: ok_result_def)
qed



text \<open>A range with a third part is accepted, and the third part is dropped.\<close>

lemma third_part_dropped:
  "normalized (parseHttpStatusCodeRules (Some (js ''400-404-599''))) = js ''400-404''"
  by code_simp

end
