(* ===== verification/JS_Number.thy ===== *)
theory JS_Number
  imports Prelude
begin

text \<open>
  Numbers as decimals. A number is a pair \<open>(m, e)\<close> that stands for \<open>m * 10 ^ e\<close>,
  in normal form (no trailing zero in \<open>m\<close>, zero is \<open>(0, 0)\<close>).
  \<open>number_to_string\<close> is \<open>Number.prototype.toString\<close> with its four layouts, and
  \<open>parse_number\<close> reads a number literal of JSON. The rounding of a literal to a double is
  left out: the literals that have at most 15 significant digits survive it unchanged.
  \<open>-0\<close> is read as zero.
\<close>

type_synonym decimal = "int \<times> int"

function dec_norm :: "int \<Rightarrow> int \<Rightarrow> decimal" where
  "dec_norm m e = (if m = 0 then (0, 0) else if m mod 10 = 0 then dec_norm (m div 10) (e + 1) else (m, e))"
  by pat_completeness auto
termination by (relation "measure (\<lambda>(m, e). nat \<bar>m\<bar>)") auto

declare dec_norm.simps [simp del]

definition dec_normal :: "decimal \<Rightarrow> bool" where
  "dec_normal d \<longleftrightarrow> (if fst d = 0 then snd d = 0 else fst d mod 10 \<noteq> 0)"

definition dec_val :: "decimal \<Rightarrow> rat" where
  "dec_val d = of_int (fst d) * 10 powi snd d"

definition dec_of_int :: "int \<Rightarrow> decimal" where
  "dec_of_int i = dec_norm i 0"

definition number_to_string :: "decimal \<Rightarrow> jstring" where
  "number_to_string d =
     (let (m, e) = d in
      if m = 0 then js ''0''
      else
        let ds = nat_str (nat \<bar>m\<bar>); k = int (length ds); n = k + e in
        (if m < 0 then js ''-'' else []) @
        (if k \<le> n \<and> n \<le> 21 then ds @ replicate (nat (n - k)) 48
         else if 0 < n \<and> n \<le> 21 then take (nat n) ds @ js ''.'' @ drop (nat n) ds
         else if -6 < n \<and> n \<le> 0 then js ''0.'' @ replicate (nat (- n)) 48 @ ds
         else take 1 ds @ (if k = 1 then [] else js ''.'' @ drop 1 ds) @ js ''e'' @
              (if n - 1 < 0 then js ''-'' else js ''+'') @ nat_str (nat \<bar>n - 1\<bar>)))"

text \<open>The parts of a number literal of JSON; each returns what it read and the rest.\<close>

definition span_digits :: "jstring \<Rightarrow> jstring \<times> jstring" where
  "span_digits s = (takeWhile is_digit s, dropWhile is_digit s)"

definition parse_frac :: "jstring \<Rightarrow> (jstring \<times> jstring) option" where
  "parse_frac s =
     (case s of
        c # r \<Rightarrow>
          if c = 46 then (let (ds, t) = span_digits r in if ds = [] then None else Some (ds, t))
          else Some ([], s)
      | [] \<Rightarrow> Some ([], s))"

definition parse_exp :: "jstring \<Rightarrow> (int \<times> jstring) option" where
  "parse_exp s =
     (case s of
        c # r \<Rightarrow>
          if c = 101 \<or> c = 69 then
            let (sg, u) = (case r of d # r' \<Rightarrow> if d = 45 then (-1, r') else if d = 43 then (1, r') else (1, r)
                           | [] \<Rightarrow> (1::int, r));
                (ds, t) = span_digits u in
            if ds = [] then None else Some (sg * int (parse_digits ds), t)
          else Some (0, s)
      | [] \<Rightarrow> Some (0, s))"

definition parse_number :: "jstring \<Rightarrow> (decimal \<times> jstring) option" where
  "parse_number s =
     (let (sg, u) = (case s of c # r \<Rightarrow> if c = 45 then (-1, r) else (1, s) | [] \<Rightarrow> (1::int, s));
          (is, t) = span_digits u in
      if is = [] \<or> (hd is = 48 \<and> length is > 1) then None
      else
        case parse_frac t of
          None \<Rightarrow> None
        | Some (fs, v) \<Rightarrow>
            (case parse_exp v of
               None \<Rightarrow> None
             | Some (x, w) \<Rightarrow>
                 Some (dec_norm (sg * int (parse_digits (is @ fs))) (x - int (length fs)), w)))"

section \<open>Normal forms\<close>

lemma dec_norm_normal: "dec_normal (dec_norm m e)"
  by (induction m e rule: dec_norm.induct) (subst dec_norm.simps, auto simp: dec_normal_def)

lemma dec_norm_fixed [simp]: "dec_normal (m, e) \<Longrightarrow> dec_norm m e = (m, e)"
  by (subst dec_norm.simps) (auto simp: dec_normal_def split: if_splits)

lemma dec_norm_shift: "m \<noteq> 0 \<Longrightarrow> dec_norm (m * 10 ^ j) e = dec_norm m (e + int j)"
proof (induction j arbitrary: e)
  case (Suc j)
  have "dec_norm (m * 10 ^ Suc j) e = dec_norm (m * 10 ^ j) (e + 1)"
    using Suc.prems by (subst dec_norm.simps) (auto simp: mult.assoc [symmetric])
  then show ?case using Suc by (simp add: algebra_simps)
qed simp

lemma dec_val_norm: "dec_val (dec_norm m e) = of_int m * 10 powi e"
proof (induction m e rule: dec_norm.induct)
  case (1 m e)
  show ?case
  proof (cases "m \<noteq> 0 \<and> m mod 10 = 0")
    case True
    then obtain q where q: "m = 10 * q" by auto
    show ?thesis
      using 1 True q by (subst dec_norm.simps) (simp add: power_int_add)
  qed (subst dec_norm.simps, auto simp: dec_val_def)
qed

section \<open>Digits\<close>

lemma parse_digits_snoc: "parse_digits (xs @ [c]) = parse_digits xs * 10 + (c - 48)"
  by (simp add: parse_digits_def)

lemma parse_digits_append: "parse_digits (xs @ ys) = parse_digits xs * 10 ^ length ys + parse_digits ys"
  by (induction ys rule: rev_induct) (simp_all add: parse_digits_snoc append_assoc [symmetric] del: append_assoc,
      simp_all add: parse_digits_def algebra_simps)

lemma parse_digits_zeros [simp]: "parse_digits (replicate n 48) = 0"
  by (induction n) (simp_all add: parse_digits_def)

lemma hd_nat_str: "n \<noteq> 0 \<Longrightarrow> hd (nat_str n) \<noteq> 48"
proof (induction n rule: nat_str.induct)
  case (1 n)
  then show ?case by (cases "n < 10") (auto simp: nat_str.simps [of n] hd_append)
qed

text \<open>A text after a number literal that does not prolong it.\<close>

definition ends_number :: "jstring \<Rightarrow> bool" where
  "ends_number r \<longleftrightarrow> (case r of [] \<Rightarrow> True | c # _ \<Rightarrow> \<not> is_digit c \<and> c \<notin> {46, 101, 69})"

lemma span_digits_append:
  assumes "\<forall>c \<in> set ds. is_digit c" and "r = [] \<or> \<not> is_digit (hd r)"
  shows "span_digits (ds @ r) = (ds, r)"
  using assms by (cases r) (auto simp: span_digits_def takeWhile_append2 dropWhile_append2)

lemma parse_frac_none: "ends_number r \<Longrightarrow> parse_frac r = Some ([], r)"
  by (auto simp: ends_number_def parse_frac_def split: list.splits)

lemma parse_exp_none: "ends_number r \<Longrightarrow> parse_exp r = Some (0, r)"
  by (auto simp: ends_number_def parse_exp_def split: list.splits)

lemma ends_number_Nil [simp]: "ends_number []"
  by (simp add: ends_number_def)

lemma ends_number_hd: "ends_number r \<Longrightarrow> r = [] \<or> \<not> is_digit (hd r)"
  by (auto simp: ends_number_def split: list.splits)

lemma parse_number_literal:
  assumes "\<forall>c \<in> set ns. is_digit c" "ns \<noteq> []" "hd ns = 48 \<Longrightarrow> length ns = 1"
    and "t = [] \<or> \<not> is_digit (hd t)"
    and "parse_frac t = Some (fs, v)" "parse_exp v = Some (x, w)"
  shows "parse_number ((if neg then js ''-'' else []) @ ns @ t) =
    Some (dec_norm ((if neg then -1 else 1) * int (parse_digits (ns @ fs))) (x - int (length fs)), w)"
proof -
  obtain d ds where ns: "ns = d # ds" using assms(2) by (cases ns) auto
  have d: "d \<noteq> 45" using assms(1) ns by (auto simp: is_digit_def)
  have "span_digits (ns @ t) = (ns, t)" using assms by (intro span_digits_append) auto
  then show ?thesis
    using assms d by (cases neg) (auto simp: parse_number_def js_eval ns)
qed

lemma parse_frac_digits:
  assumes "\<forall>c \<in> set ds. is_digit c" "ds \<noteq> []" "r = [] \<or> \<not> is_digit (hd r)"
  shows "parse_frac (46 # ds @ r) = Some (ds, r)"
  using assms by (simp add: parse_frac_def span_digits_append)

lemma parse_exp_digits:
  assumes "ends_number r"
  shows "parse_exp (101 # (if x < 0 then 45 else 43) # nat_str (nat \<bar>x\<bar>) @ r) = Some (x, r)"
  using ends_number_hd [OF assms]
  by (auto simp: parse_exp_def span_digits_append nat_str_digits)

text \<open>The digits of a number that is not zero, and its sign.\<close>

lemma mantissa_digits:
  assumes "m \<noteq> 0"
  defines "ds \<equiv> nat_str (nat \<bar>m\<bar>)"
  shows "\<forall>c \<in> set ds. is_digit c" "ds \<noteq> []" "hd ds \<noteq> 48" "int (parse_digits ds) = \<bar>m\<bar>"
    and "(if m < 0 then -1 else 1) * int (parse_digits ds) = m"
  using assms by (auto simp: nat_str_digits hd_nat_str)

lemma read_integer_layout:
  assumes "m \<noteq> 0" and "ends_number r"
  shows "parse_number ((if m < 0 then js ''-'' else []) @ (nat_str (nat \<bar>m\<bar>) @ replicate j 48) @ r) =
    Some (dec_norm m (int j), r)"
proof -
  note D = mantissa_digits [OF assms(1)]
  have "parse_number ((if m < 0 then js ''-'' else []) @ (nat_str (nat \<bar>m\<bar>) @ replicate j 48) @ r) =
      Some (dec_norm ((if m < 0 then -1 else 1) *
        int (parse_digits ((nat_str (nat \<bar>m\<bar>) @ replicate j 48) @ []))) (0 - int (length ([]::jstring))), r)"
    using D assms(2) ends_number_hd [OF assms(2)]
    by (intro parse_number_literal [where v = r]) (auto simp: is_digit_def parse_frac_none parse_exp_none)
  then show ?thesis
    using D(5) assms(1) dec_norm_shift [of m j 0] by (simp add: parse_digits_append mult.assoc [symmetric])
qed

lemma read_point_layout:
  assumes "m \<noteq> 0" and "ends_number r" and "0 < j" "j < length (nat_str (nat \<bar>m\<bar>))"
  defines "ds \<equiv> nat_str (nat \<bar>m\<bar>)"
  shows "parse_number ((if m < 0 then js ''-'' else []) @ (take j ds @ js ''.'' @ drop j ds) @ r) =
    Some (dec_norm m (int j - int (length ds)), r)"
proof -
  note D = mantissa_digits [OF assms(1), folded ds_def]
  have "parse_number ((if m < 0 then js ''-'' else []) @ take j ds @ 46 # drop j ds @ r) =
      Some (dec_norm ((if m < 0 then -1 else 1) * int (parse_digits (take j ds @ drop j ds)))
        (0 - int (length (drop j ds))), r)"
    using D assms ends_number_hd [OF assms(2)]
    by (intro parse_number_literal [where v = r])
      (auto simp: is_digit_def parse_exp_none hd_take intro!: parse_frac_digits dest: in_set_takeD in_set_dropD)
  then show ?thesis
    using D(5) assms(3,4) by (simp add: js_eval ds_def [symmetric])
qed

lemma read_small_layout:
  assumes "m \<noteq> 0" and "ends_number r"
  defines "ds \<equiv> nat_str (nat \<bar>m\<bar>)"
  shows "parse_number ((if m < 0 then js ''-'' else []) @ (js ''0.'' @ replicate j 48 @ ds) @ r) =
    Some (dec_norm m (- int j - int (length ds)), r)"
proof -
  note D = mantissa_digits [OF assms(1), folded ds_def]
  have "parse_number ((if m < 0 then js ''-'' else []) @ [48] @ 46 # (replicate j 48 @ ds) @ r) =
      Some (dec_norm ((if m < 0 then -1 else 1) * int (parse_digits ([48] @ replicate j 48 @ ds)))
        (0 - int (length (replicate j 48 @ ds))), r)"
    using D assms(2) ends_number_hd [OF assms(2)]
    by (intro parse_number_literal [where v = r])
      (auto simp: is_digit_def parse_exp_none simp del: append_assoc intro!: parse_frac_digits)
  moreover have "parse_digits ([48] @ replicate j 48 @ ds) = parse_digits ds"
    using parse_digits_append [of "replicate (Suc j) 48" ds] parse_digits_zeros [of "Suc j"]
    by (simp del: parse_digits_zeros)
  ultimately show ?thesis
    using D(5) by (simp add: js_eval)
qed

lemma read_exponent_layout:
  assumes "m \<noteq> 0" and "ends_number r"
  defines "ds \<equiv> nat_str (nat \<bar>m\<bar>)"
  shows "parse_number ((if m < 0 then js ''-'' else []) @ (take 1 ds @
      (if int (length ds) = 1 then [] else js ''.'' @ drop 1 ds) @ js ''e'' @
      (if x < 0 then js ''-'' else js ''+'') @ nat_str (nat \<bar>x\<bar>)) @ r) =
    Some (dec_norm m (x + 1 - int (length ds)), r)"
proof -
  note D = mantissa_digits [OF assms(1), folded ds_def]
  obtain a as where ds: "ds = a # as" using D(2) by (cases ds) auto
  let ?e = "101 # (if x < 0 then 45 else 43) # nat_str (nat \<bar>x\<bar>) @ r"
  let ?f = "(if as = [] then [] else 46 # as) @ ?e"
  have f: "parse_frac ?f = Some (as, ?e)"
  proof (cases "as = []")
    case False
    then show ?thesis using parse_frac_digits [of as ?e] D(1) by (simp add: ds is_digit_def)
  qed (simp add: parse_frac_def)
  have "parse_number ((if m < 0 then js ''-'' else []) @ [a] @ ?f) =
      Some (dec_norm ((if m < 0 then -1 else 1) * int (parse_digits ([a] @ as))) (x - int (length as)), r)"
    using D f parse_exp_digits [OF assms(2), of x]
    by (intro parse_number_literal [where v = ?e]) (auto simp: ds is_digit_def)
  moreover have "(if m < 0 then -1 else 1) * int (parse_digits ([a] @ as)) = m" using D(5) ds by simp
  ultimately show ?thesis by (cases "x < 0"; cases "as = []") (simp_all add: js_eval ds)
qed

text \<open>Printing a number and reading it back gives the number.\<close>

lemma parse_number_to_string:
  assumes "dec_normal d" and r: "ends_number r"
  shows "parse_number (number_to_string d @ r) = Some (d, r)"
proof (cases "fst d = 0")
  case True
  then have d: "d = (0, 0)" using assms(1) by (simp add: dec_normal_def prod_eq_iff)
  have "parse_number ((if False then js ''-'' else []) @ [48] @ r) =
      Some (dec_norm ((if False then -1 else 1) * int (parse_digits ([48] @ []))) (0 - int (length ([]::jstring))), r)"
    using ends_number_hd [OF r]
    by (intro parse_number_literal) (auto simp: is_digit_def parse_frac_none parse_exp_none r)
  then show ?thesis by (simp add: d number_to_string_def js_eval parse_digits_def dec_normal_def)
next
  case False
  obtain m e where d: "d = (m, e)" by (cases d)
  have m: "m \<noteq> 0" and norm: "dec_norm m e = (m, e)" using False assms(1) by (auto simp: d)
  define ds where "ds = nat_str (nat \<bar>m\<bar>)"
  define n where "n = int (length ds) + e"
  consider (a) "int (length ds) \<le> n" "n \<le> 21"
    | (b) "\<not> (int (length ds) \<le> n \<and> n \<le> 21)" "0 < n" "n \<le> 21"
    | (c) "\<not> (int (length ds) \<le> n \<and> n \<le> 21)" "\<not> (0 < n \<and> n \<le> 21)" "-6 < n" "n \<le> 0"
    | (s) "\<not> (int (length ds) \<le> n \<and> n \<le> 21)" "\<not> (0 < n \<and> n \<le> 21)" "\<not> (-6 < n \<and> n \<le> 0)"
    by linarith
  then show ?thesis
  proof cases
    case a
    then show ?thesis
      using m norm read_integer_layout [OF m r, of "nat e"]
      by (simp add: number_to_string_def d Let_def ds_def [symmetric] n_def)
  next
    case b
    then show ?thesis
      using m norm read_point_layout [OF m r, of "nat n"]
      by (simp add: number_to_string_def d Let_def ds_def [symmetric] n_def)
  next
    case c
    then show ?thesis
      using m norm read_small_layout [OF m r, of "nat (- n)"]
      by (simp add: number_to_string_def d Let_def ds_def [symmetric] n_def)
  next
    case s
    then show ?thesis
      using m norm read_exponent_layout [OF m r, of "n - 1"]
      by (simp only: number_to_string_def d Let_def ds_def [symmetric] n_def [symmetric] prod.case if_False) (simp add: n_def)
  qed
qed

end
