(* ===== verification/JSON.thy ===== *)
theory JSON
  imports JS_Number
begin

text \<open>
  \<open>JSON.parse\<close> and \<open>JSON.stringify\<close>. A value is a \<open>jsval\<close>; an object is the list of its
  properties in the order JavaScript enumerates them (array indices first, ascending,
  then the other keys as they were added). The parser is the grammar of JSON by recursive
  descent; \<open>json_fuel\<close> shows that its fuel, twice the length of the text and one,
  is enough, so running out of it never decides a result.
\<close>

section \<open>Values\<close>

datatype jsval =
    JNull
  | JBool bool
  | JNum decimal
  | JStr jstring
  | JArr "jsval list"
  | JObj "(jstring \<times> jsval) list"

subsection \<open>Properties of an object\<close>

definition is_array_index :: "jstring \<Rightarrow> bool" where
  "is_array_index k \<longleftrightarrow> k \<noteq> [] \<and> list_all is_digit k \<and> (hd k \<noteq> 48 \<or> length k = 1) \<and>
     parse_digits k < 4294967295"

fun obj_insert :: "jstring \<Rightarrow> 'v \<Rightarrow> (jstring \<times> 'v) list \<Rightarrow> (jstring \<times> 'v) list" where
  "obj_insert k v [] = [(k, v)]"
| "obj_insert k v ((k', v') # m) =
     (if is_array_index k \<and> (\<not> is_array_index k' \<or> parse_digits k < parse_digits k')
      then (k, v) # (k', v') # m
      else (k', v') # obj_insert k v m)"

text \<open>The assignment \<open>o[k] = v\<close>.\<close>

definition obj_set :: "(jstring \<times> 'v) list \<Rightarrow> jstring \<Rightarrow> 'v \<Rightarrow> (jstring \<times> 'v) list" where
  "obj_set m k v = (if k \<in> fst ` set m then AList.update k v m else obj_insert k v m)"

definition obj_of :: "(jstring \<times> 'v) list \<Rightarrow> (jstring \<times> 'v) list" where
  "obj_of = foldl (\<lambda>m (k, v). obj_set m k v) []"

text \<open>
  Reading a value the way the code does. \<open>None\<close> is \<open>undefined\<close>. \<open>member v k\<close> is \<open>v?.k\<close>
  and \<open>index0 v\<close> is \<open>v?.[0]\<close>; the keys read are no methods of strings or arrays.
\<close>

fun member :: "jsval option \<Rightarrow> jstring \<Rightarrow> jsval option" where
  "member (Some (JObj m)) k = map_of m k"
| "member _ _ = None"

fun index0 :: "jsval option \<Rightarrow> jsval option" where
  "index0 (Some (JArr (x # xs))) = Some x"
| "index0 (Some (JStr (c # s))) = Some (JStr [c])"
| "index0 (Some (JObj m)) = map_of m (js ''0'')"
| "index0 _ = None"

fun truthy :: "jsval \<Rightarrow> bool" where
  "truthy JNull = False"
| "truthy (JBool b) = b"
| "truthy (JNum d) = (fst d \<noteq> 0)"
| "truthy (JStr s) = (s \<noteq> [])"
| "truthy (JArr xs) = True"
| "truthy (JObj m) = True"

text \<open>A chain of \<open>||\<close>: the first operand that is truthy, if any.\<close>

fun first_truthy :: "jsval option list \<Rightarrow> jsval option" where
  "first_truthy [] = None"
| "first_truthy (None # vs) = first_truthy vs"
| "first_truthy (Some v # vs) = (if truthy v then Some v else first_truthy vs)"

text \<open>The conversion to a string of \<open>+\<close> and of template literals.\<close>

fun to_string :: "jsval \<Rightarrow> jstring" where
  "to_string JNull = js ''null''"
| "to_string (JBool b) = (if b then js ''true'' else js ''false'')"
| "to_string (JNum d) = number_to_string d"
| "to_string (JStr s) = s"
| "to_string (JArr xs) = join (js '','') (map (\<lambda>v. if v = JNull then [] else to_string v) xs)"
| "to_string (JObj m) = js ''[object Object]''"

datatype js_error = TypeError | SyntaxError

section \<open>Parsing\<close>

definition json_ws :: "code_unit \<Rightarrow> bool" where
  "json_ws c \<longleftrightarrow> c \<in> {32, 9, 10, 13}"

abbreviation skip_ws :: "jstring \<Rightarrow> jstring" where
  "skip_ws \<equiv> dropWhile json_ws"

definition hex_digit :: "code_unit \<Rightarrow> nat option" where
  "hex_digit c =
     (if 48 \<le> c \<and> c \<le> 57 then Some (c - 48)
      else if 97 \<le> c \<and> c \<le> 102 then Some (c - 87)
      else if 65 \<le> c \<and> c \<le> 70 then Some (c - 55)
      else None)"

fun hex4 :: "jstring \<Rightarrow> (code_unit \<times> jstring) option" where
  "hex4 (a # b # c # d # s) =
     (case (hex_digit a, hex_digit b, hex_digit c, hex_digit d) of
        (Some x, Some y, Some z, Some w) \<Rightarrow> Some (((x * 16 + y) * 16 + z) * 16 + w, s)
      | _ \<Rightarrow> None)"
| "hex4 _ = None"

definition simple_escape :: "code_unit \<Rightarrow> code_unit option" where
  "simple_escape c =
     map_of [(34, 34), (92, 92), (47, 47), (98, 8), (102, 12), (110, 10), (114, 13), (116, 9)] c"

lemma hex4_length: "hex4 s = Some (u, t) \<Longrightarrow> length t < length s"
  by (induction s rule: hex4.induct) (auto split: option.splits)

text \<open>The rest of a string literal, after its opening quote.\<close>

function str_body :: "jstring \<Rightarrow> (jstring \<times> jstring) option" where
  "str_body [] = None"
| "str_body (c # s) =
     (if c = 34 then Some ([], s)
      else if c < 32 then None
      else if c \<noteq> 92 then map_option (\<lambda>(r, t). (c # r, t)) (str_body s)
      else
        case s of
          [] \<Rightarrow> None
        | e # s1 \<Rightarrow>
            if e = 117 then
              (case hex4 s1 of
                 None \<Rightarrow> None
               | Some (u, s2) \<Rightarrow> map_option (\<lambda>(r, t). (u # r, t)) (str_body s2))
            else
              (case simple_escape e of
                 None \<Rightarrow> None
               | Some u \<Rightarrow> map_option (\<lambda>(r, t). (u # r, t)) (str_body s1)))"
  by pat_completeness auto
termination by (relation "measure length") (auto dest: hex4_length)

declare str_body.simps(2) [simp del]

definition strip_prefix :: "jstring \<Rightarrow> jstring \<Rightarrow> jstring option" where
  "strip_prefix p s = (if prefix p s then Some (drop (length p) s) else None)"

text \<open>The literals \<open>null\<close>, \<open>true\<close> and \<open>false\<close>, and numbers.\<close>

definition parse_scalar :: "jstring \<Rightarrow> (jsval \<times> jstring) option" where
  "parse_scalar s =
     (case strip_prefix (js ''null'') s of Some t \<Rightarrow> Some (JNull, t)
      | None \<Rightarrow>
     (case strip_prefix (js ''true'') s of Some t \<Rightarrow> Some (JBool True, t)
      | None \<Rightarrow>
     (case strip_prefix (js ''false'') s of Some t \<Rightarrow> Some (JBool False, t)
      | None \<Rightarrow> map_option (\<lambda>(d, t). (JNum d, t)) (parse_number s))))"

fun parse_value :: "nat \<Rightarrow> jstring \<Rightarrow> (jsval \<times> jstring) option"
  and parse_elements :: "nat \<Rightarrow> jstring \<Rightarrow> (jsval list \<times> jstring) option"
  and parse_members :: "nat \<Rightarrow> jstring \<Rightarrow> ((jstring \<times> jsval) list \<times> jstring) option"
where
  "parse_value 0 s = None"
| "parse_value (Suc n) s =
     (case skip_ws s of
        [] \<Rightarrow> None
      | c # r \<Rightarrow>
          if c = 34 then map_option (\<lambda>(x, t). (JStr x, t)) (str_body r)
          else if c = 91 then
            (case skip_ws r of
               [] \<Rightarrow> None
             | d # t \<Rightarrow> if d = 93 then Some (JArr [], t)
                        else map_option (\<lambda>(xs, u). (JArr xs, u)) (parse_elements n (d # t)))
          else if c = 123 then
            (case skip_ws r of
               [] \<Rightarrow> None
             | d # t \<Rightarrow> if d = 125 then Some (JObj [], t)
                        else map_option (\<lambda>(ps, u). (JObj (obj_of ps), u)) (parse_members n (d # t)))
          else parse_scalar (c # r))"
| "parse_elements 0 s = None"
| "parse_elements (Suc n) s =
     (case parse_value n s of
        None \<Rightarrow> None
      | Some (v, t) \<Rightarrow>
          (case skip_ws t of
             [] \<Rightarrow> None
           | d # u \<Rightarrow>
               if d = 93 then Some ([v], u)
               else if d = 44 then map_option (\<lambda>(xs, w). (v # xs, w)) (parse_elements n u)
               else None))"
| "parse_members 0 s = None"
| "parse_members (Suc n) s =
     (case skip_ws s of
        [] \<Rightarrow> None
      | c # r \<Rightarrow>
          if c \<noteq> 34 then None
          else
            case str_body r of
              None \<Rightarrow> None
            | Some (k, t) \<Rightarrow>
                (case skip_ws t of
                   [] \<Rightarrow> None
                 | d # t' \<Rightarrow>
                     if d \<noteq> 58 then None
                     else
                       case parse_value n t' of
                         None \<Rightarrow> None
                       | Some (v, u) \<Rightarrow>
                           (case skip_ws u of
                              [] \<Rightarrow> None
                            | d' # u' \<Rightarrow>
                                if d' = 125 then Some ([(k, v)], u')
                                else if d' = 44 then map_option (\<lambda>(ps, w). ((k, v) # ps, w)) (parse_members n u')
                                else None)))"

text \<open>\<open>None\<close> is the \<open>SyntaxError\<close>.\<close>

definition JSON_parse :: "jstring \<Rightarrow> jsval option" where
  "JSON_parse s =
     (case parse_value (2 * length s + 1) s of
        None \<Rightarrow> None
      | Some (v, t) \<Rightarrow> if skip_ws t = [] then Some v else None)"

section \<open>Printing\<close>

definition hex_char :: "nat \<Rightarrow> code_unit" where
  "hex_char n = (if n < 10 then 48 + n else 87 + n)"

definition u_escape :: "code_unit \<Rightarrow> jstring" where
  "u_escape c = [92, 117, hex_char (c div 4096 mod 16), hex_char (c div 256 mod 16),
     hex_char (c div 16 mod 16), hex_char (c mod 16)]"

definition quote_unit :: "code_unit \<Rightarrow> jstring" where
  "quote_unit c =
     (case map_of [(8, 98), (9, 116), (10, 110), (12, 102), (13, 114), (34, 34), (92, 92)] c of
        Some e \<Rightarrow> [92, e]
      | None \<Rightarrow> if c < 32 then u_escape c else [c])"

definition leading :: "code_unit \<Rightarrow> bool" where
  "leading c \<longleftrightarrow> 55296 \<le> c \<and> c \<le> 56319"

definition trailing :: "code_unit \<Rightarrow> bool" where
  "trailing c \<longleftrightarrow> 56320 \<le> c \<and> c \<le> 57343"

text \<open>A surrogate that is not part of a pair is escaped.\<close>

fun quote_body :: "jstring \<Rightarrow> jstring" where
  "quote_body [] = []"
| "quote_body [c] = (if leading c \<or> trailing c then u_escape c else quote_unit c)"
| "quote_body (c # d # s) =
     (if leading c \<and> trailing d then c # d # quote_body s
      else (if leading c \<or> trailing c then u_escape c else quote_unit c) @ quote_body (d # s))"

definition quote :: "jstring \<Rightarrow> jstring" where
  "quote s = 34 # quote_body s @ [34]"

text \<open>\<open>JSON.stringify(v, null, gap)\<close> at the indentation \<open>ind\<close>.\<close>

definition wrap_items :: "jstring \<Rightarrow> jstring \<Rightarrow> code_unit \<Rightarrow> code_unit \<Rightarrow> jstring list \<Rightarrow> jstring" where
  "wrap_items gap ind l r items =
     (if items = [] then [l, r]
      else if gap = [] then l # join [44] items @ [r]
      else l # (10 # ind @ gap) @ join (44 # 10 # ind @ gap) items @ 10 # ind @ [r])"

fun stringify_at :: "jstring \<Rightarrow> jstring \<Rightarrow> jsval \<Rightarrow> jstring" where
  "stringify_at gap ind JNull = js ''null''"
| "stringify_at gap ind (JBool b) = (if b then js ''true'' else js ''false'')"
| "stringify_at gap ind (JNum d) = number_to_string d"
| "stringify_at gap ind (JStr s) = quote s"
| "stringify_at gap ind (JArr xs) = wrap_items gap ind 91 93 (map (stringify_at gap (ind @ gap)) xs)"
| "stringify_at gap ind (JObj m) =
     wrap_items gap ind 123 125
       (map (\<lambda>(k, v). quote k @ 58 # (if gap = [] then [] else [32]) @ stringify_at gap (ind @ gap) v) m)"

definition JSON_stringify :: "jsval \<Rightarrow> jstring" where
  "JSON_stringify = stringify_at [] []"

definition JSON_pretty :: "jsval \<Rightarrow> jstring" where
  "JSON_pretty = stringify_at [32, 32] []"

text \<open>The values \<open>JSON.parse\<close> yields.\<close>

fun json_ok :: "jsval \<Rightarrow> bool" where
  "json_ok (JNum d) = dec_normal d"
| "json_ok (JArr xs) = list_all json_ok xs"
| "json_ok (JObj m) = (obj_of m = m \<and> list_all (\<lambda>(k, v). json_ok v) m)"
| "json_ok _ = True"

section \<open>The fuel is enough\<close>

lemma skip_ws_length: "skip_ws s = c # r \<Longrightarrow> length r < length s"
  using length_dropWhile_le [of json_ws s] by simp

lemma str_body_length: "str_body s = Some (x, t) \<Longrightarrow> length t < length s"
proof (induction s arbitrary: x t rule: str_body.induct)
  case (2 c s)
  then show ?case
    by (fastforce simp: str_body.simps(2) [of c s] split: if_splits list.splits option.splits dest: hex4_length)
qed simp

lemma span_digits_length: "span_digits s = (ds, t) \<Longrightarrow> length t = length s - length ds \<and> length ds \<le> length s"
  by (metis add_diff_cancel_left' fst_conv le_add1 length_append snd_conv span_digits_def takeWhile_dropWhile_id)

lemma parse_frac_length: "parse_frac s = Some (ds, t) \<Longrightarrow> length t \<le> length s"
  by (fastforce simp: parse_frac_def split: list.splits if_splits prod.splits dest: span_digits_length)

lemma parse_exp_length: "parse_exp s = Some (x, t) \<Longrightarrow> length t \<le> length s"
  by (fastforce simp: parse_exp_def split: list.splits if_splits prod.splits dest: span_digits_length)

lemma parse_number_length:
  assumes "parse_number s = Some (d, t)"
  shows "length t < length s"
proof -
  obtain sg u where u: "(case s of c # r \<Rightarrow> if c = 45 then (-1, r) else (1, s) | [] \<Rightarrow> (1::int, s)) = (sg, u)"
    by fastforce
  obtain ds v where v: "span_digits u = (ds, v)" by fastforce
  have ds: "ds \<noteq> []" using assms by (auto simp: parse_number_def u v)
  obtain fs w where f: "parse_frac v = Some (fs, w)"
    using assms by (auto simp: parse_number_def u v split: if_splits option.splits)
  obtain x where x: "parse_exp w = Some (x, t)"
    using assms by (auto simp: parse_number_def u v f split: if_splits option.splits)
  have "length u \<le> length s" using u by (auto split: list.splits if_splits)
  moreover have "length v < length u"
    using span_digits_length [OF v] ds by (cases ds) auto
  ultimately show ?thesis using parse_frac_length [OF f] parse_exp_length [OF x] by linarith
qed

lemma parse_scalar_length: "parse_scalar s = Some (v, t) \<Longrightarrow> length t < length s"
  by (auto simp: parse_scalar_def strip_prefix_def split: option.splits if_splits dest!: parse_number_length
      dest: prefix_length_le)

lemma parse_length:
  "(\<forall>s v t. parse_value n s = Some (v, t) \<longrightarrow> length t < length s) \<and>
   (\<forall>s xs t. parse_elements n s = Some (xs, t) \<longrightarrow> length t < length s) \<and>
   (\<forall>s ps t. parse_members n s = Some (ps, t) \<longrightarrow> length t < length s)"
proof (induction n)
  case (Suc n)
  then have V: "\<And>s v t. parse_value n s = Some (v, t) \<Longrightarrow> length t < length s"
    and E: "\<And>s xs t. parse_elements n s = Some (xs, t) \<Longrightarrow> length t < length s"
    and M: "\<And>s ps t. parse_members n s = Some (ps, t) \<Longrightarrow> length t < length s" by blast+
  note L = skip_ws_length str_body_length parse_scalar_length V E M
  have "length t < length s" if "parse_value (Suc n) s = Some (v, t)" for s v t
    using that by (auto split: list.splits if_splits dest!: L)
  moreover have "length t < length s" if "parse_elements (Suc n) s = Some (xs, t)" for s xs t
    using that by (auto split: list.splits if_splits option.splits dest!: L)
  moreover have "length t < length s" if "parse_members (Suc n) s = Some (ps, t)" for s ps t
    using that by (auto split: list.splits if_splits option.splits dest!: L)
  ultimately show ?case by blast
qed simp

lemmas parse_value_length = parse_length [THEN conjunct1, rule_format]
lemmas parse_elements_length = parse_length [THEN conjunct2, THEN conjunct1, rule_format]
lemmas parse_members_length = parse_length [THEN conjunct2, THEN conjunct2, rule_format]

lemma parse_value_fuel_step:
  assumes "\<And>u. length u < length s \<Longrightarrow> parse_elements (Suc n) u = parse_elements n u"
    and "\<And>u. length u < length s \<Longrightarrow> parse_members (Suc n) u = parse_members n u"
  shows "parse_value (Suc (Suc n)) s = parse_value (Suc n) s"
proof (cases "skip_ws s")
  case (Cons c r)
  then have "length (skip_ws r) < length s"
    using skip_ws_length [OF Cons] length_dropWhile_le [of json_ws r] by linarith
  then have *: "parse_elements (Suc n) (skip_ws r) = parse_elements n (skip_ws r)"
    "parse_members (Suc n) (skip_ws r) = parse_members n (skip_ws r)" using assms by blast+
  show ?thesis
  proof (cases "skip_ws r")
    case Nil
    then show ?thesis by (simp only: parse_value.simps Cons list.case)
  next
    case (Cons d u)
    show ?thesis using *
      unfolding Cons by (simp only: parse_value.simps \<open>skip_ws s = c # r\<close> list.case Cons)
  qed
qed (simp only: parse_value.simps list.case)

lemma parse_elements_fuel_step:
  assumes "parse_value (Suc n) s = parse_value n s"
    and "\<And>u. length u < length s \<Longrightarrow> parse_elements (Suc n) u = parse_elements n u"
  shows "parse_elements (Suc (Suc n)) s = parse_elements (Suc n) s"
proof (cases "parse_value n s")
  case None
  then show ?thesis using assms(1) by (simp only: parse_elements.simps option.case)
next
  case (Some vt)
  then obtain v t where vt: "parse_value n s = Some (v, t)" by (cases vt) auto
  show ?thesis
  proof (cases "skip_ws t")
    case Nil
    then show ?thesis using assms(1) vt by (simp only: parse_elements.simps option.case prod.case list.case)
  next
    case (Cons d u)
    have "length u < length s" using skip_ws_length [OF Cons] parse_value_length [OF vt] by linarith
    then show ?thesis
      using assms vt Cons by (simp only: parse_elements.simps option.case prod.case list.case)
  qed
qed

lemma parse_members_fuel_step:
  assumes V: "\<And>u. length u < length s \<Longrightarrow> parse_value (Suc n) u = parse_value n u"
    and M: "\<And>u. length u < length s \<Longrightarrow> parse_members (Suc n) u = parse_members n u"
  shows "parse_members (Suc (Suc n)) s = parse_members (Suc n) s"
proof (cases "skip_ws s")
  case (Cons c r)
  note 1 = this
  note U = parse_members.simps(2) [of "Suc n" s] parse_members.simps(2) [of n s] list.case option.case prod.case
  show ?thesis
  proof (cases "str_body r")
    case (Some kt)
    then obtain k t where 2: "str_body r = Some (k, t)" by (cases kt) auto
    show ?thesis
    proof (cases "skip_ws t")
      case (Cons d t')
      note 3 = this
      have l: "length t' < length s"
        using skip_ws_length [OF 1] str_body_length [OF 2] skip_ws_length [OF 3] by linarith
      show ?thesis
      proof (cases "parse_value n t'")
        case (Some vu)
        then obtain v u where 4: "parse_value n t' = Some (v, u)" by (cases vu) auto
        show ?thesis
        proof (cases "skip_ws u")
          case (Cons e u')
          have "length u' < length s"
            using l parse_value_length [OF 4] skip_ws_length [OF Cons] by linarith
          then show ?thesis unfolding U 1 2 3 V [OF l] 4 Cons using M by presburger
        qed (simp only: U 1 2 3 V [OF l] 4)
      qed (simp only: U 1 2 3 V [OF l])
    qed (simp only: U 1 2)
  qed (simp only: U 1)
qed (simp only: parse_members.simps(2) [of "Suc n" s] parse_members.simps(2) [of n s] list.case)

lemma parse_fuel_Suc:
  "(\<forall>s. 2 * length s + 1 \<le> n \<longrightarrow> parse_value (Suc n) s = parse_value n s) \<and>
   (\<forall>s. 2 * length s + 2 \<le> n \<longrightarrow> parse_elements (Suc n) s = parse_elements n s) \<and>
   (\<forall>s. 2 * length s + 2 \<le> n \<longrightarrow> parse_members (Suc n) s = parse_members n s)"
proof (induction n)
  case (Suc n)
  then have V: "\<And>s. 2 * length s + 1 \<le> n \<Longrightarrow> parse_value (Suc n) s = parse_value n s"
    and E: "\<And>s. 2 * length s + 2 \<le> n \<Longrightarrow> parse_elements (Suc n) s = parse_elements n s"
    and M: "\<And>s. 2 * length s + 2 \<le> n \<Longrightarrow> parse_members (Suc n) s = parse_members n s" by blast+
  show ?case
    by (intro conjI allI impI parse_value_fuel_step parse_elements_fuel_step parse_members_fuel_step V E M; linarith)
qed simp

text \<open>More fuel than \<open>JSON_parse\<close> gives changes nothing.\<close>

lemma json_fuel: "2 * length s + 1 \<le> n \<Longrightarrow> parse_value n s = parse_value (2 * length s + 1) s"
  by (induction n rule: dec_induct) (simp_all only: parse_fuel_Suc [THEN conjunct1, rule_format])

section \<open>Reading back what was printed\<close>

subsection \<open>Strings\<close>

lemma hex_digit_char: "n < 16 \<Longrightarrow> hex_digit (hex_char n) = Some n"
  by (auto simp: hex_digit_def hex_char_def)

lemma hex4_u_escape:
  assumes "c < 65536"
  shows "hex4 (drop 2 (u_escape c) @ t) = Some (c, t)"
proof -
  have d: "c div 16 div 16 = c div 256" "c div 256 div 16 = c div 4096" "c div 4096 mod 16 = c div 4096"
    using assms by (simp_all add: div_mult2_eq [symmetric])
  have v: "((c div 4096 mod 16 * 16 + c div 256 mod 16) * 16 + c div 16 mod 16) * 16 + c mod 16 = c"
    using div_mult_mod_eq [of c 16] div_mult_mod_eq [of "c div 16" 16] div_mult_mod_eq [of "c div 256" 16]
    by (simp only: d)
  have "hex4 (drop 2 (u_escape c) @ t) =
      Some (((c div 4096 mod 16 * 16 + c div 256 mod 16) * 16 + c div 16 mod 16) * 16 + c mod 16, t)"
    by (simp add: u_escape_def hex_digit_char)
  then show ?thesis by (simp only: v)
qed

lemma str_body_u_escape:
  assumes "c < 65536"
  shows "str_body (u_escape c @ t) = map_option (\<lambda>(r, u). (c # r, u)) (str_body t)"
  using hex4_u_escape [OF assms, of t] by (simp add: u_escape_def str_body.simps(2))

lemma str_body_quote_unit:
  "str_body (quote_unit c @ t) = map_option (\<lambda>(r, u). (c # r, u)) (str_body t)"
  by (auto simp: quote_unit_def str_body.simps(2) simple_escape_def str_body_u_escape split: option.split)

lemma str_body_plain:
  "leading c \<or> trailing c \<Longrightarrow> str_body (c # t) = map_option (\<lambda>(r, u). (c # r, u)) (str_body t)"
  by (auto simp: leading_def trailing_def str_body.simps(2))

lemma str_body_quote_body: "str_body (quote_body s @ 34 # t) = Some (s, t)"
proof (induction s rule: quote_body.induct)
  case 1
  then show ?case by (simp add: str_body.simps(2))
next
  case (2 c)
  then show ?case
    by (auto simp: str_body_u_escape str_body_quote_unit leading_def trailing_def str_body.simps(2) [of 34])
next
  case (3 c d s)
  then show ?case
    by (auto simp: str_body_u_escape str_body_quote_unit str_body_plain leading_def trailing_def)
qed

subsection \<open>Values\<close>

abbreviation blank :: "jstring \<Rightarrow> bool" where
  "blank w \<equiv> list_all json_ws w"

lemma skip_blank [simp]: "blank w \<Longrightarrow> skip_ws (w @ s) = skip_ws s"
  by (induction w) auto

text \<open>\<open>p\<close> reads what \<open>f\<close> printed for \<open>x\<close>, with enough fuel, wherever it stands.\<close>

definition reads_back :: "(nat \<Rightarrow> jstring \<Rightarrow> ('a \<times> jstring) option) \<Rightarrow> 'a \<Rightarrow> jstring \<Rightarrow> bool" where
  "reads_back p x text \<longleftrightarrow>
     (\<exists>n0. \<forall>n\<ge>n0. \<forall>w r. blank w \<longrightarrow> ends_number r \<longrightarrow> p n (w @ text @ r) = Some (x, r))"

lemma reads_backI:
  assumes "\<And>n w r. n \<ge> n0 \<Longrightarrow> blank w \<Longrightarrow> ends_number r \<Longrightarrow> p (Suc n) (w @ text @ r) = Some (x, r)"
  shows "reads_back p x text"
  unfolding reads_back_def
proof (intro exI [of _ "Suc n0"] allI impI)
  fix n w r assume "Suc n0 \<le> n" "blank w" "ends_number r"
  then show "p n (w @ text @ r) = Some (x, r)" using assms by (cases n) auto
qed

lemma reads_backE:
  assumes "reads_back p x text"
  obtains n0 where "\<And>n w r. n \<ge> n0 \<Longrightarrow> blank w \<Longrightarrow> ends_number r \<Longrightarrow> p n (w @ text @ r) = Some (x, r)"
  using assms unfolding reads_back_def by blast

lemma blank_ends [simp]: "blank w \<Longrightarrow> c \<in> {44, 93, 125} \<Longrightarrow> ends_number (w @ c # r)"
  by (cases w) (auto simp: ends_number_def is_digit_def json_ws_def)

lemma not_json_ws [simp]:
  "\<not> json_ws 44" "\<not> json_ws 93" "\<not> json_ws 125" "\<not> json_ws 34" "\<not> json_ws 58" "\<not> json_ws 91" "\<not> json_ws 123"
  by (simp_all add: json_ws_def)

lemma reads_elements:
  assumes "xs \<noteq> []" and "\<forall>x \<in> set xs. reads_back parse_value x (f x)" and "blank w1" "blank w2"
  shows "\<exists>n0. \<forall>n\<ge>n0. \<forall>w r. blank w \<longrightarrow>
    parse_elements n (w @ join (44 # w1) (map f xs) @ w2 @ 93 # r) = Some (xs, r)"
  using assms(1,2)
proof (induction xs rule: induct_list012)
  case (2 x)
  then have "reads_back parse_value x (f x)" by simp
  then obtain n0 where n0: "\<And>n w r. n \<ge> n0 \<Longrightarrow> blank w \<Longrightarrow> ends_number r \<Longrightarrow>
      parse_value n (w @ f x @ r) = Some (x, r)" by (rule reads_backE) blast
  show ?case
  proof (intro exI [of _ "Suc n0"] allI impI)
    fix n w r assume "Suc n0 \<le> n" "blank w"
    then show "parse_elements n (w @ join (44 # w1) (map f [x]) @ w2 @ 93 # r) = Some ([x], r)"
      using n0 [of "n - 1" w "w2 @ 93 # r"] assms(4) by (cases n) auto
  qed
next
  case (3 x y xs)
  then have "reads_back parse_value x (f x)" by simp
  then obtain n0 where n0: "\<And>n w r. n \<ge> n0 \<Longrightarrow> blank w \<Longrightarrow> ends_number r \<Longrightarrow>
      parse_value n (w @ f x @ r) = Some (x, r)" by (rule reads_backE) blast
  obtain n1 where n1: "\<And>n w r. n \<ge> n1 \<Longrightarrow> blank w \<Longrightarrow>
      parse_elements n (w @ join (44 # w1) (map f (y # xs)) @ w2 @ 93 # r) = Some (y # xs, r)"
    using "3.IH"(2) "3.prems" by auto
  show ?case
  proof (intro exI [of _ "Suc (max n0 n1)"] allI impI)
    fix n w r assume n: "Suc (max n0 n1) \<le> n" "blank w"
    then show "parse_elements n (w @ join (44 # w1) (map f (x # y # xs)) @ w2 @ 93 # r) = Some (x # y # xs, r)"
      using n0 [of "n - 1" w "44 # w1 @ join (44 # w1) (map f (y # xs)) @ w2 @ 93 # r"]
        n1 [of "n - 1" w1 r] assms(3) blank_ends [of "[]" 44]
      by (cases n) auto
  qed
qed simp

lemma parse_member_key:
  assumes "blank w"
  shows "parse_members (Suc n) (w @ quote k @ 58 # t) =
    (case parse_value n t of
       None \<Rightarrow> None
     | Some (v, u) \<Rightarrow>
         (case skip_ws u of
            [] \<Rightarrow> None
          | d' # u' \<Rightarrow>
              if d' = 125 then Some ([(k, v)], u')
              else if d' = 44 then map_option (\<lambda>(ps, w). ((k, v) # ps, w)) (parse_members n u')
              else None))"
  using assms str_body_quote_body [of k "58 # t"] by (simp add: quote_def)

lemma reads_members:
  assumes "m \<noteq> []" and "\<forall>(k, v) \<in> set m. reads_back parse_value v (f v)" and "blank w1" "blank w2" "blank w3"
  shows "\<exists>n0. \<forall>n\<ge>n0. \<forall>w r. blank w \<longrightarrow>
    parse_members n (w @ join (44 # w1) (map (\<lambda>(k, v). quote k @ 58 # w3 @ f v) m) @ w2 @ 125 # r) = Some (m, r)"
  using assms(1,2)
proof (induction m rule: induct_list012)
  case (2 kv)
  obtain k v where kv: "kv = (k, v)" by (cases kv)
  with 2 have "reads_back parse_value v (f v)" by simp
  then obtain n0 where n0: "\<And>n w r. n \<ge> n0 \<Longrightarrow> blank w \<Longrightarrow> ends_number r \<Longrightarrow>
      parse_value n (w @ f v @ r) = Some (v, r)" by (rule reads_backE) blast
  show ?case
  proof (intro exI [of _ "Suc n0"] allI impI)
    fix n w r assume n: "Suc n0 \<le> n" "blank w"
    then obtain n' where n': "n = Suc n'" by (cases n) auto
    show "parse_members n (w @ join (44 # w1) (map (\<lambda>(k, v). quote k @ 58 # w3 @ f v) [kv]) @ w2 @ 125 # r) = Some ([kv], r)"
      using n n' n0 [of n' w3 "w2 @ 125 # r"] assms(4,5)
      by (simp add: kv parse_member_key del: parse_members.simps)
  qed
next
  case (3 kv y m)
  obtain k v where kv: "kv = (k, v)" by (cases kv)
  with 3 have "reads_back parse_value v (f v)" by simp
  then obtain n0 where n0: "\<And>n w r. n \<ge> n0 \<Longrightarrow> blank w \<Longrightarrow> ends_number r \<Longrightarrow>
      parse_value n (w @ f v @ r) = Some (v, r)" by (rule reads_backE) blast
  let ?rest = "join (44 # w1) (map (\<lambda>(k, v). quote k @ 58 # w3 @ f v) (y # m)) @ w2"
  obtain n1 where n1: "\<And>n w r. n \<ge> n1 \<Longrightarrow> blank w \<Longrightarrow>
      parse_members n (w @ ?rest @ 125 # r) = Some (y # m, r)"
    using "3.IH"(2) "3.prems" by auto
  show ?case
  proof (intro exI [of _ "Suc (max n0 n1)"] allI impI)
    fix n w r assume n: "Suc (max n0 n1) \<le> n" "blank w"
    then obtain n' where n': "n = Suc n'" by (cases n) auto
    have "parse_members n (w @ quote k @ 58 # w3 @ f v @ 44 # w1 @ ?rest @ 125 # r) = Some (kv # y # m, r)"
      using n n' n0 [of n' w3 "44 # w1 @ ?rest @ 125 # r"] n1 [of n' w1 r] assms(3,5) blank_ends [of "[]" 44]
      by (simp add: kv parse_member_key del: parse_members.simps)
    then show "parse_members n (w @ join (44 # w1) (map (\<lambda>(k, v). quote k @ 58 # w3 @ f v) (kv # y # m)) @ w2 @ 125 # r) = Some (kv # y # m, r)"
      by (simp add: kv del: parse_members.simps)
  qed
qed simp

lemma parse_number_hd: "parse_number s = Some x \<Longrightarrow> s \<noteq> [] \<and> (hd s = 45 \<or> is_digit (hd s))"
  by (cases s) (auto simp: parse_number_def span_digits_def split: if_splits)

text \<open>The first code unit of a printed value neither is blank nor closes anything.\<close>

definition value_start :: "jstring \<Rightarrow> bool" where
  "value_start s \<longleftrightarrow> s \<noteq> [] \<and> \<not> json_ws (hd s) \<and> hd s \<noteq> 93 \<and> hd s \<noteq> 125"

lemma number_start:
  assumes "dec_normal d"
  obtains c s where "number_to_string d = c # s" "c = 45 \<or> is_digit c"
  using parse_number_to_string [OF assms, of "[]"] parse_number_hd by (cases "number_to_string d") fastforce+

lemma value_start_stringify: "json_ok v \<Longrightarrow> value_start (stringify_at gap ind v)"
  by (cases v) (auto simp: value_start_def js_eval quote_def wrap_items_def json_ws_def is_digit_def elim: number_start)

lemma reads_number:
  assumes "dec_normal d"
  shows "reads_back parse_value (JNum d) (number_to_string d)"
proof (rule reads_backI)
  fix n w r assume w: "blank w" "ends_number r"
  obtain c s where c: "number_to_string d = c # s" "c = 45 \<or> is_digit c" by (rule number_start [OF assms])
  then have "parse_scalar (c # s @ r) = Some (JNum d, r)"
    using parse_number_to_string [OF assms w(2)]
    by (auto simp: parse_scalar_def strip_prefix_def js_eval is_digit_def)
  then show "parse_value (Suc n) (w @ number_to_string d @ r) = Some (JNum d, r)"
    using w c by (auto simp: json_ws_def is_digit_def)
qed

lemma reads_literal:
  "reads_back parse_value JNull (js ''null'')"
  "reads_back parse_value (JBool True) (js ''true'')"
  "reads_back parse_value (JBool False) (js ''false'')"
  "reads_back parse_value (JStr s) (quote s)"
  by (rule reads_backI [of 0]; simp add: js_eval json_ws_def parse_scalar_def strip_prefix_def quote_def
      str_body_quote_body)+

lemma wrap_items_alt:
  "items \<noteq> [] \<Longrightarrow> wrap_items gap ind l r items =
     l # (if gap = [] then [] else 10 # ind @ gap) @
       join (44 # (if gap = [] then [] else 10 # ind @ gap)) items @ (if gap = [] then [] else 10 # ind) @ [r]"
  by (simp add: wrap_items_def)

lemma skip_to_value: "blank w \<Longrightarrow> value_start s \<Longrightarrow> skip_ws (w @ s @ r) = hd s # tl s @ r"
  by (cases s) (auto simp: value_start_def)

lemma join_start: "xs \<noteq> [] \<Longrightarrow> value_start (hd xs) \<Longrightarrow> value_start (join sep xs)"
  by (cases xs; cases "tl xs") (auto simp: value_start_def hd_append)

lemma reads_array:
  assumes "\<forall>x \<in> set xs. reads_back parse_value x (f x) \<and> value_start (f x)" "blank gap" "blank ind"
  shows "reads_back parse_value (JArr xs) (wrap_items gap ind 91 93 (map f xs))"
proof (cases "xs = []")
  case True
  then show ?thesis
    by (auto intro!: reads_backI [of 0] simp: wrap_items_def)
next
  case False
  let ?w1 = "if gap = [] then [] else 10 # ind @ gap"
  let ?w2 = "if gap = [] then [] else 10 # ind"
  have w: "blank ?w1" "blank ?w2" using assms by (auto simp: json_ws_def)
  obtain n0 where n0: "\<And>n w r. n \<ge> n0 \<Longrightarrow> blank w \<Longrightarrow>
      parse_elements n (w @ join (44 # ?w1) (map f xs) @ ?w2 @ 93 # r) = Some (xs, r)"
    using reads_elements [OF False _ w, of f] assms(1) by blast
  have s: "value_start (join (44 # ?w1) (map f xs))"
    using False assms(1) by (intro join_start) (auto simp: hd_map)
  show ?thesis
  proof (rule reads_backI [of n0])
    fix n w r assume n: "n0 \<le> n" "blank w"
    let ?t = "join (44 # ?w1) (map f xs)"
    have k: "skip_ws (?w1 @ ?t @ ?w2 @ 93 # r) = hd ?t # tl ?t @ ?w2 @ 93 # r"
      by (rule skip_to_value [OF w(1) s])
    have t: "hd ?t # tl ?t = ?t" "hd ?t \<noteq> 93" using s by (auto simp: value_start_def)
    have "parse_elements n (hd ?t # tl ?t @ ?w2 @ 93 # r) = Some (xs, r)"
      using n0 [OF n(1), of "[]" r] t(1) by (metis append_Cons append_Nil list.pred_inject(1))
    then show "parse_value (Suc n) (w @ wrap_items gap ind 91 93 (map f xs) @ r) = Some (JArr xs, r)"
      using n False t(2) k by (simp add: wrap_items_alt del: parse_elements.simps)
  qed
qed

lemma reads_object:
  assumes "\<forall>(k, v) \<in> set m. reads_back parse_value v (f v)" "obj_of m = m" "blank gap" "blank ind" "blank w3"
  shows "reads_back parse_value (JObj m) (wrap_items gap ind 123 125 (map (\<lambda>(k, v). quote k @ 58 # w3 @ f v) m))"
proof (cases "m = []")
  case True
  then show ?thesis
    by (auto intro!: reads_backI [of 0] simp: wrap_items_def)
next
  case False
  let ?w1 = "if gap = [] then [] else 10 # ind @ gap"
  let ?w2 = "if gap = [] then [] else 10 # ind"
  let ?t = "join (44 # ?w1) (map (\<lambda>(k, v). quote k @ 58 # w3 @ f v) m)"
  have w: "blank ?w1" "blank ?w2" using assms by (auto simp: json_ws_def)
  obtain n0 where n0: "\<And>n w r. n \<ge> n0 \<Longrightarrow> blank w \<Longrightarrow> parse_members n (w @ ?t @ ?w2 @ 125 # r) = Some (m, r)"
    using reads_members [OF False assms(1) w assms(5)] by blast
  have s: "value_start ?t"
    using False by (intro join_start) (auto simp: hd_map value_start_def quote_def split: prod.split)
  show ?thesis
  proof (rule reads_backI [of n0])
    fix n w r assume n: "n0 \<le> n" "blank w"
    have k: "skip_ws (?w1 @ ?t @ ?w2 @ 125 # r) = hd ?t # tl ?t @ ?w2 @ 125 # r"
      by (rule skip_to_value [OF w(1) s])
    have t: "hd ?t # tl ?t = ?t" "hd ?t \<noteq> 125" using s by (auto simp: value_start_def)
    have "parse_members n (hd ?t # tl ?t @ ?w2 @ 125 # r) = Some (m, r)"
      using n0 [OF n(1), of "[]" r] t(1) by (metis append_Cons append_Nil list.pred_inject(1))
    then show "parse_value (Suc n) (w @ wrap_items gap ind 123 125 (map (\<lambda>(k, v). quote k @ 58 # w3 @ f v) m) @ r) =
        Some (JObj m, r)"
      using n False t(2) k assms(2) by (simp add: wrap_items_alt del: parse_members.simps)
  qed
qed

lemma reads_stringify:
  "json_ok v \<Longrightarrow> blank gap \<Longrightarrow> blank ind \<Longrightarrow> reads_back parse_value v (stringify_at gap ind v)"
proof (induction gap ind v rule: stringify_at.induct)
  case (5 gap ind xs)
  then show ?case by (auto simp: list_all_iff value_start_stringify intro!: reads_array)
next
  case (6 gap ind m)
  have "reads_back parse_value v (stringify_at gap (ind @ gap) v)" if "(k, v) \<in> set m" for k v
    using 6 that by (fastforce simp: list_all_iff)
  then have "\<forall>(k, v) \<in> set m. reads_back parse_value v (stringify_at gap (ind @ gap) v)" by blast
  then show ?case
    using reads_object [of m "stringify_at gap (ind @ gap)" gap ind "if gap = [] then [] else [32]"] 6
    by (simp add: json_ws_def)
qed (auto simp: reads_literal reads_number)

lemma parse_stringify_at:
  assumes "json_ok v" "blank gap"
  shows "JSON_parse (stringify_at gap [] v) = Some v"
proof -
  let ?s = "stringify_at gap [] v"
  obtain n0 where n0: "\<And>n w r. n \<ge> n0 \<Longrightarrow> blank w \<Longrightarrow> ends_number r \<Longrightarrow> parse_value n (w @ ?s @ r) = Some (v, r)"
    by (rule reads_backE [OF reads_stringify [OF assms, of "[]"]]) (simp, blast)
  have "parse_value (max n0 (2 * length ?s + 1)) ?s = Some (v, [])"
    using n0 [of "max n0 (2 * length ?s + 1)" "[]" "[]"] by simp
  then have "parse_value (2 * length ?s + 1) ?s = Some (v, [])"
    using json_fuel [of ?s "max n0 (2 * length ?s + 1)"] by (metis max.cobounded2)
  then show ?thesis by (simp only: JSON_parse_def option.case prod.case dropWhile.simps refl if_True)
qed

lemma JSON_parse_stringify: "json_ok v \<Longrightarrow> JSON_parse (JSON_stringify v) = Some v"
  by (simp add: JSON_stringify_def parse_stringify_at)

lemma JSON_parse_pretty: "json_ok v \<Longrightarrow> JSON_parse (JSON_pretty v) = Some v"
  by (simp add: JSON_pretty_def parse_stringify_at json_ws_def)

end
