(* ===== verification/Chat_Message.thy ===== *)
theory Chat_Message
  imports JSON
begin

text \<open>
  The message of the playground (\<open>features/playground/types.ts\<close>) and the
  functions on one message: versions and content
  (\<open>lib/message/message-utils.ts\<close>), the separation of \<open><think>\<close> reasoning from
  visible text (\<open>message-reasoning-utils.ts\<close>) and the timing fields
  (\<open>message-timing-utils.ts\<close>).

  An optional field is an option. Times and durations are whole milliseconds.
  \<open>Date.now()\<close> and \<open>nanoid()\<close> are arguments: one argument per call, in the order
  the code makes the calls.
\<close>

section \<open>Data\<close>

datatype message_role = User | Assistant | System

datatype message_status = Loading | Streaming | Completed | Failed

record message_version =
  version_id :: jstring
  version_content :: jstring

record message_reasoning =
  r_content :: jstring
  r_duration :: int
  r_startedAt :: "int option"
  r_completedAt :: "int option"
  r_durationMs :: "int option"

record message_source =
  href :: jstring
  title :: jstring

text \<open>\<open>errorCode\<close> is what the server sent as the code, \<open>null\<close> or absent.\<close>

record message =
  msg_key :: jstring
  msg_from :: message_role
  versions :: "message_version list"
  createdAt :: "int option"
  startedAt :: "int option"
  completedAt :: "int option"
  durationMs :: "int option"
  sources :: "message_source list option"
  reasoning :: "message_reasoning option"
  isReasoningStreaming :: "bool option"
  isReasoningComplete :: "bool option"
  isContentComplete :: "bool option"
  status :: "message_status option"
  errorCode :: "jsval option"

text \<open>A message with the three required fields and no other.\<close>

definition bare_message :: "jstring \<Rightarrow> message_role \<Rightarrow> message_version list \<Rightarrow> message" where
  "bare_message k f vs =
     \<lparr>msg_key = k, msg_from = f, versions = vs, createdAt = None, startedAt = None,
      completedAt = None, durationMs = None, sources = None, reasoning = None,
      isReasoningStreaming = None, isReasoningComplete = None, isContentComplete = None,
      status = None, errorCode = None\<rparr>"

section \<open>Versions and content\<close>

definition createMessageVersion :: "jstring \<Rightarrow> jstring \<Rightarrow> message_version" where
  "createMessageVersion nid content = \<lparr>version_id = nid, version_content = content\<rparr>"

definition getCurrentVersion :: "message \<Rightarrow> message_version" where
  "getCurrentVersion m =
     (case versions m of
        [] \<Rightarrow> \<lparr>version_id = js ''default'', version_content = []\<rparr>
      | v # _ \<Rightarrow> v)"

definition getMessageContent :: "message \<Rightarrow> jstring" where
  "getMessageContent m = version_content (getCurrentVersion m)"

definition hasMessageContent :: "message \<Rightarrow> bool" where
  "hasMessageContent m \<longleftrightarrow> trim (getMessageContent m) \<noteq> []"

definition updateCurrentVersionContent :: "message \<Rightarrow> jstring \<Rightarrow> message" where
  "updateCurrentVersionContent m content =
     m\<lparr>versions := [(getCurrentVersion m)\<lparr>version_content := content\<rparr>]\<rparr>"

definition createUserMessage :: "jstring \<Rightarrow> jstring \<Rightarrow> jstring \<Rightarrow> int \<Rightarrow> message" where
  "createUserMessage kid vid content created =
     (bare_message kid User [createMessageVersion vid content])\<lparr>createdAt := Some created\<rparr>"

definition createLoadingAssistantMessage :: "jstring \<Rightarrow> jstring \<Rightarrow> int \<Rightarrow> message" where
  "createLoadingAssistantMessage kid vid started =
     (bare_message kid Assistant [createMessageVersion vid []])
       \<lparr>createdAt := Some started, startedAt := Some started, reasoning := None,
        isReasoningComplete := Some False, isContentComplete := Some False,
        isReasoningStreaming := Some False, status := Some Loading\<rparr>"

text \<open>Message content with images: a string, or a text part followed by image parts.\<close>

datatype content_part = TextPart jstring | ImagePart jstring

datatype message_content = Plain jstring | Parts "content_part list"

definition buildMessageContent :: "jstring \<Rightarrow> jstring list \<Rightarrow> message_content" where
  "buildMessageContent txt imageUrls =
     (let validImages = filter (\<lambda>url. trim url \<noteq> []) imageUrls in
      if length validImages = 0 then Plain txt
      else Parts (TextPart txt # map (\<lambda>url. ImagePart (trim url)) validImages))"

fun getTextContent :: "message_content \<Rightarrow> jstring" where
  "getTextContent (Plain s) = s"
| "getTextContent (Parts ps) =
     (case List.find (\<lambda>p. case p of TextPart _ \<Rightarrow> True | ImagePart _ \<Rightarrow> False) ps of
        Some (TextPart s) \<Rightarrow> s
      | _ \<Rightarrow> [])"

record chat_completion_message =
  ccm_role :: message_role
  ccm_content :: message_content

definition formatMessageForAPI :: "message \<Rightarrow> chat_completion_message" where
  "formatMessageForAPI m =
     \<lparr>ccm_role = msg_from m, ccm_content = Plain (version_content (getCurrentVersion m))\<rparr>"

text \<open>A message always has a role here; the code's other guard is an empty version list.\<close>

definition isValidMessage :: "message \<Rightarrow> bool" where
  "isValidMessage m \<longleftrightarrow>
     versions m \<noteq> [] \<and> \<not> (msg_from m = Assistant \<and> \<not> hasMessageContent m)"

lemma getMessageContent_update [simp]:
  "getMessageContent (updateCurrentVersionContent m s) = s"
  by (simp add: getMessageContent_def updateCurrentVersionContent_def getCurrentVersion_def)

lemma update_fields [simp]:
  "msg_key (updateCurrentVersionContent m s) = msg_key m"
  "msg_from (updateCurrentVersionContent m s) = msg_from m"
  "reasoning (updateCurrentVersionContent m s) = reasoning m"
  "status (updateCurrentVersionContent m s) = status m"
  "createdAt (updateCurrentVersionContent m s) = createdAt m"
  "startedAt (updateCurrentVersionContent m s) = startedAt m"
  "versions (updateCurrentVersionContent m s) = [(getCurrentVersion m)\<lparr>version_content := s\<rparr>]"
  by (simp_all add: updateCurrentVersionContent_def)

lemma update_update [simp]:
  "updateCurrentVersionContent (updateCurrentVersionContent m s) s' = updateCurrentVersionContent m s'"
  by (simp add: updateCurrentVersionContent_def getCurrentVersion_def)

section \<open>Reasoning between think tags\<close>

abbreviation think_open :: jstring where
  "think_open \<equiv> js ''<think>''"

abbreviation think_close :: jstring where
  "think_close \<equiv> js ''</think>''"

record parsed_think_tags =
  visibleContent :: jstring
  think_reasoning :: jstring
  hasUnclosedTag :: bool

lemma indexOf_SomeD:
  assumes "indexOf s p i = Some j" and "p \<noteq> []"
  shows "i \<le> j" and "j + length p \<le> length s"
proof -
  from assms(1) obtain k where k: "find_sub p (drop i s) = Some k" "j = k + i"
    by (auto simp: indexOf_def)
  then have "k + length p \<le> length s - i" using find_sub_SomeD by fastforce
  with k(2) assms(2) show "i \<le> j" "j + length p \<le> length s" by (cases p; simp)+
qed

text \<open>The \<open>while (true)\<close> loop: position, visible parts and reasoning parts so far.\<close>

function think_loop :: "jstring \<Rightarrow> nat \<Rightarrow> jstring list \<Rightarrow> jstring list
    \<Rightarrow> jstring list \<times> jstring list \<times> bool" where
  "think_loop content currentPos visibleParts reasoningParts =
     (case indexOf content think_open currentPos of
        None \<Rightarrow>
          (if currentPos < length content then visibleParts @ [drop currentPos content]
           else visibleParts, reasoningParts, False)
      | Some openPos \<Rightarrow>
          let visibleParts' =
                (if openPos > currentPos then visibleParts @ [slice currentPos openPos content]
                 else visibleParts) in
          (case indexOf content think_close (openPos + 7) of
             None \<Rightarrow> (visibleParts', reasoningParts @ [drop (openPos + 7) content], True)
           | Some closePos \<Rightarrow>
               think_loop content (closePos + 8) visibleParts'
                 (reasoningParts @ [slice (openPos + 7) closePos content])))"
  by pat_completeness auto
termination
proof (relation "measure (\<lambda>(s, pos, _, _). length s - pos)", goal_cases)
  case (2 s pos vis rea openPos _ closePos)
  then show ?case
    using indexOf_SomeD [of s think_open pos openPos]
      indexOf_SomeD [of s think_close "openPos + 7" closePos] by simp
qed simp

declare think_loop.simps [simp del]

definition parseThinkTags :: "jstring \<Rightarrow> parsed_think_tags" where
  "parseThinkTags content =
     (if \<not> str_includes content think_open then
        \<lparr>visibleContent = content, think_reasoning = [], hasUnclosedTag = False\<rparr>
      else
        case think_loop content 0 [] [] of
          (visibleParts, reasoningParts, unclosed) \<Rightarrow>
            \<lparr>visibleContent = trim (concat visibleParts),
             think_reasoning = trim (join (js ''\<newline>\<newline>'') reasoningParts),
             hasUnclosedTag = unclosed\<rparr>)"

section \<open>Timing\<close>

definition completeAssistantTiming :: "int \<Rightarrow> message \<Rightarrow> message" where
  "completeAssistantTiming completed m =
     (if msg_from m \<noteq> Assistant then m
      else
        let started =
              (case startedAt m of Some t \<Rightarrow> t | None \<Rightarrow>
                (case createdAt m of Some t \<Rightarrow> t | None \<Rightarrow> completed)) in
        m\<lparr>startedAt := Some started, completedAt := Some completed,
          durationMs := Some (max 0 (completed - started))\<rparr>)"

definition startReasoningTiming :: "int \<Rightarrow> message \<Rightarrow> message_reasoning" where
  "startReasoningTiming started m =
     (case reasoning m of
        None \<Rightarrow>
          \<lparr>r_content = [], r_duration = 0, r_startedAt = Some started,
           r_completedAt = None, r_durationMs = None\<rparr>
      | Some r \<Rightarrow>
          \<lparr>r_content = r_content r, r_duration = r_duration r,
           r_startedAt = (case r_startedAt r of Some t \<Rightarrow> Some t | None \<Rightarrow> Some started),
           r_completedAt = r_completedAt r, r_durationMs = r_durationMs r\<rparr>)"

text \<open>\<open>Math.ceil(d / 1000)\<close> on whole milliseconds.\<close>

definition ceil_seconds :: "int \<Rightarrow> int" where
  "ceil_seconds d = - ((- d) div 1000)"

definition completeReasoningTiming :: "int \<Rightarrow> message \<Rightarrow> message" where
  "completeReasoningTiming completed m =
     (case reasoning m of
        None \<Rightarrow> m
      | Some r \<Rightarrow>
          if r_durationMs r \<noteq> None then m
          else
            let started =
                  (case r_startedAt r of Some t \<Rightarrow> t | None \<Rightarrow>
                    (case startedAt m of Some t \<Rightarrow> t | None \<Rightarrow> completed));
                d = max 0 (completed - started) in
            m\<lparr>reasoning := Some (r\<lparr>r_startedAt := Some started, r_completedAt := Some completed,
              r_durationMs := Some d, r_duration := ceil_seconds d\<rparr>)\<rparr>)"

section \<open>What the think loop computes\<close>

text \<open>
  A text as the user's model writes it: visible text, then any number of
  complete think blocks each followed by visible text, then possibly a block that
  is still open.
\<close>

fun render_blocks :: "(jstring \<times> jstring) list \<Rightarrow> jstring" where
  "render_blocks [] = []"
| "render_blocks ((r, v) # bs) = think_open @ r @ think_close @ v @ render_blocks bs"

definition render_think :: "jstring \<Rightarrow> (jstring \<times> jstring) list \<Rightarrow> jstring option \<Rightarrow> jstring" where
  "render_think v0 bs tail =
     v0 @ render_blocks bs @ (case tail of None \<Rightarrow> [] | Some r \<Rightarrow> think_open @ r)"

definition wf_think :: "jstring \<Rightarrow> (jstring \<times> jstring) list \<Rightarrow> jstring option \<Rightarrow> bool" where
  "wf_think v0 bs tail \<longleftrightarrow>
     \<not> str_includes v0 think_open \<and>
     list_all (\<lambda>(r, v). \<not> str_includes r think_close \<and> \<not> str_includes v think_open) bs \<and>
     (case tail of None \<Rightarrow> True | Some r \<Rightarrow> \<not> str_includes r think_close)"

text \<open>What the parser is to return for such a text.\<close>

definition think_spec :: "jstring \<Rightarrow> (jstring \<times> jstring) list \<Rightarrow> jstring option \<Rightarrow> parsed_think_tags" where
  "think_spec v0 bs tail =
     (if bs = [] \<and> tail = None then
        \<lparr>visibleContent = v0, think_reasoning = [], hasUnclosedTag = False\<rparr>
      else
        \<lparr>visibleContent = trim (v0 @ concat (map snd bs)),
         think_reasoning = trim (join (js ''\<newline>\<newline>'')
           (map fst bs @ (case tail of None \<Rightarrow> [] | Some r \<Rightarrow> [r]))),
         hasUnclosedTag = (tail \<noteq> None)\<rparr>)"

text \<open>
  The first occurrence of a tag whose first character occurs in it only once is
  never one that overlaps the tag itself.
\<close>

lemma find_sub_after:
  assumes p: "p = h # t" "h \<notin> set t" and no: "\<not> sublist p u"
  shows "find_sub p (u @ p @ v) = Some (length u)"
proof (rule find_sub_first)
  fix j assume j: "j < length u"
  show "\<not> prefix p (drop j (u @ p @ v))"
  proof
    assume pre: "prefix p (drop j (u @ p @ v))"
    then obtain w where w: "drop j u @ p @ v = p @ w" using j by (auto simp: prefix_def)
    show False
    proof (cases "j + length p \<le> length u")
      case True
      then have "take (length p) (drop j u @ p @ v) = take (length p) (drop j u)" by simp
      with w have "take (length p) (drop j u) = p" by (metis append_eq_conv_conj)
      then have "sublist p u" by (metis sublist_drop sublist_take sublist_order.order_trans)
      with no show False by blast
    next
      case False
      let ?i = "length u - j"
      have i: "0 < ?i" "?i < length p" using j False by auto
      have "(drop j u @ p @ v) ! ?i = h" using p(1) by (simp add: nth_append)
      moreover have "(p @ w) ! ?i = p ! ?i" using i by (simp add: nth_append)
      moreover have "p ! ?i = t ! (?i - 1)" using i p(1) by (simp add: nth_Cons')
      moreover have "t ! (?i - 1) \<in> set t" using i p(1) by auto
      ultimately show False using w p(2) by metis
    qed
  qed
qed

lemma find_open: "\<not> str_includes u think_open \<Longrightarrow> find_sub think_open (u @ think_open @ v) = Some (length u)"
  by (rule find_sub_after [of _ 60 "js ''think>''"]) (simp_all add: str_includes_def js_eval)

lemma find_close: "\<not> str_includes u think_close \<Longrightarrow> find_sub think_close (u @ think_close @ v) = Some (length u)"
  by (rule find_sub_after [of _ 60 "js ''/think>''"]) (simp_all add: str_includes_def js_eval)

lemma indexOf_at:
  assumes "find_sub p rest = Some k"
  shows "indexOf (u @ rest) p (length u) = Some (length u + k)"
  using assms by (simp add: indexOf_def)

lemma indexOf_none: "\<not> sublist p rest \<Longrightarrow> indexOf (u @ rest) p (length u) = None"
  by (simp add: indexOf_def find_sub_None_iff)

lemma slice_at: "slice (length u) (length u + length v) (u @ v @ w) = v"
  by (simp add: slice_def)

text \<open>One unfolding of the loop at the end of a processed prefix.\<close>

lemma think_loop_end:
  assumes "\<not> str_includes v think_open"
  shows "think_loop (u @ v) (length u) vis rea = (if v = [] then vis else vis @ [v], rea, False)"
  using assms
  by (subst think_loop.simps) (simp add: indexOf_none str_includes_def)

lemma think_loop_open:
  assumes "\<not> str_includes v think_open" "\<not> str_includes r think_close"
  shows "think_loop (u @ v @ think_open @ r) (length u) vis rea =
    (if v = [] then vis else vis @ [v], rea @ [r], True)"
proof -
  have o: "indexOf (u @ v @ think_open @ r) think_open (length u) = Some (length u + length v)"
    using find_open [OF assms(1)] by (rule indexOf_at)
  have "indexOf ((u @ v @ think_open) @ r) think_close (length (u @ v @ think_open)) = None"
    using assms(2) by (intro indexOf_none) (simp add: str_includes_def)
  then have c: "indexOf (u @ v @ think_open @ r) think_close (length u + length v + 7) = None"
    by (simp add: add.assoc eval_nat_numeral)
  show ?thesis
    by (subst think_loop.simps) (simp add: o c slice_at Let_def)
qed

lemma think_loop_block:
  assumes "\<not> str_includes v think_open" "\<not> str_includes r think_close"
  shows "think_loop (u @ v @ think_open @ r @ think_close @ w) (length u) vis rea =
    think_loop ((u @ v @ think_open @ r @ think_close) @ w) (length (u @ v @ think_open @ r @ think_close))
      (if v = [] then vis else vis @ [v]) (rea @ [r])"
proof -
  let ?s = "u @ v @ think_open @ r @ think_close @ w"
  have o: "indexOf ?s think_open (length u) = Some (length u + length v)"
    using find_open [OF assms(1)] by (rule indexOf_at)
  have "indexOf ((u @ v @ think_open) @ r @ think_close @ w) think_close (length (u @ v @ think_open))
      = Some (length (u @ v @ think_open) + length r)"
    using find_close [OF assms(2)] by (rule indexOf_at)
  then have c: "indexOf ?s think_close (length u + length v + 7) = Some (length u + length v + 7 + length r)"
    by (simp add: add.assoc eval_nat_numeral)
  have s: "slice (length u + length v + 7) (length u + length v + 7 + length r) ?s = r"
    using slice_at [of "u @ v @ think_open" r "think_close @ w"]
    by (simp add: add.assoc eval_nat_numeral)
  have e: "length (u @ v @ think_open @ r @ think_close) = length u + length v + 7 + length r + 8"
    by (simp add: eval_nat_numeral)
  show ?thesis
    unfolding e using o c s by (subst think_loop.simps) (cases "v = []"; simp add: slice_at Let_def)
qed

text \<open>The loop over a whole text of blocks.\<close>

definition parts_of :: "jstring list \<Rightarrow> jstring list" where
  "parts_of vs = filter (\<lambda>v. v \<noteq> []) vs"

lemma think_loop_render:
  assumes "wf_think v bs tail"
  shows "think_loop (u @ render_think v bs tail) (length u) vis rea =
    (vis @ parts_of (v # map snd bs),
     rea @ map fst bs @ (case tail of None \<Rightarrow> [] | Some r \<Rightarrow> [r]), tail \<noteq> None)"
  using assms
proof (induction bs arbitrary: u v vis rea)
  case Nil
  then show ?case
    by (cases tail) (simp_all add: render_think_def wf_think_def think_loop_end think_loop_open parts_of_def)
next
  case (Cons b bs)
  obtain r w where b: "b = (r, w)" by fastforce
  have s: "u @ render_think v (b # bs) tail =
      u @ v @ think_open @ r @ think_close @ render_think w bs tail"
    by (simp add: render_think_def b)
  have wf: "\<not> str_includes v think_open" "\<not> str_includes r think_close" "wf_think w bs tail"
    using Cons.prems by (auto simp: wf_think_def b)
  show ?case
    unfolding s think_loop_block [OF wf(1,2)] Cons.IH [OF wf(3)] by (simp add: b parts_of_def)
qed

lemma concat_parts_of: "concat (parts_of vs) = concat vs"
  by (induction vs) (auto simp: parts_of_def)

lemma render_has_open:
  assumes "wf_think v bs tail"
  shows "str_includes (render_think v bs tail) think_open \<longleftrightarrow> bs \<noteq> [] \<or> tail \<noteq> None"
proof -
  have "str_includes (a @ think_open @ c) think_open" for a c :: jstring
    by (simp add: str_includes_def)
  from this [of v] show ?thesis
    using assms by (cases bs; cases tail) (auto simp: render_think_def wf_think_def)
qed

lemma parseThinkTags_render:
  assumes "wf_think v bs tail"
  shows "parseThinkTags (render_think v bs tail) = think_spec v bs tail"
proof (cases "bs = [] \<and> tail = None")
  case True
  with assms show ?thesis
    by (simp add: parseThinkTags_def think_spec_def render_think_def wf_think_def)
next
  case False
  with render_has_open [OF assms] have "str_includes (render_think v bs tail) think_open" by auto
  moreover have "think_loop (render_think v bs tail) 0 [] [] =
      (parts_of (v # map snd bs), map fst bs @ (case tail of None \<Rightarrow> [] | Some r \<Rightarrow> [r]), tail \<noteq> None)"
    using think_loop_render [OF assms, of "[]" "[]" "[]"] by simp
  ultimately show ?thesis
    using False by (auto simp: parseThinkTags_def think_spec_def concat_parts_of)
qed

text \<open>Every text is of this shape.\<close>

lemma find_sub_split:
  assumes "find_sub p s = Some i" and "p \<noteq> []"
  shows "\<exists>u w. s = u @ p @ w \<and> \<not> sublist p u"
  using assms
proof (induction s arbitrary: i)
  case (Cons c s)
  show ?case
  proof (cases "prefix p (c # s)")
    case True
    then obtain w where "c # s = [] @ p @ w" by (auto simp: prefix_def)
    with Cons.prems(2) show ?thesis by (intro exI [of _ "[]"] exI [of _ w]) auto
  next
    case False
    with Cons.prems obtain j where "find_sub p s = Some j" by auto
    with Cons obtain u w where u: "s = u @ p @ w" "\<not> sublist p u" by blast
    have "\<not> prefix p (c # u)"
      using False u(1) by (metis append_Cons prefix_prefix)
    with u have "c # s = (c # u) @ p @ w \<and> \<not> sublist p (c # u)"
      by (simp add: sublist_Cons_right)
    then show ?thesis by blast
  qed
qed simp

lemma think_decompose: "\<exists>v bs tail. s = render_think v bs tail \<and> wf_think v bs tail"
proof (induction s rule: length_induct)
  case (1 s)
  show ?case
  proof (cases "find_sub think_open s")
    case None
    then have "wf_think s [] None \<and> s = render_think s [] None"
      by (simp add: wf_think_def render_think_def str_includes_def find_sub_None_iff)
    then show ?thesis by blast
  next
    case (Some i)
    then obtain v rest where v: "s = v @ think_open @ rest" "\<not> sublist think_open v"
      using find_sub_split [OF Some] by auto
    show ?thesis
    proof (cases "find_sub think_close rest")
      case None
      then have "wf_think v [] (Some rest) \<and> s = render_think v [] (Some rest)"
        using v by (simp add: wf_think_def render_think_def str_includes_def find_sub_None_iff)
      then show ?thesis by blast
    next
      case (Some k)
      then obtain r w where r: "rest = r @ think_close @ w" "\<not> sublist think_close r"
        using find_sub_split [OF Some] by auto
      have "length w < length s" using v(1) r(1) by simp
      then obtain v' bs tail where w: "w = render_think v' bs tail" "wf_think v' bs tail"
        using "1.IH" by blast
      then have "wf_think v ((r, v') # bs) tail \<and> s = render_think v ((r, v') # bs) tail"
        using v r by (simp add: wf_think_def render_think_def str_includes_def)
      then show ?thesis by blast
    qed
  qed
qed

section \<open>Timing lemmas\<close>

lemma timing_frame [simp]:
  "msg_key (completeAssistantTiming t m) = msg_key m"
  "msg_from (completeAssistantTiming t m) = msg_from m"
  "versions (completeAssistantTiming t m) = versions m"
  "reasoning (completeAssistantTiming t m) = reasoning m"
  "status (completeAssistantTiming t m) = status m"
  "isReasoningStreaming (completeAssistantTiming t m) = isReasoningStreaming m"
  "errorCode (completeAssistantTiming t m) = errorCode m"
  "msg_key (completeReasoningTiming t m) = msg_key m"
  "msg_from (completeReasoningTiming t m) = msg_from m"
  "versions (completeReasoningTiming t m) = versions m"
  "status (completeReasoningTiming t m) = status m"
  "createdAt (completeReasoningTiming t m) = createdAt m"
  "startedAt (completeReasoningTiming t m) = startedAt m"
  "isReasoningStreaming (completeReasoningTiming t m) = isReasoningStreaming m"
  by (simp_all add: completeAssistantTiming_def completeReasoningTiming_def Let_def split: option.split)

lemma getCurrentVersion_cong: "versions m = versions m' \<Longrightarrow> getCurrentVersion m = getCurrentVersion m'"
  by (simp add: getCurrentVersion_def)

lemma getMessageContent_frame [simp]:
  "getMessageContent (completeAssistantTiming t m) = getMessageContent m"
  "getMessageContent (completeReasoningTiming t m) = getMessageContent m"
  "getMessageContent (m\<lparr>reasoning := r\<rparr>) = getMessageContent m"
  "getMessageContent (m\<lparr>isReasoningStreaming := b\<rparr>) = getMessageContent m"
  "getMessageContent (m\<lparr>status := s\<rparr>) = getMessageContent m"
  "getMessageContent (m\<lparr>errorCode := e\<rparr>) = getMessageContent m"
  "getMessageContent (m\<lparr>createdAt := c\<rparr>) = getMessageContent m"
  by (simp_all add: getMessageContent_def getCurrentVersion_def)

lemma ceil_seconds_bounds: "1000 * ceil_seconds d - 1000 < d" "d \<le> 1000 * ceil_seconds d"
proof -
  have "- d = 1000 * ((- d) div 1000) + (- d) mod 1000" by simp
  moreover have "0 \<le> (- d) mod 1000" "(- d) mod 1000 < 1000" by simp_all
  ultimately show "1000 * ceil_seconds d - 1000 < d" "d \<le> 1000 * ceil_seconds d"
    unfolding ceil_seconds_def by linarith+
qed

section \<open>Properties\<close>

text \<open>
  C22: the think-tag parser computes exactly the intended decomposition. Every text
  is visible text, complete think blocks and possibly one open block; the parser
  returns the visible parts joined and trimmed, the reasoning parts joined by blank
  lines and trimmed, and whether a block is open (and an untagged text as it is).
\<close>

theorem parseThinkTags_exact:
  "parseThinkTags s = p \<longleftrightarrow>
     (\<exists>v bs tail. s = render_think v bs tail \<and> wf_think v bs tail \<and> p = think_spec v bs tail)"
  using think_decompose [of s] parseThinkTags_render by blast

text \<open>
  reasoning is timed once. Completing the reasoning a second time changes
  nothing, the first completion sets a duration that is not negative, and the
  seconds shown are the milliseconds rounded up.
\<close>

theorem completeReasoningTiming_once:
  "completeReasoningTiming t' (completeReasoningTiming t m) = completeReasoningTiming t m \<and>
   (\<forall>r d. reasoning m = Some r \<and> r_durationMs r = None \<and>
      reasoning (completeReasoningTiming t m) = Some d \<longrightarrow>
      (\<exists>ms. r_durationMs d = Some ms \<and> 0 \<le> ms \<and>
         1000 * r_duration d - 1000 < ms \<and> ms \<le> 1000 * r_duration d))"
proof -
  have "\<exists>ms. r_durationMs d = Some ms \<and> 0 \<le> ms \<and>
      1000 * r_duration d - 1000 < ms \<and> ms \<le> 1000 * r_duration d"
    if "reasoning m = Some r" "r_durationMs r = None"
      "reasoning (completeReasoningTiming t m) = Some d" for r d
    using that by (auto simp: completeReasoningTiming_def Let_def ceil_seconds_bounds)
  moreover have "completeReasoningTiming t' (completeReasoningTiming t m) = completeReasoningTiming t m"
    by (simp add: completeReasoningTiming_def Let_def split: option.split)
  ultimately show ?thesis by blast
qed

lemma completeReasoningTiming_once_witness:
  "let m = (createLoadingAssistantMessage (js ''a'') (js ''b'') 5000)
             \<lparr>reasoning := Some \<lparr>r_content = js ''x'', r_duration = 0, r_startedAt = Some 5200,
               r_completedAt = None, r_durationMs = None\<rparr>\<rparr> in
   (\<exists>d ms. reasoning (completeReasoningTiming 6700 m) = Some d \<and> r_durationMs d = Some ms \<and> 0 \<le> ms \<and>
      1000 * r_duration d - 1000 < ms \<and> ms \<le> 1000 * r_duration d)"
  using completeReasoningTiming_once [of 0 6700
    "(createLoadingAssistantMessage (js ''a'') (js ''b'') 5000)
       \<lparr>reasoning := Some \<lparr>r_content = js ''x'', r_duration = 0, r_startedAt = Some 5200,
         r_completedAt = None, r_durationMs = None\<rparr>\<rparr>"]
  by (simp add: completeReasoningTiming_def Let_def)

text \<open>
  attaching images never changes the text that is read back from a message.
\<close>

theorem getTextContent_buildMessageContent: "getTextContent (buildMessageContent s urls) = s"
  by (simp add: buildMessageContent_def Let_def)

end
