(* ===== verification/Chat_Streaming.thy ===== *)
theory Chat_Streaming
  imports Chat_Message
begin

text \<open>
  How messages change while an answer streams in, and the operations on the list
  of messages: \<open>lib/message/message-streaming-utils.ts\<close>,
  \<open>message-update-utils.ts\<close>, \<open>conversation-message-utils.ts\<close>, the view states
  (\<open>message-content-utils.ts\<close>, \<open>message-action-utils.ts\<close>,
  \<open>message-editor-utils.ts\<close>, \<open>message-error-utils.ts\<close>) and the request body
  (\<open>lib/streaming/payload-builder.ts\<close>).
\<close>

section \<open>Streaming\<close>

definition processStreamingContent :: "int \<Rightarrow> message \<Rightarrow> jstring option \<Rightarrow> message" where
  "processStreamingContent now m contentChunk =
     (let currentContent = version_content (getCurrentVersion m);
          fullContent =
            (case contentChunk of
               Some c \<Rightarrow> if c \<noteq> [] then currentContent @ c else currentContent
             | None \<Rightarrow> currentContent) in
      if reasoning m = None \<and> \<not> str_includes fullContent think_open then
        (updateCurrentVersionContent m fullContent)\<lparr>isReasoningStreaming := Some False\<rparr>
      else
        let parsed = parseThinkTags fullContent;
            finalReasoning =
              (if think_reasoning parsed \<noteq> [] then
                 Some ((startReasoningTiming now m)\<lparr>r_content := think_reasoning parsed\<rparr>)
               else reasoning m) in
        (updateCurrentVersionContent m fullContent)
          \<lparr>reasoning := finalReasoning, isReasoningStreaming := Some (hasUnclosedTag parsed)\<rparr>)"

datatype stream_chunk_type = ReasoningChunk | ContentChunk

definition getAppendableChunk :: "jstring \<Rightarrow> jstring \<Rightarrow> jstring" where
  "getAppendableChunk currentContent chunk =
     (if currentContent = [] \<or> \<not> startsWith chunk currentContent then chunk
      else drop (length currentContent) chunk)"

definition applyStreamingChunk ::
  "int \<Rightarrow> int \<Rightarrow> message \<Rightarrow> stream_chunk_type \<Rightarrow> jstring \<Rightarrow> message" where
  "applyStreamingChunk now1 now2 m ty chunk =
     (if status m = Some Failed then m
      else
        case ty of
          ReasoningChunk \<Rightarrow>
            let r = startReasoningTiming now1 m;
                appendable = getAppendableChunk (r_content r) chunk in
            m\<lparr>reasoning := Some (r\<lparr>r_content := r_content r @ appendable\<rparr>),
              isReasoningStreaming := Some True, status := Some Streaming\<rparr>
        | ContentChunk \<Rightarrow>
            let appendable = getAppendableChunk (version_content (getCurrentVersion m)) chunk;
                contentMessage = processStreamingContent now1 m (Some appendable) in
            (if isReasoningStreaming contentMessage = Some True then contentMessage
             else completeReasoningTiming now2 contentMessage)\<lparr>status := Some Streaming\<rparr>)"

text \<open>The first string of the list that is not empty: a chain of \<open>||\<close> ending in \<open>''\<close>.\<close>

fun first_nonempty :: "jstring option list \<Rightarrow> jstring" where
  "first_nonempty [] = []"
| "first_nonempty (None # xs) = first_nonempty xs"
| "first_nonempty (Some s # xs) = (if s \<noteq> [] then s else first_nonempty xs)"

definition finalizeMessage :: "int \<Rightarrow> int \<Rightarrow> message \<Rightarrow> jstring option \<Rightarrow> message" where
  "finalizeMessage now1 now2 m apiReasoningContent =
     (let currentContent = version_content (getCurrentVersion m);
          parsed = (if str_includes currentContent think_open
                    then Some (parseThinkTags currentContent) else None);
          visible = (case parsed of Some p \<Rightarrow> visibleContent p | None \<Rightarrow> currentContent);
          finalReasoning =
            first_nonempty [apiReasoningContent, map_option r_content (reasoning m),
              map_option think_reasoning parsed];
          finalized =
            (updateCurrentVersionContent m visible)
              \<lparr>reasoning :=
                 (if finalReasoning \<noteq> [] then
                    Some ((startReasoningTiming now1 m)\<lparr>r_content := finalReasoning\<rparr>)
                  else None),
               isReasoningStreaming := Some False\<rparr> in
      completeReasoningTiming now2 finalized)"

definition completeAssistantMessage :: "int \<Rightarrow> int \<Rightarrow> int \<Rightarrow> message \<Rightarrow> message" where
  "completeAssistantMessage now1 now2 now3 m =
     completeAssistantTiming now3 ((finalizeMessage now1 now2 m None)\<lparr>status := Some Completed\<rparr>)"

definition isAssistantMessageFinal :: "message \<Rightarrow> bool" where
  "isAssistantMessageFinal m \<longleftrightarrow> status m = Some Completed \<or> status m = Some Failed"

definition isAssistantMessagePending :: "message \<Rightarrow> bool" where
  "isAssistantMessagePending m \<longleftrightarrow> status m = Some Loading \<or> status m = Some Streaming"

definition isPendingAssistantMessage :: "message option \<Rightarrow> bool" where
  "isPendingAssistantMessage mo =
     (case mo of None \<Rightarrow> False | Some m \<Rightarrow> msg_from m = Assistant \<and> isAssistantMessagePending m)"

text \<open>The parts of a non-streamed answer the code reads.\<close>

record chat_completion_choice =
  choice_content :: "jstring option"
  choice_reasoning :: "jstring option"

type_synonym chat_completion_response = "chat_completion_choice list option"

definition first_choice :: "chat_completion_response \<Rightarrow> chat_completion_choice option" where
  "first_choice response =
     (case response of Some (c # _) \<Rightarrow> Some c | _ \<Rightarrow> None)"

definition hasChatCompletionChoice :: "chat_completion_response \<Rightarrow> bool" where
  "hasChatCompletionChoice response \<longleftrightarrow> first_choice response \<noteq> None"

definition applyChatCompletionChoice ::
  "int \<Rightarrow> int \<Rightarrow> int \<Rightarrow> message \<Rightarrow> chat_completion_choice \<Rightarrow> message" where
  "applyChatCompletionChoice now1 now2 now3 m choice =
     completeAssistantTiming now3
       ((finalizeMessage now1 now2
           (updateCurrentVersionContent m (first_nonempty [choice_content choice]))
           (choice_reasoning choice))\<lparr>status := Some Completed\<rparr>)"

definition applyChatCompletionResponse ::
  "int \<Rightarrow> int \<Rightarrow> int \<Rightarrow> message \<Rightarrow> chat_completion_response \<Rightarrow> message option" where
  "applyChatCompletionResponse now1 now2 now3 m response =
     (case first_choice response of
        None \<Rightarrow> None
      | Some choice \<Rightarrow> Some (applyChatCompletionChoice now1 now2 now3 m choice))"

section \<open>Constants of the texts shown\<close>

definition API_REQUEST_ERROR :: jstring where
  "API_REQUEST_ERROR = js ''Request error occurred''"

definition PARSE_ERROR :: jstring where
  "PARSE_ERROR = js ''Error parsing response data''"

definition STREAM_START_ERROR :: jstring where
  "STREAM_START_ERROR = js ''Error establishing connection''"

definition CONNECTION_CLOSED :: jstring where
  "CONNECTION_CLOSED = js ''Connection closed''"

definition NETWORK_ERROR :: jstring where
  "NETWORK_ERROR = js ''Network connection failed or server not responding''"

definition INTERRUPTED :: jstring where
  "INTERRUPTED = js ''Generation was interrupted''"

section \<open>Loading stored messages\<close>

text \<open>\<open>tr\<close> is the translation function \<open>t\<close> of i18next.\<close>

definition sanitizeMessagesOnLoad ::
  "(jstring \<Rightarrow> jstring) \<Rightarrow> int \<Rightarrow> int \<Rightarrow> int \<Rightarrow> message list \<Rightarrow> message list" where
  "sanitizeMessagesOnLoad tr now1 now2 now3 messages =
     (case last_index (\<lambda>m. isPendingAssistantMessage (Some m)) messages (length messages) of
        None \<Rightarrow> messages
      | Some targetIndex \<Rightarrow>
          let finalized = finalizeMessage now1 now2 (messages ! targetIndex) None;
              hasContent = hasMessageContent finalized;
              hasReasoning =
                (case reasoning finalized of None \<Rightarrow> False | Some r \<Rightarrow> trim (r_content r) \<noteq> []);
              sanitized =
                (if hasContent \<or> hasReasoning then
                   completeAssistantTiming now3
                     (finalized\<lparr>status := Some Completed, isReasoningStreaming := Some False\<rparr>)
                 else
                   completeAssistantTiming now3
                     ((updateCurrentVersionContent finalized
                         (tr API_REQUEST_ERROR @ js '': '' @ tr INTERRUPTED))
                       \<lparr>status := Some Failed, isReasoningStreaming := Some False\<rparr>)) in
          messages[targetIndex := sanitized])"

section \<open>Updating the last assistant message\<close>

definition updateLastAssistantMessage :: "message list \<Rightarrow> (message \<Rightarrow> message) \<Rightarrow> message list" where
  "updateLastAssistantMessage messages updater =
     (if length messages = 0 then messages
      else if msg_from (last messages) \<noteq> Assistant then messages
      else messages[length messages - 1 := updater (last messages)])"

definition error_update :: "int \<Rightarrow> jstring \<Rightarrow> jsval option \<Rightarrow> jstring \<Rightarrow> message \<Rightarrow> message" where
  "error_update now errorMessage code ttl m =
     completeAssistantTiming now
       ((updateCurrentVersionContent m (ttl @ js '': '' @ errorMessage))
         \<lparr>status := Some Failed, isReasoningStreaming := Some False,
          errorCode := Some (case first_truthy [code] of Some c \<Rightarrow> c | None \<Rightarrow> JNull)\<rparr>)"

definition updateAssistantMessageWithError ::
  "int \<Rightarrow> message list \<Rightarrow> jstring \<Rightarrow> jsval option \<Rightarrow> jstring \<Rightarrow> message list" where
  "updateAssistantMessageWithError now messages errorMessage code ttl =
     updateLastAssistantMessage messages (error_update now errorMessage code ttl)"

section \<open>The conversation\<close>

text \<open>Fresh identifiers: the message key and the id of its version.\<close>

type_synonym fresh_ids = "jstring \<times> jstring"

definition appendUserMessagePair ::
  "int \<Rightarrow> fresh_ids \<Rightarrow> fresh_ids \<Rightarrow> message list \<Rightarrow> jstring \<Rightarrow> message list" where
  "appendUserMessagePair submittedAt ids1 ids2 messages cont =
     messages @ [createUserMessage (fst ids1) (snd ids1) cont submittedAt,
       createLoadingAssistantMessage (fst ids2) (snd ids2) submittedAt]"

fun find_index :: "('a \<Rightarrow> bool) \<Rightarrow> 'a list \<Rightarrow> nat option" where
  "find_index P [] = None"
| "find_index P (x # xs) = (if P x then Some 0 else map_option Suc (find_index P xs))"

definition createRegeneratedMessages ::
  "int \<Rightarrow> fresh_ids \<Rightarrow> message list \<Rightarrow> jstring \<Rightarrow> message list option" where
  "createRegeneratedMessages now ids messages messageKey =
     (case find_index (\<lambda>m. msg_key m = messageKey) messages of
        None \<Rightarrow> None
      | Some i \<Rightarrow>
          if msg_from (messages ! i) = User then
            Some (take (i + 1) messages @ [createLoadingAssistantMessage (fst ids) (snd ids) now])
          else
            Some (take i messages @ [createLoadingAssistantMessage (fst ids) (snd ids) now]))"

definition removeMessageByKey :: "message list \<Rightarrow> jstring \<Rightarrow> message list" where
  "removeMessageByKey messages messageKey = filter (\<lambda>m. msg_key m \<noteq> messageKey) messages"

text \<open>Reading past the end of the list raises a \<open>TypeError\<close>, at the first index tried.\<close>

definition getPreviousUserMessage :: "message list \<Rightarrow> nat \<Rightarrow> js_error + message option" where
  "getPreviousUserMessage messages beforeIndex =
     (if beforeIndex > length messages then Inl TypeError
      else Inr (map_option (\<lambda>i. messages ! i)
        (last_index (\<lambda>m. msg_from m = User) messages beforeIndex)))"

record apply_message_edit_result =
  edit_messages :: "message list"
  shouldSend :: bool

definition applyMessageEdit ::
  "int \<Rightarrow> fresh_ids \<Rightarrow> message list \<Rightarrow> jstring \<Rightarrow> jstring \<Rightarrow> bool \<Rightarrow> apply_message_edit_result option" where
  "applyMessageEdit submittedAt ids messages messageKey cont shouldSubmit =
     (case find_index (\<lambda>m. msg_key m = messageKey) messages of
        None \<Rightarrow> None
      | Some i \<Rightarrow>
          let updatedMessages =
                map (\<lambda>m. if msg_key m = messageKey then
                           (updateCurrentVersionContent m cont)
                             \<lparr>createdAt := (if shouldSubmit then Some submittedAt else createdAt m)\<rparr>
                         else m) messages in
          if \<not> shouldSubmit \<or> msg_from (updatedMessages ! i) \<noteq> User then
            Some \<lparr>edit_messages = updatedMessages, shouldSend = False\<rparr>
          else
            Some \<lparr>edit_messages = take (i + 1) updatedMessages @
                    [createLoadingAssistantMessage (fst ids) (snd ids) submittedAt],
                  shouldSend = True\<rparr>)"

definition getEditingMessageContent :: "message list \<Rightarrow> jstring option \<Rightarrow> jstring" where
  "getEditingMessageContent messages editingKey =
     (case editingKey of
        None \<Rightarrow> []
      | Some k \<Rightarrow>
          if k = [] then []
          else case List.find (\<lambda>m. msg_key m = k) messages of
                 None \<Rightarrow> [] | Some m \<Rightarrow> getMessageContent m)"

record chat_message_render_state =
  alwaysShowActions :: bool
  render_content :: jstring
  isEditing :: bool

definition getChatMessageRenderState ::
  "message list \<Rightarrow> message \<Rightarrow> nat \<Rightarrow> jstring option \<Rightarrow> chat_message_render_state" where
  "getChatMessageRenderState messages m messageIndex editingKey =
     \<lparr>alwaysShowActions = (int messageIndex = int (length messages) - 1 \<and> msg_from m = Assistant),
      render_content = getMessageContent m, isEditing = (editingKey = Some (msg_key m))\<rparr>"

section \<open>What is shown of a message\<close>

definition shouldShowMessageLoader :: "message \<Rightarrow> bool \<Rightarrow> jstring \<Rightarrow> bool" where
  "shouldShowMessageLoader m isAssistant versionContent \<longleftrightarrow>
     isAssistant \<and> isReasoningStreaming m \<noteq> Some True \<and>
     (status m = Some Loading \<or> (status m = Some Streaming \<and> versionContent = []))"

definition shouldShowMessageContent :: "message \<Rightarrow> jstring \<Rightarrow> bool" where
  "shouldShowMessageContent m versionContent \<longleftrightarrow>
     (msg_from m = User \<or> isReasoningStreaming m \<noteq> Some True) \<and> length versionContent > 0"

definition getDisplayContent :: "message \<Rightarrow> jstring \<Rightarrow> jstring" where
  "getDisplayContent m versionContent =
     (if msg_from m \<noteq> Assistant then versionContent
      else if \<not> str_includes versionContent think_open then versionContent
      else visibleContent (parseThinkTags versionContent))"

text \<open>\<open>hasReasoning\<close> with its content, or neither.\<close>

record message_content_state =
  displayContent :: jstring
  hasSources :: bool
  cs_isAssistant :: bool
  showLoader :: bool
  showMessageContent :: bool
  cs_sources :: "message_source list"
  hasReasoning :: bool
  reasoningContent :: "jstring option"

definition getMessageContentState :: "message \<Rightarrow> jstring \<Rightarrow> message_content_state" where
  "getMessageContentState m versionContent =
     (let isAssistant = (msg_from m = Assistant);
          srcs = (case sources m of None \<Rightarrow> [] | Some ss \<Rightarrow> ss);
          rc = (if isAssistant then map_option r_content (reasoning m) else None);
          base = \<lparr>displayContent = getDisplayContent m versionContent,
                  hasSources = (length srcs > 0), cs_isAssistant = isAssistant,
                  showLoader = shouldShowMessageLoader m isAssistant versionContent,
                  showMessageContent = shouldShowMessageContent m versionContent,
                  cs_sources = srcs, hasReasoning = False, reasoningContent = None\<rparr> in
      case rc of
        Some r \<Rightarrow> if r \<noteq> [] then base\<lparr>hasReasoning := True, reasoningContent := Some r\<rparr> else base
      | None \<Rightarrow> base)"

record message_action_state =
  as_content :: jstring
  as_hasContent :: bool
  as_isAssistant :: bool
  as_isLoading :: bool
  as_isUser :: bool

definition getMessageActionState :: "message \<Rightarrow> message_action_state" where
  "getMessageActionState m =
     \<lparr>as_content = getMessageContent m, as_hasContent = hasMessageContent m,
      as_isAssistant = (msg_from m = Assistant),
      as_isLoading = (status m = Some Loading \<or> status m = Some Streaming),
      as_isUser = (msg_from m = User)\<rparr>"

record message_editor_state =
  canSave :: bool
  hasChanged :: bool
  showSaveAndSubmit :: bool

definition getMessageEditorState :: "message \<Rightarrow> jstring \<Rightarrow> jstring \<Rightarrow> message_editor_state" where
  "getMessageEditorState m editText originalText =
     (let hasText = length (trim editText) > 0; changed = (editText \<noteq> originalText) in
      \<lparr>canSave = (hasText \<and> changed), hasChanged = changed,
       showSaveAndSubmit = (msg_from m = User)\<rparr>)"

datatype error_kind = GenericError | ModelPriceError

record message_error_state =
  es_content :: jstring
  es_kind :: error_kind
  showSettingsLink :: bool

definition isErrorMessage :: "message \<Rightarrow> bool" where
  "isErrorMessage m \<longleftrightarrow> status m = Some Failed"

definition getMessageErrorState :: "message \<Rightarrow> bool \<Rightarrow> message_error_state option" where
  "getMessageErrorState m isAdmin =
     (if \<not> isErrorMessage m then None
      else
        let cont = first_nonempty [Some (getMessageContent m), Some (js ''An unknown error occurred'')];
            isModelPriceError = (errorCode m = Some (JStr (js ''model_price_error''))) in
        Some \<lparr>es_content = cont,
              es_kind = (if isModelPriceError then ModelPriceError else GenericError),
              showSettingsLink = (isModelPriceError \<and> isAdmin)\<rparr>)"

section \<open>The request body\<close>

record playground_config =
  cfg_model :: jstring
  cfg_group :: jstring
  cfg_temperature :: decimal
  cfg_top_p :: decimal
  cfg_max_tokens :: decimal
  cfg_frequency_penalty :: decimal
  cfg_presence_penalty :: decimal
  cfg_seed :: "decimal option"
  cfg_stream :: bool

record parameter_enabled =
  en_temperature :: bool
  en_top_p :: bool
  en_max_tokens :: bool
  en_frequency_penalty :: bool
  en_presence_penalty :: bool
  en_seed :: bool

definition DEFAULT_CONFIG :: playground_config where
  "DEFAULT_CONFIG =
     \<lparr>cfg_model = js ''gpt-4o'', cfg_group = js ''default'', cfg_temperature = (7, -1), cfg_top_p = (1, 0),
      cfg_max_tokens = (4096, 0), cfg_frequency_penalty = (0, 0), cfg_presence_penalty = (0, 0), cfg_seed = None,
      cfg_stream = True\<rparr>"

definition DEFAULT_PARAMETER_ENABLED :: parameter_enabled where
  "DEFAULT_PARAMETER_ENABLED =
     \<lparr>en_temperature = True, en_top_p = True, en_max_tokens = False, en_frequency_penalty = True,
      en_presence_penalty = True, en_seed = False\<rparr>"

record chat_completion_request =
  req_model :: jstring
  req_group :: jstring
  req_messages :: "chat_completion_message list"
  req_stream :: bool
  req_temperature :: "decimal option"
  req_top_p :: "decimal option"
  req_max_tokens :: "decimal option"
  req_frequency_penalty :: "decimal option"
  req_presence_penalty :: "decimal option"
  req_seed :: "decimal option"

definition buildChatCompletionPayload ::
  "message list \<Rightarrow> playground_config \<Rightarrow> parameter_enabled \<Rightarrow> chat_completion_request" where
  "buildChatCompletionPayload messages config en =
     \<lparr>req_model = cfg_model config, req_group = cfg_group config,
      req_messages = map formatMessageForAPI (filter isValidMessage messages),
      req_stream = cfg_stream config,
      req_temperature = (if en_temperature en then Some (cfg_temperature config) else None),
      req_top_p = (if en_top_p en then Some (cfg_top_p config) else None),
      req_max_tokens = (if en_max_tokens en then Some (cfg_max_tokens config) else None),
      req_frequency_penalty =
        (if en_frequency_penalty en then Some (cfg_frequency_penalty config) else None),
      req_presence_penalty =
        (if en_presence_penalty en then Some (cfg_presence_penalty config) else None),
      req_seed = (if en_seed en \<and> cfg_seed config \<noteq> None then cfg_seed config else None)\<rparr>"

section \<open>Updaters of one message\<close>

text \<open>
  Every function the session hands to \<open>updateLastAssistantMessage\<close> keeps the key
  and the role of the message. What follows for the list is proved once here.
\<close>

locale message_updater =
  fixes upd :: "message \<Rightarrow> message"
  assumes upd_key: "msg_key (upd m) = msg_key m"
    and upd_from: "msg_from (upd m) = msg_from m"
begin

lemma update_last_keys: "map msg_key (updateLastAssistantMessage ms upd) = map msg_key ms"
  by (cases ms rule: rev_cases) (simp_all add: updateLastAssistantMessage_def upd_key list_update_append)

lemma update_last_roles: "map msg_from (updateLastAssistantMessage ms upd) = map msg_from ms"
  by (cases ms rule: rev_cases) (simp_all add: updateLastAssistantMessage_def upd_from list_update_append)

lemma update_last_butlast: "butlast (updateLastAssistantMessage ms upd) = butlast ms"
  by (cases ms rule: rev_cases) (simp_all add: updateLastAssistantMessage_def list_update_append)

end

lemma updateLast_snoc:
  "updateLastAssistantMessage (ms @ [m]) f = ms @ [if msg_from m = Assistant then f m else m]"
  by (simp add: updateLastAssistantMessage_def list_update_append)

lemma updateLast_Nil [simp]: "updateLastAssistantMessage [] f = []"
  by (simp add: updateLastAssistantMessage_def)

lemma updateLast_comp:
  assumes "\<And>m. msg_from (f m) = msg_from m"
  shows "updateLastAssistantMessage (updateLastAssistantMessage ms f) g =
    updateLastAssistantMessage ms (\<lambda>m. g (f m))"
  using assms by (cases ms rule: rev_cases) (auto simp: updateLast_snoc)

lemma processStreamingContent_frame [simp]:
  "msg_key (processStreamingContent t m c) = msg_key m"
  "msg_from (processStreamingContent t m c) = msg_from m"
  "status (processStreamingContent t m c) = status m"
  by (simp_all add: processStreamingContent_def Let_def)

lemma getMessageContent_process [simp]:
  "getMessageContent (processStreamingContent t m (Some c)) = getMessageContent m @ c"
  by (simp add: processStreamingContent_def Let_def) (simp add: getMessageContent_def)

lemma finalizeMessage_frame [simp]:
  "msg_key (finalizeMessage t1 t2 m a) = msg_key m"
  "msg_from (finalizeMessage t1 t2 m a) = msg_from m"
  "status (finalizeMessage t1 t2 m a) = status m"
  "isReasoningStreaming (finalizeMessage t1 t2 m a) = Some False"
  by (simp_all add: finalizeMessage_def Let_def)

interpretation chunk_upd: message_updater "\<lambda>m. applyStreamingChunk t1 t2 m ty c" for t1 t2 ty c
  by unfold_locales (simp_all add: applyStreamingChunk_def Let_def split: stream_chunk_type.split)

interpretation complete_upd: message_updater "completeAssistantMessage t1 t2 t3" for t1 t2 t3
  by unfold_locales (simp_all add: completeAssistantMessage_def)

interpretation error_upd: message_updater "error_update t e code ttl" for t e code ttl
  by unfold_locales (simp_all add: error_update_def)

interpretation response_upd: message_updater
  "\<lambda>m. case applyChatCompletionResponse t1 t2 t3 m resp of None \<Rightarrow> m | Some m' \<Rightarrow> m'" for t1 t2 t3 resp
  by unfold_locales
    (simp_all add: applyChatCompletionResponse_def applyChatCompletionChoice_def split: option.split)

section \<open>The text of a streamed message\<close>

text \<open>
  A chunk that starts with the whole text received so far counts as a snapshot and
  replaces it; any other chunk is appended.
\<close>

definition absorb :: "jstring \<Rightarrow> jstring \<Rightarrow> jstring" where
  "absorb cur chunk = (if cur = [] \<or> \<not> startsWith chunk cur then cur @ chunk else chunk)"

lemma append_appendable: "cur @ getAppendableChunk cur chunk = absorb cur chunk"
  by (auto simp: getAppendableChunk_def absorb_def startsWith_def prefix_def)

lemma content_chunk:
  "getMessageContent (applyStreamingChunk t1 t2 m ContentChunk c) =
     (if status m = Some Failed then getMessageContent m else absorb (getMessageContent m) c)"
  by (simp add: applyStreamingChunk_def Let_def append_appendable flip: getMessageContent_def)

lemma status_chunk:
  "status (applyStreamingChunk t1 t2 m ty c) = (if status m = Some Failed then Some Failed else Some Streaming)"
  by (cases ty) (simp_all add: applyStreamingChunk_def Let_def)

definition stream_content :: "message \<Rightarrow> (int \<times> int \<times> jstring) list \<Rightarrow> message" where
  "stream_content m cs = foldl (\<lambda>m (t1, t2, c). applyStreamingChunk t1 t2 m ContentChunk c) m cs"

lemma stream_content_simps [simp]:
  "stream_content m [] = m"
  "stream_content m (cs @ [(t1, t2, c)]) = applyStreamingChunk t1 t2 (stream_content m cs) ContentChunk c"
  by (simp_all add: stream_content_def)

lemma stream_status: "status m \<noteq> Some Failed \<Longrightarrow> status (stream_content m cs) \<noteq> Some Failed"
  by (induction cs rule: rev_induct) (auto simp: status_chunk split: prod.split)

lemma stream_from: "msg_from (stream_content m cs) = msg_from m"
  by (induction cs rule: rev_induct) (auto simp: chunk_upd.upd_from split: prod.split)

text \<open>No chunk repeats, at its start, everything received before it.\<close>

fun genuine_deltas :: "jstring \<Rightarrow> jstring list \<Rightarrow> bool" where
  "genuine_deltas acc [] \<longleftrightarrow> True"
| "genuine_deltas acc (c # cs) \<longleftrightarrow> (acc = [] \<or> \<not> startsWith c acc) \<and> genuine_deltas (acc @ c) cs"

text \<open>Every chunk is the whole text so far, longer or equal.\<close>

fun cumulative :: "jstring \<Rightarrow> jstring list \<Rightarrow> bool" where
  "cumulative acc [] \<longleftrightarrow> True"
| "cumulative acc (c # cs) \<longleftrightarrow> startsWith c acc \<and> cumulative c cs"

lemma stream_content_absorb:
  assumes "status m \<noteq> Some Failed"
  shows "getMessageContent (stream_content m cs) = foldl absorb (getMessageContent m) (map (snd \<circ> snd) cs)"
proof (induction cs rule: rev_induct)
  case (snoc x cs)
  obtain t1 t2 c where "x = (t1, t2, c)" by (metis prod_cases3)
  with snoc assms show ?case by (simp add: content_chunk stream_status)
qed simp

lemma foldl_absorb_deltas: "genuine_deltas acc cs \<Longrightarrow> foldl absorb acc cs = acc @ concat cs"
  by (induction cs arbitrary: acc) (simp_all add: absorb_def)

lemma absorb_snapshot: "startsWith c acc \<Longrightarrow> absorb acc c = c"
  by (simp add: absorb_def)

lemma foldl_absorb_cumulative: "cumulative acc cs \<Longrightarrow> foldl absorb acc cs = last (acc # cs)"
  by (induction cs arbitrary: acc) (simp_all add: absorb_snapshot)

section \<open>Finalising\<close>

lemma content_finalize: "getMessageContent (finalizeMessage t1 t2 m a) = visibleContent (parseThinkTags (getMessageContent m))"
  by (simp add: finalizeMessage_def Let_def) (simp add: getMessageContent_def parseThinkTags_def)

lemma r_content_complete [simp]:
  "map_option r_content (reasoning (completeReasoningTiming t m)) = map_option r_content (reasoning m)"
  by (simp add: completeReasoningTiming_def Let_def split: option.split)

definition some_nonempty :: "jstring \<Rightarrow> jstring option" where
  "some_nonempty s = (if s = [] then None else Some s)"

lemma untagged_reasoning: "\<not> str_includes s think_open \<Longrightarrow> think_reasoning (parseThinkTags s) = []"
  by (simp add: parseThinkTags_def)

lemma reasoning_finalize:
  "map_option r_content (reasoning (finalizeMessage t1 t2 m a)) =
     some_nonempty (first_nonempty [a, map_option r_content (reasoning m),
       Some (think_reasoning (parseThinkTags (getMessageContent m)))])"
proof -
  have "first_nonempty [a, map_option r_content (reasoning m),
      map_option think_reasoning (if str_includes s think_open then Some (parseThinkTags s) else None)] =
    first_nonempty [a, map_option r_content (reasoning m), Some (think_reasoning (parseThinkTags s))]" for s
    by (cases a; cases "reasoning m") (auto simp: untagged_reasoning)
  then show ?thesis
    by (simp add: finalizeMessage_def Let_def some_nonempty_def getMessageContent_def)
qed

text \<open>The reasoning after a content chunk: what the tags of the whole text give, or what was there.\<close>

lemma reasoning_process:
  "reasoning (processStreamingContent t m (Some c)) =
     (let r = think_reasoning (parseThinkTags (getMessageContent m @ c)) in
      if r \<noteq> [] then Some ((startReasoningTiming t m)\<lparr>r_content := r\<rparr>) else reasoning m)"
proof -
  let ?full = "getMessageContent m @ c"
  have full: "(case Some c of Some c \<Rightarrow> if c \<noteq> [] then version_content (getCurrentVersion m) @ c
      else version_content (getCurrentVersion m) | None \<Rightarrow> version_content (getCurrentVersion m)) = ?full"
    by (simp add: getMessageContent_def)
  show ?thesis
    unfolding processStreamingContent_def full Let_def by (auto simp: untagged_reasoning)
qed

lemma chunk_reasoning:
  assumes "status m \<noteq> Some Failed"
  shows "map_option r_content (reasoning (applyStreamingChunk t1 t2 m ContentChunk c)) =
    (let r = think_reasoning (parseThinkTags (absorb (getMessageContent m) c)) in
     if r \<noteq> [] then Some r else map_option r_content (reasoning m))"
proof -
  let ?p = "processStreamingContent t1 m (Some (getAppendableChunk (getMessageContent m) c))"
  have "map_option r_content (reasoning (applyStreamingChunk t1 t2 m ContentChunk c)) =
      map_option r_content (reasoning ?p)"
    using assms by (simp add: applyStreamingChunk_def Let_def flip: getMessageContent_def)
  then show ?thesis by (simp add: reasoning_process append_appendable Let_def)
qed

text \<open>A text without tags streams in without reasoning.\<close>

lemma stream_untagged:
  assumes "status m \<noteq> Some Failed" and "reasoning m = None"
    and "genuine_deltas (getMessageContent m) (map (snd \<circ> snd) cs)"
    and "\<not> str_includes (getMessageContent m @ concat (map (snd \<circ> snd) cs)) think_open"
  shows "reasoning (stream_content m cs) = None"
  using assms
proof (induction cs arbitrary: m)
  case (Cons x cs)
  obtain t1 t2 c where x: "x = (t1, t2, c)" by (metis prod_cases3)
  let ?m = "applyStreamingChunk t1 t2 m ContentChunk c"
  have c: "getMessageContent ?m = getMessageContent m @ c"
    using Cons.prems x by (auto simp: content_chunk absorb_def)
  have "\<not> str_includes (getMessageContent m @ c) think_open"
    using Cons.prems(4) x by (auto simp: str_includes_def intro: sublist_order.order_trans)
  then have "map_option r_content (reasoning ?m) = None"
    using Cons.prems x by (auto simp: chunk_reasoning untagged_reasoning absorb_def)
  moreover have "status ?m \<noteq> Some Failed" using Cons.prems(1) by (simp add: status_chunk)
  ultimately have "reasoning (stream_content ?m cs) = None"
    using Cons.prems(3,4) x c by (intro Cons.IH) auto
  then show ?case by (simp add: stream_content_def x)
qed simp

lemma stream_tagged:
  assumes "status m \<noteq> Some Failed" and "cs \<noteq> []"
    and "genuine_deltas (getMessageContent m) (map (snd \<circ> snd) cs)"
    and "think_reasoning (parseThinkTags (getMessageContent m @ concat (map (snd \<circ> snd) cs))) \<noteq> []"
  shows "map_option r_content (reasoning (stream_content m cs)) =
    Some (think_reasoning (parseThinkTags (getMessageContent m @ concat (map (snd \<circ> snd) cs))))"
proof -
  obtain ds t1 t2 c where cs: "cs = ds @ [(t1, t2, c)]"
    using assms(2) by (metis append_butlast_last_id prod_cases3)
  have "absorb (getMessageContent (stream_content m ds)) c = getMessageContent (stream_content m cs)"
    using stream_status [OF assms(1), of ds] by (simp add: cs content_chunk)
  also have "\<dots> = getMessageContent m @ concat (map (snd \<circ> snd) cs)"
    using assms(1,3) by (simp add: stream_content_absorb foldl_absorb_deltas)
  finally show ?thesis
    using chunk_reasoning [OF stream_status [OF assms(1)], of t1 t2 ds c] assms(4) by (simp add: cs Let_def)
qed

section \<open>Properties\<close>

text \<open>
  C16: streaming an answer and receiving it whole come to the same. The message starts without text and
  reasoning and has not failed, the answer has no reasoning field of its own, the chunks are genuine deltas
  (none starts with all the text before it), and the whole text has no think tag or reasoning in its
  tags. Then the completed message has the same content, reasoning and status as the message built from
  the whole answer at once.
\<close>

theorem streamed_equals_whole:
  assumes "status m \<noteq> Some Failed" and "reasoning m = None" and "getMessageContent m = []"
    and "genuine_deltas [] (map (snd \<circ> snd) cs)"
    and "whole = concat (map (snd \<circ> snd) cs)"
    and "str_includes whole think_open \<Longrightarrow> think_reasoning (parseThinkTags whole) \<noteq> []"
  shows "let streamed = completeAssistantMessage t1 t2 t3 (stream_content m cs);
             direct = applyChatCompletionChoice t4 t5 t6 m
               \<lparr>choice_content = Some whole, choice_reasoning = None\<rparr> in
         getMessageContent streamed = getMessageContent direct \<and>
         map_option r_content (reasoning streamed) = map_option r_content (reasoning direct) \<and>
         status streamed = status direct"
proof -
  have w: "getMessageContent (stream_content m cs) = whole"
    using assms(1,3-5) by (simp add: stream_content_absorb foldl_absorb_deltas)
  have w': "first_nonempty [Some whole] = whole" by simp
  let ?rt = "think_reasoning (parseThinkTags whole)"
  have "some_nonempty (first_nonempty [None, map_option r_content (reasoning (stream_content m cs)), Some ?rt])
      = some_nonempty ?rt"
  proof (cases "str_includes whole think_open")
    case True
    then have "?rt \<noteq> []" and "cs \<noteq> []"
      using assms(5,6) by (auto simp: str_includes_def js_eval)
    then have "map_option r_content (reasoning (stream_content m cs)) = Some ?rt"
      using stream_tagged [of m cs] assms(1,3-5) by simp
    then show ?thesis using \<open>?rt \<noteq> []\<close> by auto
  next
    case False
    then have "reasoning (stream_content m cs) = None"
      using assms by (intro stream_untagged) auto
    then show ?thesis by simp
  qed
  then show ?thesis
    by (simp add: Let_def completeAssistantMessage_def applyChatCompletionChoice_def content_finalize
        reasoning_finalize w w' assms(2) del: first_nonempty.simps) (simp add: some_nonempty_def)
qed

lemma streamed_equals_whole_witness:
  "let m = createLoadingAssistantMessage (js ''k'') (js ''v'') 0;
       streamed = completeAssistantMessage 9 9 9
         (stream_content m [(1, 1, js ''<thi''), (2, 2, js ''nk>why</think>''), (3, 3, js ''yes'')]);
       direct = applyChatCompletionChoice 4 5 6 m
         \<lparr>choice_content = Some (js ''<think>why</think>yes''), choice_reasoning = None\<rparr> in
   getMessageContent streamed = getMessageContent direct \<and>
   map_option r_content (reasoning streamed) = map_option r_content (reasoning direct) \<and>
   status streamed = status direct \<and> getMessageContent direct = js ''yes''"
proof -
  let ?m = "createLoadingAssistantMessage (js ''k'') (js ''v'') 0"
  let ?cs = "[(1, 1, js ''<thi''), (2, 2, js ''nk>why</think>''), (3, 3, js ''yes'')] :: (int \<times> int \<times> jstring) list"
  have a: "status ?m \<noteq> Some Failed" "reasoning ?m = None" "getMessageContent ?m = []"
    by code_simp+
  have d: "genuine_deltas [] (map (snd \<circ> snd) ?cs)" by code_simp
  have w: "js ''<think>why</think>yes'' = concat (map (snd \<circ> snd) ?cs)" by code_simp
  have n: "think_reasoning (parseThinkTags (js ''<think>why</think>yes'')) \<noteq> []" by code_simp
  have y: "getMessageContent (applyChatCompletionChoice 4 5 6 ?m
      \<lparr>choice_content = Some (js ''<think>why</think>yes''), choice_reasoning = None\<rparr>) = js ''yes''"
    by code_simp
  from streamed_equals_whole [OF a d w n, of 9 9 9 4 5 6, unfolded Let_def] y
  show ?thesis unfolding Let_def by blast
qed

text \<open>
  the two kinds of stream are both assembled. From genuine deltas the text is
  their concatenation; from cumulative snapshots it is the last snapshot.
\<close>

theorem stream_assembles_text:
  assumes "status m \<noteq> Some Failed"
  shows "(genuine_deltas (getMessageContent m) (map (snd \<circ> snd) cs) \<longrightarrow>
      getMessageContent (stream_content m cs) = getMessageContent m @ concat (map (snd \<circ> snd) cs)) \<and>
    (cumulative (getMessageContent m) (map (snd \<circ> snd) cs) \<longrightarrow>
      getMessageContent (stream_content m cs) = last (getMessageContent m # map (snd \<circ> snd) cs))"
  using stream_content_absorb [OF assms] foldl_absorb_deltas foldl_absorb_cumulative by simp

lemma stream_assembles_text_witness:
  "let m = createLoadingAssistantMessage (js ''k'') (js ''v'') 0 in
   getMessageContent (stream_content m [(1, 1, js ''ab''), (2, 2, js ''cd'')]) = js ''abcd'' \<and>
   getMessageContent (stream_content m [(1, 1, js ''ab''), (2, 2, js ''abcd'')]) = js ''abcd''"
proof -
  let ?m = "createLoadingAssistantMessage (js ''k'') (js ''v'') 0"
  have a: "status ?m \<noteq> Some Failed" by code_simp
  have "genuine_deltas (getMessageContent ?m) (map (snd \<circ> snd)
      [(1 :: int, 1 :: int, js ''ab''), (2, 2, js ''cd'')])" by code_simp
  moreover have "cumulative (getMessageContent ?m) (map (snd \<circ> snd)
      [(1 :: int, 1 :: int, js ''ab''), (2, 2, js ''abcd'')])" by code_simp
  moreover have "getMessageContent ?m = []" by code_simp
  ultimately show ?thesis
    using stream_assembles_text [OF a, of "[(1, 1, js ''ab''), (2, 2, js ''cd'')]"]
      stream_assembles_text [OF a, of "[(1, 1, js ''ab''), (2, 2, js ''abcd'')]"]
    by (simp add: Let_def js_eval)
qed

text \<open>
  a delta that repeats the whole text received so far is lost: it is taken for
  a snapshot, and the text does not grow.
\<close>

theorem repeated_delta_lost:
  assumes "getMessageContent m = c"
  shows "getMessageContent (applyStreamingChunk t1 t2 m ContentChunk c) = c"
  using assms by (auto simp: content_chunk absorb_def startsWith_def)

lemma repeated_delta_lost_witness:
  "let m = (createLoadingAssistantMessage (js ''k'') (js ''v'') 0)
             \<lparr>versions := [createMessageVersion (js ''v'') (js ''ha'')]\<rparr> in
   getMessageContent (applyStreamingChunk 1 1 m ContentChunk (js ''ha'')) = js ''ha''"
proof -
  have "getMessageContent ((createLoadingAssistantMessage (js ''k'') (js ''v'') 0)
      \<lparr>versions := [createMessageVersion (js ''v'') (js ''ha'')]\<rparr>) = js ''ha''" by code_simp
  from repeated_delta_lost [OF this] show ?thesis by (simp add: Let_def)
qed

text \<open>
  An empty think block whose closing tag arrives in two chunks leaves the half tag
  behind as reasoning, which the same text received whole does not have.
\<close>

lemma split_closing_tag_leaves_reasoning:
  "let m = createLoadingAssistantMessage (js ''k'') (js ''v'') 0;
       streamed = completeAssistantMessage 9 9 9
         (stream_content m [(1, 1, js ''<think></thi''), (2, 2, js ''nk>yes'')]);
       direct = applyChatCompletionChoice 4 5 6 m
         \<lparr>choice_content = Some (js ''<think></think>yes''), choice_reasoning = None\<rparr> in
   map_option r_content (reasoning streamed) = Some (js ''</thi'') \<and> reasoning direct = None"
  by code_simp

text \<open>
  what finalising leaves: the visible text of the message, the reasoning of the
  answer if it has any, else the streamed one, else the one between the tags, and
  no open reasoning.
\<close>

theorem finalizeMessage_result:
  "getMessageContent (finalizeMessage t1 t2 m a) = visibleContent (parseThinkTags (getMessageContent m)) \<and>
   map_option r_content (reasoning (finalizeMessage t1 t2 m a)) =
     some_nonempty (first_nonempty [a, map_option r_content (reasoning m),
       Some (think_reasoning (parseThinkTags (getMessageContent m)))]) \<and>
   isReasoningStreaming (finalizeMessage t1 t2 m a) = Some False \<and>
   status (finalizeMessage t1 t2 m a) = status m \<and>
   msg_key (finalizeMessage t1 t2 m a) = msg_key m"
  by (simp add: content_finalize reasoning_finalize)

text \<open>What becomes of a message that was cut off: completed if there is something to show, else an error.\<close>

definition repaired :: "(jstring \<Rightarrow> jstring) \<Rightarrow> message \<Rightarrow> message \<Rightarrow> bool" where
  "repaired tr m m' \<longleftrightarrow>
     (let shown = visibleContent (parseThinkTags (getMessageContent m));
          thought = first_nonempty [map_option r_content (reasoning m),
            Some (think_reasoning (parseThinkTags (getMessageContent m)))] in
      msg_key m' = msg_key m \<and> msg_from m' = msg_from m \<and>
      (if trim shown \<noteq> [] \<or> trim thought \<noteq> []
       then status m' = Some Completed \<and> getMessageContent m' = shown
       else status m' = Some Failed \<and> getMessageContent m' = tr API_REQUEST_ERROR @ js '': '' @ tr INTERRUPTED))"

lemma trim_reasoning:
  "(case reasoning (finalizeMessage t1 t2 m None) of None \<Rightarrow> False | Some r \<Rightarrow> trim (r_content r) \<noteq> []) \<longleftrightarrow>
     trim (first_nonempty [map_option r_content (reasoning m),
       Some (think_reasoning (parseThinkTags (getMessageContent m)))]) \<noteq> []"
  using reasoning_finalize [of t1 t2 m None]
  by (cases "reasoning (finalizeMessage t1 t2 m None)") (auto simp: some_nonempty_def split: if_splits)

lemma sanitize_step:
  assumes "last_index (\<lambda>m. isPendingAssistantMessage (Some m)) ms (length ms) = Some i"
  obtains m' where "sanitizeMessagesOnLoad tr t1 t2 t3 ms = ms[i := m']" "repaired tr (ms ! i) m'"
proof (rule that)
  let ?fin = "finalizeMessage t1 t2 (ms ! i) None"
  let ?ok = "hasMessageContent ?fin \<or>
    (case reasoning ?fin of None \<Rightarrow> False | Some r \<Rightarrow> trim (r_content r) \<noteq> [])"
  let ?m = "if ?ok then
      completeAssistantTiming t3 (?fin\<lparr>status := Some Completed, isReasoningStreaming := Some False\<rparr>)
    else completeAssistantTiming t3
      ((updateCurrentVersionContent ?fin (tr API_REQUEST_ERROR @ js '': '' @ tr INTERRUPTED))
        \<lparr>status := Some Failed, isReasoningStreaming := Some False\<rparr>)"
  show "sanitizeMessagesOnLoad tr t1 t2 t3 ms = ms[i := ?m]"
    by (simp only: sanitizeMessagesOnLoad_def assms option.case Let_def)
  have "getMessageContent (?fin\<lparr>status := a, isReasoningStreaming := b\<rparr>) = getMessageContent ?fin" for a b
    by (simp add: getMessageContent_def getCurrentVersion_def)
  then show "repaired tr (ms ! i) ?m"
    by (simp add: repaired_def Let_def hasMessageContent_def content_finalize trim_reasoning del: first_nonempty.simps)
qed

lemma repaired_not_pending: "repaired tr m m' \<Longrightarrow> \<not> isPendingAssistantMessage (Some m')"
  by (auto simp: repaired_def Let_def isPendingAssistantMessage_def isAssistantMessagePending_def split: if_splits)


section \<open>Properties of the conversation\<close>

lemma find_index_SomeD:
  "find_index P xs = Some i \<Longrightarrow> i < length xs \<and> P (xs ! i) \<and> (\<forall>j < i. \<not> P (xs ! j))"
proof (induction xs arbitrary: i)
  case (Cons x xs)
  show ?case
  proof (cases "P x")
    case False
    with Cons.prems obtain k where "find_index P xs = Some k" "i = Suc k" by auto
    with Cons.IH [of k] False show ?thesis by (auto simp: less_Suc_eq_0_disj)
  qed (use Cons.prems in simp)
qed simp

lemma find_index_None_iff: "find_index P xs = None \<longleftrightarrow> (\<forall>x \<in> set xs. \<not> P x)"
  by (induction xs) auto

lemma loading_not_valid [simp]: "\<not> isValidMessage (createLoadingAssistantMessage k v t)"
  by (simp add: isValidMessage_def createLoadingAssistantMessage_def bare_message_def
      hasMessageContent_def getMessageContent_def getCurrentVersion_def createMessageVersion_def)

lemma user_valid [simp]: "isValidMessage (createUserMessage k v s t)"
  by (simp add: isValidMessage_def createUserMessage_def bare_message_def)

lemma format_user: "formatMessageForAPI (createUserMessage k v s t) = \<lparr>ccm_role = User, ccm_content = Plain s\<rparr>"
  by (simp add: formatMessageForAPI_def createUserMessage_def bare_message_def getCurrentVersion_def
      createMessageVersion_def)

text \<open>
  sending a text puts it at the end of the request: the body holds the earlier
  valid messages in order, then the user's text, and never the placeholder of the
  answer that is awaited.
\<close>

theorem sent_payload_ends_with_text:
  "req_messages (buildChatCompletionPayload (appendUserMessagePair t ids1 ids2 ms s) config en) =
     req_messages (buildChatCompletionPayload ms config en) @ [\<lparr>ccm_role = User, ccm_content = Plain s\<rparr>]"
  by (simp add: buildChatCompletionPayload_def appendUserMessagePair_def format_user)

lemma find_index_key:
  assumes "distinct (map msg_key ms)" "i < length ms"
  shows "find_index (\<lambda>m. msg_key m = msg_key (ms ! i)) ms = Some i"
proof (cases "find_index (\<lambda>m. msg_key m = msg_key (ms ! i)) ms")
  case None
  with assms(2) show ?thesis by (auto simp: find_index_None_iff dest: nth_mem)
next
  case (Some j)
  then have "j < length ms" "msg_key (ms ! j) = msg_key (ms ! i)" using find_index_SomeD by fastforce+
  with assms have "j = i" using nth_eq_iff_index_eq [of "map msg_key ms" j i] by simp
  with Some show ?thesis by simp
qed

lemma map_update_key:
  assumes "distinct (map msg_key ms)" "i < length ms"
  shows "map (\<lambda>m. if msg_key m = msg_key (ms ! i) then f m else m) ms = ms[i := f (ms ! i)]"
proof (rule nth_equalityI)
  fix j assume "j < length (map (\<lambda>m. if msg_key m = msg_key (ms ! i) then f m else m) ms)"
  then show "map (\<lambda>m. if msg_key m = msg_key (ms ! i) then f m else m) ms ! j = ms[i := f (ms ! i)] ! j"
    using assms nth_eq_iff_index_eq [of "map msg_key ms" j i] by (simp add: nth_list_update)
qed simp

lemma take_Suc_update: "i < length xs \<Longrightarrow> take (Suc i) (xs[i := y]) = take i xs @ [y]"
  by (simp add: take_Suc_conv_app_nth)

text \<open>
  editing a user message and submitting it restarts the conversation there: the
  request holds what came before the message and then the edited text, everything
  after it is dropped, and a loading answer is appended.
\<close>

theorem edit_and_submit:
  assumes "distinct (map msg_key ms)" and "i < length ms" and "msg_from (ms ! i) = User"
  shows "\<exists>r. applyMessageEdit t ids ms (msg_key (ms ! i)) s True = Some r \<and> shouldSend r \<and>
    req_messages (buildChatCompletionPayload (edit_messages r) config en) =
      req_messages (buildChatCompletionPayload (take i ms) config en) @ [\<lparr>ccm_role = User, ccm_content = Plain s\<rparr>] \<and>
    length (edit_messages r) = i + 2 \<and>
    last (edit_messages r) = createLoadingAssistantMessage (fst ids) (snd ids) t"
proof -
  let ?e = "(updateCurrentVersionContent (ms ! i) s)\<lparr>createdAt := Some t\<rparr>"
  let ?l = "createLoadingAssistantMessage (fst ids) (snd ids) t"
  have "applyMessageEdit t ids ms (msg_key (ms ! i)) s True =
      Some \<lparr>edit_messages = take i ms @ [?e, ?l], shouldSend = True\<rparr>"
    using assms
    by (simp add: applyMessageEdit_def find_index_key Let_def map_update_key take_Suc_update)
  moreover have "isValidMessage ?e" "formatMessageForAPI ?e = \<lparr>ccm_role = User, ccm_content = Plain s\<rparr>"
    using assms(3) by (simp_all add: isValidMessage_def formatMessageForAPI_def getCurrentVersion_def)
  ultimately show ?thesis
    using assms(2) by (simp add: buildChatCompletionPayload_def)
qed

lemma edit_and_submit_witness:
  "let ms = [createUserMessage (js ''a'') (js ''b'') (js ''old'') 1,
             createLoadingAssistantMessage (js ''c'') (js ''d'') 1] in
   \<exists>r. applyMessageEdit 5 (js ''e'', js ''f'') ms (js ''a'') (js ''new'') True = Some r \<and> shouldSend r \<and>
     length (edit_messages r) = 2"
proof -
  let ?ms = "[createUserMessage (js ''a'') (js ''b'') (js ''old'') 1,
    createLoadingAssistantMessage (js ''c'') (js ''d'') 1]"
  have k: "distinct (map msg_key ?ms)" "0 < length ?ms" "msg_from (?ms ! 0) = User"
    and a: "msg_key (?ms ! 0) = js ''a''"
    by (simp_all add: createUserMessage_def createLoadingAssistantMessage_def bare_message_def)
  show ?thesis
    using edit_and_submit [OF k, of 5 "(js ''e'', js ''f'')" "js ''new''"] unfolding a Let_def by (simp add: eval_nat_numeral) blast
qed

text \<open>
  regenerating restarts the conversation at a message: an answer is dropped
  with everything after it, a user message is kept, and the request is the one the
  remaining messages give.
\<close>

theorem regenerate_request:
  assumes "distinct (map msg_key ms)" and "i < length ms"
  shows "\<exists>r. createRegeneratedMessages t ids ms (msg_key (ms ! i)) = Some r \<and>
    req_messages (buildChatCompletionPayload r config en) =
      req_messages (buildChatCompletionPayload
        (take (if msg_from (ms ! i) = User then i + 1 else i) ms) config en) \<and>
    last r = createLoadingAssistantMessage (fst ids) (snd ids) t"
  using assms by (simp add: createRegeneratedMessages_def find_index_key buildChatCompletionPayload_def)

lemma regenerate_request_witness:
  "let ms = [createUserMessage (js ''a'') (js ''b'') (js ''hi'') 1,
             createLoadingAssistantMessage (js ''c'') (js ''d'') 1] in
   \<exists>r. createRegeneratedMessages 5 (js ''e'', js ''f'') ms (js ''c'') = Some r \<and>
     last r = createLoadingAssistantMessage (js ''e'') (js ''f'') 5"
proof -
  let ?ms = "[createUserMessage (js ''a'') (js ''b'') (js ''hi'') 1,
    createLoadingAssistantMessage (js ''c'') (js ''d'') 1]"
  have k: "distinct (map msg_key ?ms)" "1 < length ?ms" and a: "msg_key (?ms ! 1) = js ''c''"
    by (simp_all add: createUserMessage_def createLoadingAssistantMessage_def bare_message_def)
  show ?thesis
    using regenerate_request [OF k, of 5 "(js ''e'', js ''f'')"] unfolding a Let_def by auto
qed

end
