(* ===== verification/Chat_Session.thy ===== *)
theory Chat_Session
  imports Chat_Streaming
begin

text \<open>
  A playground session as a state machine: \<open>hooks/use-chat-handler.ts\<close>,
  \<open>hooks/use-stream-request.ts\<close>, \<open>hooks/use-playground-conversation.ts\<close> and the pure
  functions they call (\<open>lib/streaming/stream-utils.ts\<close>,
  \<open>lib/streaming/request-error-utils.ts\<close>).

  The refs and states of the hooks are the fields of one record. An event is a click of the
  user, the flush timer, an event of the stream (sse.js) or the settlement of a
  non-streamed request; \<open>handle\<close> is the handler of an event. A stream and an
  \<open>AbortController\<close> are named by a number. \<open>clk\<close> gives the readings of \<open>Date.now()\<close>
  of one event in the order the handler takes them, \<open>tr\<close> is the translation function.

  What is relied on of sse.js is in \<open>enabled\<close>: a source that was closed delivers nothing
  more. The events a source dispatches from inside \<open>close()\<close> are not modelled.
  An event sees the state the previous event left (React has rendered in between).
\<close>

section \<open>Reading what the stream delivers\<close>

definition STREAM_DONE_MESSAGE :: jstring where
  "STREAM_DONE_MESSAGE = js ''[DONE]''"

definition STREAM_CLOSED_READY_STATE :: nat where
  "STREAM_CLOSED_READY_STATE = 2"

record stream_error_details =
  errorCode_of :: "jsval option"
  errorMessage_of :: jsval

definition parseStreamErrorDetails :: "jstring option \<Rightarrow> stream_error_details" where
  "parseStreamErrorDetails data =
     (let fallbackMessage = (case data of Some d \<Rightarrow> if d \<noteq> [] then d else API_REQUEST_ERROR
                             | None \<Rightarrow> API_REQUEST_ERROR);
          fallback = \<lparr>errorCode_of = None, errorMessage_of = JStr fallbackMessage\<rparr> in
      case data of
        None \<Rightarrow> fallback
      | Some d \<Rightarrow>
          if d = [] then fallback
          else
            case JSON_parse d of
              None \<Rightarrow> fallback
            | Some parsed \<Rightarrow>
                (case first_truthy [member (Some parsed) (js ''error'')] of
                   None \<Rightarrow> fallback
                 | Some e \<Rightarrow>
                     \<lparr>errorCode_of = first_truthy [member (Some e) (js ''code'')],
                      errorMessage_of =
                        (case first_truthy [member (Some e) (js ''message'')] of
                           Some m \<Rightarrow> m | None \<Rightarrow> JStr fallbackMessage)\<rparr>))"

type_synonym stream_message_update = "stream_chunk_type \<times> jsval"

definition parseStreamMessageUpdates :: "jstring \<Rightarrow> js_error + stream_message_update list" where
  "parseStreamMessageUpdates data =
     (case JSON_parse data of
        None \<Rightarrow> Inl SyntaxError
      | Some chunk \<Rightarrow>
          if chunk = JNull then Inl TypeError
          else
            case first_truthy [member (index0 (member (Some chunk) (js ''choices''))) (js ''delta'')] of
              None \<Rightarrow> Inr []
            | Some delta \<Rightarrow>
                Inr ((case first_truthy [member (Some delta) (js ''reasoning_content'')] of
                        Some r \<Rightarrow> [(ReasoningChunk, r)] | None \<Rightarrow> []) @
                     (case first_truthy [member (Some delta) (js ''content'')] of
                        Some c \<Rightarrow> [(ContentChunk, c)] | None \<Rightarrow> [])))"

definition isStreamDoneMessage :: "jstring \<Rightarrow> bool" where
  "isStreamDoneMessage data \<longleftrightarrow> data = STREAM_DONE_MESSAGE"

definition isStreamClosedReadyState :: "nat option \<Rightarrow> bool" where
  "isStreamClosedReadyState readyState \<longleftrightarrow> readyState = Some STREAM_CLOSED_READY_STATE"

text \<open>The states and HTTP status are numbers a browser gives: naturals.\<close>

definition getStreamReadyStateError :: "nat option \<Rightarrow> nat option \<Rightarrow> jstring option" where
  "getStreamReadyStateError eventReadyState st =
     (case (eventReadyState, st) of
        (Some rs, Some code) \<Rightarrow>
          if rs \<ge> STREAM_CLOSED_READY_STATE \<and> code \<noteq> 200
          then Some (js ''HTTP '' @ nat_str code @ js '': '' @ CONNECTION_CLOSED)
          else None
      | _ \<Rightarrow> None)"

text \<open>The value a rejected request is rejected with, as far as it is read.\<close>

definition parseRequestErrorDetails :: "jsval option \<Rightarrow> stream_error_details" where
  "parseRequestErrorDetails err =
     (let data = member (member err (js ''response'')) (js ''data'') in
      \<lparr>errorCode_of = first_truthy [member (member data (js ''error'')) (js ''code'')],
       errorMessage_of =
         (case first_truthy [member data (js ''message''), member err (js ''message'')] of
            Some m \<Rightarrow> m | None \<Rightarrow> JStr API_REQUEST_ERROR)\<rparr>)"

section \<open>The state\<close>

datatype sent_request =
    StreamRequest nat chat_completion_request
  | PlainRequest nat chat_completion_request

record session =
  config :: playground_config
  parameterEnabled :: parameter_enabled
  messages :: "message list"
  editingMessageKey :: "jstring option"
  pendingContent :: jstring
  pendingReasoning :: jstring
  flushTimer :: bool
  isRequesting :: bool
  requestId :: nat
  abortController :: "nat option"
  aborted :: "nat list"
  sseSource :: "nat option"
  isStreamComplete :: bool
  isStreaming :: bool
  sourceCount :: nat
  closedSources :: "nat list"
  settled :: "nat list"
  sent :: "sent_request list"
  toasts :: "jstring list"

definition isGenerating :: "session \<Rightarrow> bool" where
  "isGenerating s \<longleftrightarrow> isStreaming s \<or> isRequesting s"

section \<open>The chat handler\<close>

definition KNOWN_ERROR_MESSAGES :: "jstring list" where
  "KNOWN_ERROR_MESSAGES =
     [API_REQUEST_ERROR, NETWORK_ERROR, PARSE_ERROR, STREAM_START_ERROR, CONNECTION_CLOSED, INTERRUPTED]"

text \<open>
  \<open>currentChunk + nextChunk\<close> turns \<open>nextChunk\<close> into a string; \<open>nextChunk.startsWith\<close> is
  no function when it is none.
\<close>

definition mergePendingStreamChunk :: "jstring \<Rightarrow> jsval \<Rightarrow> js_error + jstring" where
  "mergePendingStreamChunk currentChunk nextChunk =
     (if currentChunk = [] then Inr (currentChunk @ to_string nextChunk)
      else
        case nextChunk of
          JStr n \<Rightarrow> Inr (if \<not> startsWith n currentChunk then currentChunk @ n else n)
        | _ \<Rightarrow> Inl TypeError)"

definition flush_message :: "(nat \<Rightarrow> int) \<Rightarrow> jstring \<Rightarrow> jstring \<Rightarrow> message \<Rightarrow> message" where
  "flush_message clk pc pr m =
     (let m1 = (if pr \<noteq> [] then applyStreamingChunk (clk 0) (clk 1) m ReasoningChunk pr else m) in
      if pc \<noteq> [] then applyStreamingChunk (clk 2) (clk 3) m1 ContentChunk pc else m1)"

definition flushStreamUpdates :: "(nat \<Rightarrow> int) \<Rightarrow> session \<Rightarrow> session" where
  "flushStreamUpdates clk s =
     (let s1 = s\<lparr>flushTimer := False\<rparr> in
      if pendingReasoning s = [] \<and> pendingContent s = [] then s1
      else
        s1\<lparr>pendingContent := [], pendingReasoning := [],
           messages := updateLastAssistantMessage (messages s)
             (flush_message clk (pendingContent s) (pendingReasoning s))\<rparr>)"

definition scheduleStreamFlush :: "session \<Rightarrow> session" where
  "scheduleStreamFlush s = (if flushTimer s then s else s\<lparr>flushTimer := True\<rparr>)"

definition getDisplayError :: "(jstring \<Rightarrow> jstring) \<Rightarrow> jstring \<Rightarrow> jstring" where
  "getDisplayError tr err =
     (if err \<in> set KNOWN_ERROR_MESSAGES then tr err
      else if endsWith err (js '': '' @ CONNECTION_CLOSED) then
        take (length err - length CONNECTION_CLOSED) err @ tr CONNECTION_CLOSED
      else err)"

definition handleStreamUpdate :: "stream_chunk_type \<Rightarrow> jsval \<Rightarrow> session \<Rightarrow> js_error + session" where
  "handleStreamUpdate ty chunk s =
     (case mergePendingStreamChunk
        (case ty of ReasoningChunk \<Rightarrow> pendingReasoning s | ContentChunk \<Rightarrow> pendingContent s) chunk of
        Inl e \<Rightarrow> Inl e
      | Inr merged \<Rightarrow>
          Inr (scheduleStreamFlush
            (case ty of ReasoningChunk \<Rightarrow> s\<lparr>pendingReasoning := merged\<rparr>
             | ContentChunk \<Rightarrow> s\<lparr>pendingContent := merged\<rparr>)))"

definition handleStreamComplete :: "(nat \<Rightarrow> int) \<Rightarrow> session \<Rightarrow> session" where
  "handleStreamComplete clk s =
     (let s1 = (flushStreamUpdates clk s)\<lparr>isRequesting := False\<rparr> in
      s1\<lparr>messages := updateLastAssistantMessage (messages s1)
          (\<lambda>m. if isAssistantMessageFinal m then m
               else completeAssistantMessage (clk 4) (clk 5) (clk 6) m)\<rparr>)"

text \<open>
  The flag says that the handler threw: \<open>getDisplayError\<close> calls \<open>endsWith\<close> on the error, which
  only a string has.
\<close>

definition handleStreamError ::
  "(jstring \<Rightarrow> jstring) \<Rightarrow> (nat \<Rightarrow> int) \<Rightarrow> jsval \<Rightarrow> jsval option \<Rightarrow> session \<Rightarrow> session \<times> bool" where
  "handleStreamError tr clk err code s =
     (let s1 = (flushStreamUpdates clk s)\<lparr>isRequesting := False\<rparr> in
      case err of
        JStr e \<Rightarrow>
          let displayError = getDisplayError tr e in
          (s1\<lparr>toasts := toasts s1 @ [displayError],
              messages := updateAssistantMessageWithError (clk 4) (messages s1) displayError code
                (tr API_REQUEST_ERROR)\<rparr>, False)
      | _ \<Rightarrow> (s1, True))"

section \<open>The stream request\<close>

definition closeActiveStream :: "nat option \<Rightarrow> session \<Rightarrow> session" where
  "closeActiveStream source s =
     (let streamSource = (case source of Some x \<Rightarrow> Some x | None \<Rightarrow> sseSource s);
          s1 = s\<lparr>closedSources :=
                  (case streamSource of Some x \<Rightarrow> x # closedSources s | None \<Rightarrow> closedSources s)\<rparr> in
      if source = None \<or> sseSource s = source then s1\<lparr>sseSource := None, isStreaming := False\<rparr> else s1)"

definition stream_handleError ::
  "(jstring \<Rightarrow> jstring) \<Rightarrow> (nat \<Rightarrow> int) \<Rightarrow> nat \<Rightarrow> jsval \<Rightarrow> jsval option \<Rightarrow> session \<Rightarrow> session" where
  "stream_handleError tr clk source err code s =
     (if isStreamComplete s then s
      else
        let (s1, thrown) = handleStreamError tr clk err code s in
        if thrown then s1 else closeActiveStream (Some source) s1)"

text \<open>The session with a new source as its stream; the source before it is closed.\<close>

definition open_stream :: "session \<Rightarrow> session" where
  "open_stream s =
     s\<lparr>closedSources := (case sseSource s of Some x \<Rightarrow> x # closedSources s | None \<Rightarrow> closedSources s),
       sourceCount := sourceCount s + 1,
       sseSource := Some (sourceCount s), isStreamComplete := False, isStreaming := True\<rparr>"

text \<open>\<open>starts\<close> is false when \<open>source.stream()\<close> throws.\<close>

definition sendStreamRequest ::
  "(jstring \<Rightarrow> jstring) \<Rightarrow> (nat \<Rightarrow> int) \<Rightarrow> bool \<Rightarrow> chat_completion_request \<Rightarrow> session \<Rightarrow> session" where
  "sendStreamRequest tr clk starts payload s =
     (let source = sourceCount s;
          s1 = open_stream s in
      if starts then s1\<lparr>sent := sent s1 @ [StreamRequest source payload]\<rparr>
      else closeActiveStream (Some source) (fst (handleStreamError tr clk (JStr STREAM_START_ERROR) None s1)))"

text \<open>The loop over the updates; the second component is the error that ended it, if any.\<close>

fun apply_updates :: "stream_message_update list \<Rightarrow> session \<Rightarrow> session \<times> js_error option" where
  "apply_updates [] s = (s, None)"
| "apply_updates ((ty, chunk) # us) s =
     (case handleStreamUpdate ty chunk s of
        Inl e \<Rightarrow> (s, Some e)
      | Inr s' \<Rightarrow> apply_updates us s')"

definition on_message :: "(jstring \<Rightarrow> jstring) \<Rightarrow> (nat \<Rightarrow> int) \<Rightarrow> nat \<Rightarrow> jstring \<Rightarrow> session \<Rightarrow> session" where
  "on_message tr clk source data s =
     (if isStreamDoneMessage data then
        handleStreamComplete clk (closeActiveStream (Some source) (s\<lparr>isStreamComplete := True\<rparr>))
      else
        let (s1, failure) =
          (case parseStreamMessageUpdates data of Inl e \<Rightarrow> (s, Some e) | Inr us \<Rightarrow> apply_updates us s) in
        if failure = None then s1 else stream_handleError tr clk source (JStr PARSE_ERROR) None s1)"

definition on_error ::
  "(jstring \<Rightarrow> jstring) \<Rightarrow> (nat \<Rightarrow> int) \<Rightarrow> nat \<Rightarrow> nat option \<Rightarrow> jstring option \<Rightarrow> session \<Rightarrow> session" where
  "on_error tr clk source readyState data s =
     (if isStreamClosedReadyState readyState then s
      else
        let d = parseStreamErrorDetails data in
        stream_handleError tr clk source (errorMessage_of d) (errorCode_of d) s)"

definition on_readystatechange ::
  "(jstring \<Rightarrow> jstring) \<Rightarrow> (nat \<Rightarrow> int) \<Rightarrow> nat \<Rightarrow> nat option \<Rightarrow> nat option \<Rightarrow> session \<Rightarrow> session" where
  "on_readystatechange tr clk source readyState st s =
     (case getStreamReadyStateError readyState st of
        None \<Rightarrow> s
      | Some e \<Rightarrow> if e = [] then s else stream_handleError tr clk source (JStr e) None s)"

section \<open>Sending and stopping\<close>

definition sendStreamingChat ::
  "(jstring \<Rightarrow> jstring) \<Rightarrow> (nat \<Rightarrow> int) \<Rightarrow> bool \<Rightarrow> message list \<Rightarrow> session \<Rightarrow> session" where
  "sendStreamingChat tr clk starts ms s =
     sendStreamRequest tr clk starts (buildChatCompletionPayload ms (config s) (parameterEnabled s))
       (s\<lparr>isRequesting := True\<rparr>)"

text \<open>The part of \<open>sendNonStreamingChat\<close> before its \<open>await\<close>.\<close>

definition sendNonStreamingChat :: "message list \<Rightarrow> session \<Rightarrow> session" where
  "sendNonStreamingChat ms s =
     (let payload = buildChatCompletionPayload ms (config s) (parameterEnabled s);
          rid = requestId s + 1 in
      s\<lparr>requestId := rid, abortController := Some rid, isRequesting := True,
        sent := sent s @ [PlainRequest rid payload]\<rparr>)"

definition request_finally :: "nat \<Rightarrow> session \<Rightarrow> session" where
  "request_finally rid s =
     (if requestId s = rid then s\<lparr>abortController := None, isRequesting := False\<rparr> else s)"

text \<open>The part after the \<open>await\<close>, when the request \<open>rid\<close> has an answer and when it failed.\<close>

definition on_response ::
  "(jstring \<Rightarrow> jstring) \<Rightarrow> (nat \<Rightarrow> int) \<Rightarrow> nat \<Rightarrow> chat_completion_response \<Rightarrow> session \<Rightarrow> session" where
  "on_response tr clk rid response s =
     request_finally rid
       (if rid \<in> set (aborted s) then s
        else if \<not> hasChatCompletionChoice response then
          fst (handleStreamError tr clk (JStr API_REQUEST_ERROR) None s)
        else
          s\<lparr>messages := updateLastAssistantMessage (messages s)
              (\<lambda>m. case applyChatCompletionResponse (clk 0) (clk 1) (clk 2) m response of
                     None \<Rightarrow> m | Some m' \<Rightarrow> m')\<rparr>)"

definition on_rejection ::
  "(jstring \<Rightarrow> jstring) \<Rightarrow> (nat \<Rightarrow> int) \<Rightarrow> nat \<Rightarrow> jsval option \<Rightarrow> session \<Rightarrow> session" where
  "on_rejection tr clk rid err s =
     request_finally rid
       (if rid \<in> set (aborted s) then s
        else
          let d = parseRequestErrorDetails err in
          fst (handleStreamError tr clk (errorMessage_of d) (errorCode_of d) s))"

definition sendChat ::
  "(jstring \<Rightarrow> jstring) \<Rightarrow> (nat \<Rightarrow> int) \<Rightarrow> bool \<Rightarrow> message list \<Rightarrow> session \<Rightarrow> session" where
  "sendChat tr clk starts ms s =
     (if cfg_stream (config s) then sendStreamingChat tr clk starts ms s else sendNonStreamingChat ms s)"

definition stopGeneration :: "(nat \<Rightarrow> int) \<Rightarrow> session \<Rightarrow> session" where
  "stopGeneration clk s =
     (let s1 = flushStreamUpdates clk (closeActiveStream None s);
          s2 = s1\<lparr>aborted := (case abortController s1 of Some c \<Rightarrow> c # aborted s1 | None \<Rightarrow> aborted s1),
                   abortController := None, isRequesting := False\<rparr> in
      s2\<lparr>messages := updateLastAssistantMessage (messages s2)
          (\<lambda>m. if isAssistantMessagePending m then completeAssistantMessage (clk 4) (clk 5) (clk 6) m else m)\<rparr>)"

section \<open>The conversation\<close>

definition handleSendMessage ::
  "(jstring \<Rightarrow> jstring) \<Rightarrow> (nat \<Rightarrow> int) \<Rightarrow> bool \<Rightarrow> fresh_ids \<Rightarrow> fresh_ids \<Rightarrow> jstring \<Rightarrow> session \<Rightarrow> session" where
  "handleSendMessage tr clk starts ids1 ids2 text s =
     (let nextMessages = appendUserMessagePair (clk 7) ids1 ids2 (messages s) text in
      sendChat tr clk starts nextMessages (s\<lparr>messages := nextMessages\<rparr>))"

definition handleRegenerateMessage ::
  "(jstring \<Rightarrow> jstring) \<Rightarrow> (nat \<Rightarrow> int) \<Rightarrow> bool \<Rightarrow> fresh_ids \<Rightarrow> jstring \<Rightarrow> session \<Rightarrow> session" where
  "handleRegenerateMessage tr clk starts ids key s =
     (case createRegeneratedMessages (clk 7) ids (messages s) key of
        None \<Rightarrow> s
      | Some nextMessages \<Rightarrow> sendChat tr clk starts nextMessages (s\<lparr>messages := nextMessages\<rparr>))"

definition handleEditMessage :: "jstring \<Rightarrow> session \<Rightarrow> session" where
  "handleEditMessage key s = s\<lparr>editingMessageKey := Some key\<rparr>"

definition handleEditOpenChange :: "bool \<Rightarrow> session \<Rightarrow> session" where
  "handleEditOpenChange op s = (if \<not> op then s\<lparr>editingMessageKey := None\<rparr> else s)"

definition applyEdit ::
  "(jstring \<Rightarrow> jstring) \<Rightarrow> (nat \<Rightarrow> int) \<Rightarrow> bool \<Rightarrow> fresh_ids \<Rightarrow> jstring \<Rightarrow> bool \<Rightarrow> session \<Rightarrow> session" where
  "applyEdit tr clk starts ids newContent shouldSubmit s =
     (case editingMessageKey s of
        None \<Rightarrow> s
      | Some key \<Rightarrow>
          if key = [] then s
          else
            case applyMessageEdit (clk 7) ids (messages s) key newContent shouldSubmit of
              None \<Rightarrow> s
            | Some r \<Rightarrow>
                let s1 = s\<lparr>editingMessageKey := None, messages := edit_messages r\<rparr> in
                if shouldSend r then sendChat tr clk starts (edit_messages r) s1 else s1)"

definition handleDeleteMessage :: "jstring \<Rightarrow> session \<Rightarrow> session" where
  "handleDeleteMessage key s = s\<lparr>messages := removeMessageByKey (messages s) key\<rparr>"

definition handleClearMessages :: "session \<Rightarrow> session" where
  "handleClearMessages s = (handleEditOpenChange False s)\<lparr>messages := []\<rparr>"

section \<open>Events\<close>

datatype event =
    SendMessage fresh_ids fresh_ids jstring
  | Regenerate fresh_ids jstring
  | EditMessage jstring
  | EditOpenChange bool
  | SaveEdit fresh_ids jstring bool
  | DeleteMessage jstring
  | ClearMessages
  | SetConfig playground_config
  | Stop
  | FlushTimer
  | SseMessage nat jstring
  | SseError nat "nat option" "jstring option"
  | SseReadyState nat "nat option" "nat option"
  | Response nat chat_completion_response
  | Rejection nat "jsval option"

definition handle :: "(jstring \<Rightarrow> jstring) \<Rightarrow> (nat \<Rightarrow> int) \<Rightarrow> bool \<Rightarrow> event \<Rightarrow> session \<Rightarrow> session" where
  "handle tr clk starts e s =
     (case e of
        SendMessage ids1 ids2 text \<Rightarrow> handleSendMessage tr clk starts ids1 ids2 text s
      | Regenerate ids key \<Rightarrow> handleRegenerateMessage tr clk starts ids key s
      | EditMessage key \<Rightarrow> handleEditMessage key s
      | EditOpenChange op \<Rightarrow> handleEditOpenChange op s
      | SaveEdit ids text submit \<Rightarrow> applyEdit tr clk starts ids text submit s
      | DeleteMessage key \<Rightarrow> handleDeleteMessage key s
      | ClearMessages \<Rightarrow> handleClearMessages s
      | SetConfig c \<Rightarrow> s\<lparr>config := c\<rparr>
      | Stop \<Rightarrow> stopGeneration clk s
      | FlushTimer \<Rightarrow> flushStreamUpdates clk s
      | SseMessage src data \<Rightarrow> on_message tr clk src data s
      | SseError src rs data \<Rightarrow> on_error tr clk src rs data s
      | SseReadyState src rs st \<Rightarrow> on_readystatechange tr clk src rs st s
      | Response rid r \<Rightarrow> (on_response tr clk rid r s)\<lparr>settled := rid # settled s\<rparr>
      | Rejection rid err \<Rightarrow> (on_rejection tr clk rid err s)\<lparr>settled := rid # settled s\<rparr>)"

text \<open>
  When an event can happen: the timer is set, the stream was opened and not closed, the
  request was made and not settled. The user can click at any time.
\<close>

definition open_source :: "session \<Rightarrow> nat \<Rightarrow> bool" where
  "open_source s src \<longleftrightarrow> src < sourceCount s \<and> src \<notin> set (closedSources s)"

fun enabled :: "session \<Rightarrow> event \<Rightarrow> bool" where
  "enabled s FlushTimer = flushTimer s"
| "enabled s (SseMessage src d) = open_source s src"
| "enabled s (SseError src rs d) = open_source s src"
| "enabled s (SseReadyState src rs st) = open_source s src"
| "enabled s (Response rid r) = (0 < rid \<and> rid \<le> requestId s \<and> rid \<notin> set (settled s))"
| "enabled s (Rejection rid e) = (0 < rid \<and> rid \<le> requestId s \<and> rid \<notin> set (settled s))"
| "enabled s _ = True"

definition initial_session :: "playground_config \<Rightarrow> parameter_enabled \<Rightarrow> message list \<Rightarrow> session" where
  "initial_session cfg en ms =
     \<lparr>config = cfg, parameterEnabled = en, messages = ms, editingMessageKey = None,
      pendingContent = [], pendingReasoning = [], flushTimer = False, isRequesting = False,
      requestId = 0, abortController = None, aborted = [], sseSource = None,
      isStreamComplete = False, isStreaming = False, sourceCount = 0, closedSources = [],
      settled = [], sent = [], toasts = []\<rparr>"

inductive reachable :: "(jstring \<Rightarrow> jstring) \<Rightarrow> session \<Rightarrow> bool" for tr where
  start: "reachable tr (initial_session cfg en ms)"
| step: "reachable tr s \<Longrightarrow> enabled s e \<Longrightarrow> reachable tr (handle tr clk starts e s)"

inductive_cases reachable_stepE: "reachable tr s"

text \<open>A run of several events, each with its clock; \<open>None\<close> when one cannot happen.\<close>

fun run :: "(jstring \<Rightarrow> jstring) \<Rightarrow> (event \<times> (nat \<Rightarrow> int)) list \<Rightarrow> session \<Rightarrow> session option" where
  "run tr [] s = Some s"
| "run tr ((e, clk) # es) s = (if enabled s e then run tr es (handle tr clk True e s) else None)"

lemma reachable_run: "reachable tr s \<Longrightarrow> run tr es s = Some s' \<Longrightarrow> reachable tr s'"
  by (induction tr es s rule: run.induct) (auto split: if_splits intro: reachable.step)

section \<open>The invariant of a session\<close>

text \<open>At most one stream is open, and it is the one the session knows.\<close>

definition streams_ok :: "session \<Rightarrow> bool" where
  "streams_ok s \<longleftrightarrow>
     (isStreaming s \<longleftrightarrow> sseSource s \<noteq> None) \<and>
     (\<forall>x. open_source s x \<longleftrightarrow> sseSource s = Some x) \<and>
     set (closedSources s) \<subseteq> {..<sourceCount s} \<and>
     (sseSource s \<noteq> None \<longrightarrow> \<not> isStreamComplete s)"

text \<open>A chunk that waits has a timer that will flush it.\<close>

definition timer_ok :: "session \<Rightarrow> bool" where
  "timer_ok s \<longleftrightarrow> pendingContent s \<noteq> [] \<or> pendingReasoning s \<noteq> [] \<longrightarrow> flushTimer s"

text \<open>The spinner has a reason: an open stream, or a request that has not been settled.\<close>

definition requests_ok :: "session \<Rightarrow> bool" where
  "requests_ok s \<longleftrightarrow>
     (isRequesting s \<longrightarrow> sseSource s \<noteq> None \<or> abortController s \<noteq> None) \<and>
     (\<forall>c. abortController s = Some c \<longrightarrow>
        c = requestId s \<and> 0 < c \<and> c \<notin> set (settled s) \<and> c \<notin> set (aborted s)) \<and>
     set (settled s) \<subseteq> {..requestId s} \<and> set (aborted s) \<subseteq> {..requestId s}"

definition session_ok :: "session \<Rightarrow> bool" where
  "session_ok s \<longleftrightarrow> streams_ok s \<and> timer_ok s \<and> requests_ok s"

lemmas session_ok_defs = session_ok_def streams_ok_def timer_ok_def requests_ok_def open_source_def

lemma streams_frame [simp]:
  "streams_ok (s\<lparr>messages := ms\<rparr>) = streams_ok s"
  "streams_ok (s\<lparr>config := c\<rparr>) = streams_ok s"
  "streams_ok (s\<lparr>editingMessageKey := k\<rparr>) = streams_ok s"
  "streams_ok (s\<lparr>toasts := ts\<rparr>) = streams_ok s"
  "streams_ok (s\<lparr>sent := xs\<rparr>) = streams_ok s"
  "streams_ok (s\<lparr>requestId := n\<rparr>) = streams_ok s"
  "streams_ok (s\<lparr>abortController := ac\<rparr>) = streams_ok s"
  "streams_ok (s\<lparr>aborted := ns\<rparr>) = streams_ok s"
  "streams_ok (s\<lparr>settled := ns\<rparr>) = streams_ok s"
  "streams_ok (s\<lparr>isRequesting := b\<rparr>) = streams_ok s"
  "streams_ok (s\<lparr>pendingContent := p\<rparr>) = streams_ok s"
  "streams_ok (s\<lparr>pendingReasoning := p\<rparr>) = streams_ok s"
  "streams_ok (s\<lparr>flushTimer := b\<rparr>) = streams_ok s"
  by (simp_all add: streams_ok_def open_source_def)

lemma ok_messages [simp]: "session_ok (s\<lparr>messages := ms\<rparr>) = session_ok s"
  "session_ok (s\<lparr>config := c\<rparr>) = session_ok s"
  "session_ok (s\<lparr>editingMessageKey := k\<rparr>) = session_ok s"
  "session_ok (s\<lparr>toasts := ts\<rparr>) = session_ok s"
  "session_ok (s\<lparr>sent := xs\<rparr>) = session_ok s"
  by (simp_all add: session_ok_defs)

lemma flush_frame [simp]:
  "config (flushStreamUpdates clk s) = config s"
  "isRequesting (flushStreamUpdates clk s) = isRequesting s"
  "requestId (flushStreamUpdates clk s) = requestId s"
  "abortController (flushStreamUpdates clk s) = abortController s"
  "aborted (flushStreamUpdates clk s) = aborted s"
  "settled (flushStreamUpdates clk s) = settled s"
  "sseSource (flushStreamUpdates clk s) = sseSource s"
  "isStreamComplete (flushStreamUpdates clk s) = isStreamComplete s"
  "isStreaming (flushStreamUpdates clk s) = isStreaming s"
  "sourceCount (flushStreamUpdates clk s) = sourceCount s"
  "closedSources (flushStreamUpdates clk s) = closedSources s"
  "pendingContent (flushStreamUpdates clk s) = []"
  "pendingReasoning (flushStreamUpdates clk s) = []"
  "flushTimer (flushStreamUpdates clk s) = False"
  by (auto simp: flushStreamUpdates_def Let_def)

lemma ok_flush: "session_ok s \<Longrightarrow> session_ok (flushStreamUpdates clk s)"
  by (simp add: session_ok_defs)

lemma ok_idle: "session_ok s \<Longrightarrow> session_ok (s\<lparr>isRequesting := False\<rparr>)"
  by (simp add: session_ok_defs)

lemma ok_complete: "session_ok s \<Longrightarrow> session_ok (handleStreamComplete clk s)"
  by (simp add: handleStreamComplete_def Let_def ok_idle ok_flush)

lemma ok_stream_error: "session_ok s \<Longrightarrow> session_ok (fst (handleStreamError tr clk err code s))"
  by (simp add: handleStreamError_def Let_def ok_idle ok_flush split: jsval.split)

lemma idle_stream_error [simp]: "\<not> isRequesting (fst (handleStreamError tr clk err code s))"
  by (simp add: handleStreamError_def Let_def split: jsval.split)

lemma stream_error_frame [simp]:
  "requestId (fst (handleStreamError tr clk err code s)) = requestId s"
  "abortController (fst (handleStreamError tr clk err code s)) = abortController s"
  "settled (fst (handleStreamError tr clk err code s)) = settled s"
  "sseSource (fst (handleStreamError tr clk err code s)) = sseSource s"
  by (simp_all add: handleStreamError_def Let_def split: jsval.split)

text \<open>Closing is safe once nothing is asked of the stream any more.\<close>

lemma streams_close:
  assumes "streams_ok s" and "src = None \<or> (\<exists>x. src = Some x \<and> open_source s x)"
  shows "streams_ok (closeActiveStream src (s\<lparr>isStreamComplete := b\<rparr>))"
proof -
  have open': "open_source s x \<longleftrightarrow> sseSource s = Some x" for x using assms(1) by (simp add: streams_ok_def)
  have src: "src = None \<or> src = sseSource s" using assms(2) open' by auto
  have sub: "set (closedSources s) \<subseteq> {..<sourceCount s}" and none: "sseSource s = None \<Longrightarrow> \<not> isStreaming s"
    using assms(1) by (auto simp: streams_ok_def)
  show ?thesis
  proof (cases "sseSource s")
    case None
    with src none sub open' show ?thesis
      by (auto simp: closeActiveStream_def streams_ok_def open_source_def)
  next
    case (Some a)
    with open' [of a] have "a < sourceCount s" by (simp add: open_source_def)
    moreover have "x = a" if "x < sourceCount s" "x \<notin> set (closedSources s)" for x
      using open' [of x] that Some by (simp add: open_source_def)
    ultimately show ?thesis
      using src sub Some by (auto simp: closeActiveStream_def streams_ok_def open_source_def)
  qed
qed

lemma close_frame [simp]:
  "isRequesting (closeActiveStream src s) = isRequesting s"
  "abortController (closeActiveStream src s) = abortController s"
  "requestId (closeActiveStream src s) = requestId s"
  "settled (closeActiveStream src s) = settled s"
  "aborted (closeActiveStream src s) = aborted s"
  "pendingContent (closeActiveStream src s) = pendingContent s"
  "pendingReasoning (closeActiveStream src s) = pendingReasoning s"
  "flushTimer (closeActiveStream src s) = flushTimer s"
  "messages (closeActiveStream src s) = messages s"
  by (simp_all add: closeActiveStream_def Let_def)

lemma ok_close:
  assumes "session_ok s" and "src = None \<or> (\<exists>x. src = Some x \<and> open_source s x)"
  shows "session_ok ((closeActiveStream src (s\<lparr>isStreamComplete := b\<rparr>))\<lparr>isRequesting := False\<rparr>)"
proof -
  have "streams_ok (closeActiveStream src (s\<lparr>isStreamComplete := b\<rparr>))"
    using assms streams_close by (simp add: session_ok_def)
  then show ?thesis
    using assms(1) by (simp add: session_ok_def streams_ok_def timer_ok_def requests_ok_def open_source_def)
qed

lemma open_stream_error [simp]:
  "open_source (fst (handleStreamError tr clk err code s)) x = open_source s x"
  by (simp add: handleStreamError_def Let_def open_source_def split: jsval.split)

lemma ok_handleError:
  assumes "session_ok s" and "open_source s src"
  shows "session_ok (stream_handleError tr clk src err code s)"
proof -
  let ?s = "fst (handleStreamError tr clk err code s)"
  have "session_ok ((closeActiveStream (Some src) (?s\<lparr>isStreamComplete := isStreamComplete ?s\<rparr>))\<lparr>isRequesting := False\<rparr>)"
    using assms by (intro ok_close ok_stream_error) auto
  then have "session_ok (closeActiveStream (Some src) ?s)"
    using idle_stream_error [of tr clk err code s] by (simp add: session_ok_defs)
  then show ?thesis
    using assms(1) ok_stream_error [OF assms(1), of tr clk err code]
    by (simp add: stream_handleError_def case_prod_unfold Let_def)
qed

lemma schedule_eq: "scheduleStreamFlush s = s\<lparr>flushTimer := True\<rparr>"
  by (simp add: scheduleStreamFlush_def)

lemma ok_pending:
  "session_ok s \<Longrightarrow> session_ok (s\<lparr>pendingContent := p, flushTimer := True\<rparr>)"
  "session_ok s \<Longrightarrow> session_ok (s\<lparr>pendingReasoning := p, flushTimer := True\<rparr>)"
  by (simp_all add: session_ok_defs)

lemma update_cases:
  assumes "handleStreamUpdate ty chunk s = Inr s'"
  obtains p where "s' = s\<lparr>pendingContent := p, flushTimer := True\<rparr>"
  | p where "s' = s\<lparr>pendingReasoning := p, flushTimer := True\<rparr>"
  using assms by (cases ty) (auto simp: handleStreamUpdate_def schedule_eq split: sum.splits)

lemma ok_update: "session_ok s \<Longrightarrow> handleStreamUpdate ty chunk s = Inr s' \<Longrightarrow> session_ok s'"
  by (erule update_cases) (simp_all add: ok_pending)

lemma open_update: "handleStreamUpdate ty chunk s = Inr s' \<Longrightarrow> open_source s' x = open_source s x"
  by (erule update_cases) (simp_all add: open_source_def)

lemma open_updates: "open_source (fst (apply_updates us s)) x = open_source s x"
  by (induction us s rule: apply_updates.induct) (auto split: sum.split simp: open_update)

lemma ok_updates: "session_ok s \<Longrightarrow> session_ok (fst (apply_updates us s))"
  by (induction us s rule: apply_updates.induct) (auto split: sum.split dest: ok_update)

lemma ok_message:
  assumes "session_ok s" and "open_source s src"
  shows "session_ok (on_message tr clk src data s)"
proof (cases "isStreamDoneMessage data")
  case True
  let ?c = "closeActiveStream (Some src) (s\<lparr>isStreamComplete := True\<rparr>)"
  have "session_ok (?c\<lparr>isRequesting := False\<rparr>)" using assms by (intro ok_close) auto
  then have "session_ok ((flushStreamUpdates clk ?c)\<lparr>isRequesting := False\<rparr>)"
    by (simp add: session_ok_defs)
  then show ?thesis using True by (simp add: on_message_def handleStreamComplete_def Let_def)
next
  case False
  let ?r = "case parseStreamMessageUpdates data of Inl e \<Rightarrow> (s, Some e) | Inr us \<Rightarrow> apply_updates us s"
  have "session_ok (fst ?r) \<and> open_source (fst ?r) src"
    using assms by (auto split: sum.split simp: ok_updates open_updates)
  then show ?thesis
    using False ok_handleError by (auto simp: on_message_def case_prod_unfold Let_def)
qed

lemma ok_error: "session_ok s \<Longrightarrow> open_source s src \<Longrightarrow> session_ok (on_error tr clk src rs data s)"
  by (simp add: on_error_def Let_def ok_handleError)

lemma ok_readystate:
  "session_ok s \<Longrightarrow> open_source s src \<Longrightarrow> session_ok (on_readystatechange tr clk src rs st s)"
  by (simp add: on_readystatechange_def ok_handleError split: option.split)

text \<open>A new stream closes the old one.\<close>

lemma streams_send:
  assumes "streams_ok s"
  shows "streams_ok (open_stream s)"
proof -
  have o: "x < sourceCount s \<and> x \<notin> set (closedSources s) \<longleftrightarrow> sseSource s = Some x" for x
    using assms by (simp add: streams_ok_def open_source_def)
  have sub: "set (closedSources s) \<subseteq> {..<sourceCount s}"
    using assms by (simp add: streams_ok_def)
  show ?thesis
  proof (cases "sseSource s")
    case None
    then have "x \<in> set (closedSources s)" if "x < sourceCount s" for x using o [of x] that by simp
    then show ?thesis using None sub by (auto simp: streams_ok_def open_source_def open_stream_def less_Suc_eq)
  next
    case (Some a)
    then have "x = a \<or> x \<in> set (closedSources s)" if "x < sourceCount s" for x using o [of x] that by auto
    moreover have "a < sourceCount s" using o [of a] Some by simp
    ultimately show ?thesis using Some sub by (auto simp: streams_ok_def open_source_def open_stream_def less_Suc_eq)
  qed
qed

lemma ok_send_stream:
  assumes "session_ok s"
  shows "session_ok (sendStreamingChat tr clk starts ms s)"
proof -
  let ?s = "open_stream (s\<lparr>isRequesting := True\<rparr>)"
  have "streams_ok ?s"
    using assms by (intro streams_send) (simp add: session_ok_def streams_ok_def open_source_def)
  then have ok: "session_ok ?s"
    using assms by (auto simp: session_ok_def timer_ok_def requests_ok_def open_stream_def)
  moreover have "open_source ?s (sourceCount s)"
    using \<open>streams_ok ?s\<close> by (simp add: streams_ok_def) (simp add: open_stream_def)
  ultimately have "session_ok (stream_handleError tr clk (sourceCount s) (JStr STREAM_START_ERROR) None ?s)"
    by (rule ok_handleError)
  moreover have "\<not> snd (handleStreamError tr clk (JStr e) None s')" for e s'
    by (simp add: handleStreamError_def Let_def)
  moreover have "\<not> isStreamComplete ?s" by (simp add: open_stream_def)
  ultimately show ?thesis
    using ok by (simp add: sendStreamingChat_def sendStreamRequest_def stream_handleError_def Let_def case_prod_unfold)
qed

lemma ok_send_plain: "session_ok s \<Longrightarrow> session_ok (sendNonStreamingChat ms s)"
  by (auto simp: sendNonStreamingChat_def session_ok_def timer_ok_def requests_ok_def Let_def)

lemma ok_send: "session_ok s \<Longrightarrow> session_ok (sendChat tr clk starts ms s)"
  by (simp add: sendChat_def ok_send_stream ok_send_plain)

lemma ok_stop: "session_ok s \<Longrightarrow> session_ok (stopGeneration clk s)"
proof -
  assume s: "session_ok s"
  then have "session_ok ((closeActiveStream None (s\<lparr>isStreamComplete := isStreamComplete s\<rparr>))\<lparr>isRequesting := False\<rparr>)"
    by (intro ok_close) auto
  then have "session_ok ((flushStreamUpdates clk (closeActiveStream None s))\<lparr>isRequesting := False\<rparr>)"
    by (simp add: session_ok_defs)
  then show ?thesis
    by (auto simp: stopGeneration_def Let_def session_ok_def timer_ok_def requests_ok_def split: option.split)
qed

lemma ok_finally:
  assumes "session_ok s" "rid \<le> requestId s" "rid \<notin> set (settled s)"
  shows "session_ok ((request_finally rid s)\<lparr>settled := rid # settled s\<rparr>)"
  using assms by (auto simp: request_finally_def session_ok_def timer_ok_def requests_ok_def)

lemma ok_settle:
  assumes "session_ok s" "rid \<le> requestId s" "rid \<notin> set (settled s)"
  shows "session_ok ((on_response tr clk rid r s)\<lparr>settled := rid # settled s\<rparr>)"
    and "session_ok ((on_rejection tr clk rid err s)\<lparr>settled := rid # settled s\<rparr>)"
proof -
  have *: "session_ok ((request_finally rid s')\<lparr>settled := rid # settled s\<rparr>)"
    if "session_ok s'" "requestId s' = requestId s" "settled s' = settled s" for s'
    using ok_finally [of s' rid] that assms by simp
  show "session_ok ((on_response tr clk rid r s)\<lparr>settled := rid # settled s\<rparr>)"
    unfolding on_response_def using assms by (intro *) (auto simp: ok_stream_error)
  show "session_ok ((on_rejection tr clk rid err s)\<lparr>settled := rid # settled s\<rparr>)"
    unfolding on_rejection_def Let_def using assms by (intro *) (auto simp: ok_stream_error)
qed

lemma ok_handle:
  assumes "session_ok s" "enabled s e"
  shows "session_ok (handle tr clk starts e s)"
  using assms
  by (cases e)
    (simp_all add: handle_def ok_message ok_error ok_readystate ok_settle ok_stop ok_flush ok_send
      handleSendMessage_def handleRegenerateMessage_def handleEditMessage_def handleEditOpenChange_def
      applyEdit_def handleDeleteMessage_def handleClearMessages_def Let_def split: option.split)

lemma ok_initial: "session_ok (initial_session cfg en ms)"
  by (simp add: initial_session_def session_ok_defs)

lemma reachable_ok: "reachable tr s \<Longrightarrow> session_ok s"
  by (induction rule: reachable.induct) (auto intro: ok_handle ok_initial)

section \<open>What a streamed answer becomes\<close>

text \<open>The data of a chunk with the text \<open>c\<close>.\<close>

definition delta_data :: "jstring \<Rightarrow> jstring" where
  "delta_data c = JSON_stringify (JObj [(js ''choices'', JArr [JObj [(js ''delta'', JObj [(js ''content'', JStr c)])]])])"

lemma obj_of_single [simp]: "obj_of [(k, v)] = [(k, v)]"
  by (simp add: obj_of_def obj_set_def)

lemma parse_delta_data: "c \<noteq> [] \<Longrightarrow> parseStreamMessageUpdates (delta_data c) = Inr [(ContentChunk, JStr c)]"
  unfolding parseStreamMessageUpdates_def delta_data_def
  by (subst JSON_parse_stringify) simp_all

lemma delta_not_done: "\<not> isStreamDoneMessage (delta_data c)"
  by (simp add: isStreamDoneMessage_def delta_data_def STREAM_DONE_MESSAGE_def JSON_stringify_def js_eval wrap_items_def)

text \<open>A schedule: chunks arrive and the flush timer fires, in any order.\<close>

datatype tick = Delta jstring | Tick

fun tick_event :: "nat \<Rightarrow> tick \<Rightarrow> event" where
  "tick_event src (Delta c) = SseMessage src (delta_data c)"
| "tick_event src Tick = FlushTimer"

definition deltas :: "tick list \<Rightarrow> jstring list" where
  "deltas ts = concat (map (\<lambda>t. case t of Delta c \<Rightarrow> [c] | Tick \<Rightarrow> []) ts)"

text \<open>No block of consecutive chunks starts with the text of the block just before it.\<close>

definition timing_safe :: "jstring list \<Rightarrow> bool" where
  "timing_safe cs \<longleftrightarrow> list_all (\<lambda>i. list_all (\<lambda>j. list_all (\<lambda>k.
     \<not> startsWith (concat (slice j k cs)) (concat (slice i j cs)))
     [Suc j..<Suc (length cs)]) [Suc i..<length cs]) [0..<length cs]"

lemma timing_safeD:
  assumes "timing_safe cs" "i < j" "j < k" "k \<le> length cs"
  shows "\<not> startsWith (concat (slice j k cs)) (concat (slice i j cs))"
proof -
  have "i \<in> set [0..<length cs]" "j \<in> set [Suc i..<length cs]" "k \<in> set [Suc j..<Suc (length cs)]"
    using assms by auto
  then show ?thesis using assms(1) unfolding timing_safe_def list_all_iff by blast
qed

lemma slice_Suc: "i \<le> n \<Longrightarrow> n < length xs \<Longrightarrow> slice i (Suc n) xs = slice i n xs @ [xs ! n]"
  by (simp add: slice_def Suc_diff_le take_Suc_conv_app_nth nth_append)

lemma slice_0: "slice 0 n xs = take n xs" "slice n n xs = []"
  by (simp_all add: slice_def)

lemma slice_singleton: "n < length xs \<Longrightarrow> slice n (Suc n) xs = [xs ! n]"
  by (simp add: slice_Suc slice_0)

lemma take_slice: "f \<le> n \<Longrightarrow> take f xs @ slice f n xs = take n xs"
  by (metis slice_def le_add_diff_inverse take_add)

text \<open>
  The session after \<open>n\<close> of the chunks \<open>cs\<close> have arrived and the first \<open>f\<close> of them have been
  flushed into the last message.
\<close>

definition streaming_at :: "nat \<Rightarrow> message list \<Rightarrow> jstring list \<Rightarrow> nat \<Rightarrow> nat \<Rightarrow> session \<Rightarrow> bool" where
  "streaming_at src ms cs f n s \<longleftrightarrow>
     sseSource s = Some src \<and> open_source s src \<and> \<not> isStreamComplete s \<and> pendingReasoning s = [] \<and>
     f \<le> n \<and> n \<le> length cs \<and> pendingContent s = concat (slice f n cs) \<and>
     (\<exists>m. messages s = ms @ [m] \<and> msg_from m = Assistant \<and> isAssistantMessagePending m \<and>
        getMessageContent m = concat (take f cs))"

lemma merge_safe:
  assumes "timing_safe cs" "\<forall>c \<in> set cs. c \<noteq> []" "f \<le> n" "n < length cs"
  shows "mergePendingStreamChunk (concat (slice f n cs)) (JStr (cs ! n)) = Inr (concat (slice f (Suc n) cs))"
proof (cases "f = n")
  case True
  then show ?thesis using assms by (simp add: mergePendingStreamChunk_def slice_0 slice_singleton)
next
  case False
  then have "\<not> startsWith (cs ! n) (concat (slice f n cs))"
    using timing_safeD [of cs f n "Suc n"] assms by (simp add: slice_singleton)
  then show ?thesis using assms by (simp add: mergePendingStreamChunk_def slice_Suc)
qed

lemma streaming_delta:
  assumes "streaming_at src ms cs f n s" "timing_safe cs" "\<forall>c \<in> set cs. c \<noteq> []" "n < length cs"
  shows "streaming_at src ms cs f (Suc n) (on_message tr clk src (delta_data (cs ! n)) s)"
proof -
  have "cs ! n \<noteq> []" using assms(3,4) by simp
  then have "on_message tr clk src (delta_data (cs ! n)) s =
      s\<lparr>pendingContent := concat (slice f (Suc n) cs), flushTimer := True\<rparr>"
    using assms by (simp add: on_message_def delta_not_done parse_delta_data handleStreamUpdate_def schedule_eq
        merge_safe streaming_at_def)
  then show ?thesis using assms(1,4) by (simp add: streaming_at_def open_source_def)
qed

lemma absorb_safe:
  assumes "timing_safe cs" "f \<le> n" "n \<le> length cs" "concat (slice f n cs) \<noteq> []"
  shows "absorb (concat (take f cs)) (concat (slice f n cs)) = concat (take n cs)"
proof -
  have "f \<noteq> n" using assms(4) by (auto simp: slice_0)
  then have "f = 0 \<or> \<not> startsWith (concat (slice f n cs)) (concat (take f cs))"
    using timing_safeD [of cs 0 f n] assms by (auto simp: slice_0)
  moreover have "concat (take f cs) @ concat (slice f n cs) = concat (take n cs)"
    using take_slice [OF assms(2), of cs] by (metis concat_append)
  ultimately show ?thesis by (auto simp: absorb_def)
qed

lemma streaming_flush:
  assumes "streaming_at src ms cs f n s" "timing_safe cs"
  shows "streaming_at src ms cs n n (flushStreamUpdates clk s)"
proof (cases "pendingContent s = []")
  case True
  then have "concat (take f cs) = concat (take n cs)"
    using assms(1) take_slice [of f n cs] by (metis append_Nil2 concat_append streaming_at_def)
  then show ?thesis
    using True assms(1) by (auto simp: streaming_at_def flushStreamUpdates_def open_source_def slice_0)
next
  case False
  obtain m where m: "messages s = ms @ [m]" "msg_from m = Assistant" "isAssistantMessagePending m"
      "getMessageContent m = concat (take f cs)"
    using assms(1) by (auto simp: streaming_at_def)
  have pr: "pendingReasoning s = []" using assms(1) by (simp add: streaming_at_def)
  let ?m = "applyStreamingChunk (clk 2) (clk 3) m ContentChunk (pendingContent s)"
  have "messages (flushStreamUpdates clk s) = ms @ [?m]"
    using False m pr by (simp add: flushStreamUpdates_def flush_message_def Let_def updateLast_snoc)
  moreover have "getMessageContent ?m = concat (take n cs)"
    using m False assms absorb_safe [of cs f n]
    by (auto simp: content_chunk streaming_at_def isAssistantMessagePending_def)
  moreover have "msg_from ?m = Assistant" "isAssistantMessagePending ?m"
    using m by (auto simp: chunk_upd.upd_from isAssistantMessagePending_def status_chunk)
  ultimately show ?thesis
    using assms(1) by (auto simp: streaming_at_def open_source_def slice_0)
qed

lemma streaming_done:
  assumes "streaming_at src ms cs f n s" "timing_safe cs"
  shows "\<exists>m. messages (on_message tr clk src STREAM_DONE_MESSAGE s) = ms @ [m] \<and>
    getMessageContent m = visibleContent (parseThinkTags (concat (take n cs))) \<and> status m = Some Completed \<and>
    \<not> isGenerating (on_message tr clk src STREAM_DONE_MESSAGE s)"
proof -
  let ?c = "closeActiveStream (Some src) (s\<lparr>isStreamComplete := True\<rparr>)"
  have eq: "flushStreamUpdates clk ?c = (flushStreamUpdates clk s)\<lparr>isStreamComplete := True,
      closedSources := src # closedSources s, sseSource := None, isStreaming := False\<rparr>"
    using assms(1) by (simp add: closeActiveStream_def flushStreamUpdates_def Let_def streaming_at_def)
  obtain m where m: "messages (flushStreamUpdates clk s) = ms @ [m]" "msg_from m = Assistant"
      "isAssistantMessagePending m" "getMessageContent m = concat (take n cs)"
    using streaming_flush [OF assms, of clk] by (auto simp: streaming_at_def)
  then show ?thesis
    by (auto simp: on_message_def isStreamDoneMessage_def handleStreamComplete_def Let_def eq updateLast_snoc
        isAssistantMessageFinal_def isAssistantMessagePending_def completeAssistantMessage_def content_finalize isGenerating_def)
qed

lemma run_schedule:
  assumes "run tr (map (\<lambda>(t, clk). (tick_event src t, clk)) ts) s = Some s'"
    and "streaming_at src ms cs f n s" "timing_safe cs" "\<forall>c \<in> set cs. c \<noteq> []"
    and "drop n cs = deltas (map fst ts)"
  shows "\<exists>f'. streaming_at src ms cs f' (length cs) s'"
  using assms
proof (induction ts arbitrary: s f n)
  case Nil
  then have "n = length cs" by (auto simp: deltas_def streaming_at_def)
  then show ?case using Nil by auto
next
  case (Cons x ts)
  obtain t clk where x: "x = (t, clk)" by (cases x)
  show ?case
  proof (cases t)
    case (Delta c)
    have n: "n < length cs" "cs ! n = c" "drop (Suc n) cs = deltas (map fst ts)"
      using Cons.prems(5) x Delta
      by (auto simp: deltas_def) (metis drop_eq_Nil list.discI not_le, metis drop_eq_Nil linorder_not_le list.discI nth_via_drop, metis Cons_nth_drop_Suc drop_eq_Nil leI list.discI list.inject)
    then show ?thesis
      using Cons.prems Cons.IH [OF _ streaming_delta [OF Cons.prems(2-4) n(1)]] x Delta
      by (auto simp: handle_def split: if_splits)
  next
    case Tick
    then show ?thesis
      using Cons.prems Cons.IH [OF _ streaming_flush [OF Cons.prems(2,3)]] x
      by (auto simp: handle_def deltas_def split: if_splits)
  qed
qed

lemma run_append: "run tr (es @ fs) s = (case run tr es s of None \<Rightarrow> None | Some s' \<Rightarrow> run tr fs s')"
  by (induction tr es s rule: run.induct) auto

text \<open>
  C1: the text of a streamed answer does not depend on when the flush timer fires. Chunks
  whose blocks never repeat at their start the block before them give, in every interleaving
  with the timer and once \<open>[DONE]\<close> has come, a completed message with exactly the visible
  part of their concatenation, and the session is idle again.
\<close>

theorem streamed_text_any_timing:
  assumes "sseSource s = Some src" "open_source s src" "\<not> isStreamComplete s"
    and "pendingContent s = []" "pendingReasoning s = []"
    and "messages s = ms @ [m]" "msg_from m = Assistant" "isAssistantMessagePending m" "getMessageContent m = []"
    and "timing_safe (deltas (map fst ts))" "[] \<notin> set (deltas (map fst ts))"
    and "run tr (map (\<lambda>(t, clk). (tick_event src t, clk)) ts @ [(SseMessage src STREAM_DONE_MESSAGE, clk')]) s = Some s'"
  shows "\<exists>m'. messages s' = ms @ [m'] \<and> status m' = Some Completed \<and> \<not> isGenerating s' \<and>
    getMessageContent m' = visibleContent (parseThinkTags (concat (deltas (map fst ts))))"
proof -
  let ?cs = "deltas (map fst ts)"
  obtain s1 where s1: "run tr (map (\<lambda>(t, clk). (tick_event src t, clk)) ts) s = Some s1"
      "s' = on_message tr clk' src STREAM_DONE_MESSAGE s1"
    using assms(12) by (auto simp: run_append handle_def split: option.splits if_splits)
  have "streaming_at src ms ?cs 0 0 s" using assms by (simp add: streaming_at_def slice_0)
  then obtain f where "streaming_at src ms ?cs f (length ?cs) s1"
    using run_schedule [OF s1(1)] assms(10,11) by (metis drop_0)
  from streaming_done [OF this assms(10), of tr clk'] show ?thesis by (auto simp: s1(2))
qed

text \<open>A session in which one question was asked and its stream is open.\<close>

definition first_question :: session where
  "first_question = handle (\<lambda>x. x) (\<lambda>_. 0) True (SendMessage (js ''a'', js ''b'') (js ''c'', js ''d'') (js ''hi''))
     (initial_session DEFAULT_CONFIG DEFAULT_PARAMETER_ENABLED [])"

lemma streamed_text_any_timing_witness:
  "\<exists>s'. run (\<lambda>x. x) (map (\<lambda>(t, clk). (tick_event 0 t, clk))
        [(Delta (js ''Hel''), \<lambda>_. 1), (Tick, \<lambda>_. 2), (Delta (js ''lo''), \<lambda>_. 3)] @
        [(SseMessage 0 STREAM_DONE_MESSAGE, \<lambda>_. 4)]) first_question = Some s' \<and>
     getMessageContent (last (messages s')) = js ''Hello'' \<and> \<not> isGenerating s'"
proof -
  let ?ts = "[(Delta (js ''Hel''), \<lambda>_. 1), (Tick, \<lambda>_. 2), (Delta (js ''lo''), \<lambda>_. 3)] :: (tick \<times> (nat \<Rightarrow> int)) list"
  let ?ms = "butlast (messages first_question)" and ?m = "last (messages first_question)"
  have d: "deltas (map fst ?ts) = [js ''Hel'', js ''lo'']" by code_simp
  have h: "sseSource first_question = Some 0" "open_source first_question 0" "\<not> isStreamComplete first_question"
    "pendingContent first_question = []" "pendingReasoning first_question = []"
    "messages first_question = ?ms @ [?m]" "msg_from ?m = Assistant" "isAssistantMessagePending ?m"
    "getMessageContent ?m = []"
    by code_simp+
  have t: "timing_safe (deltas (map fst ?ts))" "[] \<notin> set (deltas (map fst ?ts))" unfolding d by code_simp+
  have "run (\<lambda>x. x) (map (\<lambda>(t, clk). (tick_event 0 t, clk)) ?ts @ [(SseMessage 0 STREAM_DONE_MESSAGE, \<lambda>_. 4)])
      first_question \<noteq> None" by code_simp
  then obtain s' where r: "run (\<lambda>x. x) (map (\<lambda>(t, clk). (tick_event 0 t, clk)) ?ts @
      [(SseMessage 0 STREAM_DONE_MESSAGE, \<lambda>_. 4)]) first_question = Some s'" by auto
  have v: "visibleContent (parseThinkTags (concat [js ''Hel'', js ''lo''])) = js ''Hello''" by code_simp
  from streamed_text_any_timing [OF h t r] show ?thesis using r by (auto simp only: d v last_snoc)
qed

section \<open>Stopping, errors and the invariant\<close>

text \<open>
  C2: in every reachable session at most one stream is open, text that waits has a timer that
  will flush it, and while the session shows that it is generating an open stream or an
  unsettled request exists that can end it.
\<close>

theorem session_safe:
  assumes "reachable tr s"
  shows "(open_source s x \<and> open_source s y \<longrightarrow> x = y) \<and>
    (pendingContent s \<noteq> [] \<or> pendingReasoning s \<noteq> [] \<longrightarrow> enabled s FlushTimer) \<and>
    (isGenerating s \<longrightarrow>
       (\<exists>src. enabled s (SseMessage src STREAM_DONE_MESSAGE)) \<or> (\<exists>rid. enabled s (Response rid None)))"
  using reachable_ok [OF assms]
  by (auto simp: session_ok_def streams_ok_def timer_ok_def requests_ok_def isGenerating_def)

lemma updateLast_last:
  assumes "updateLastAssistantMessage ms f \<noteq> []" "msg_from (last (updateLastAssistantMessage ms f)) = Assistant"
    and "\<And>m. P (f m)"
  shows "P (last (updateLastAssistantMessage ms f))"
  using assms by (cases ms rule: rev_cases) (auto simp: updateLast_snoc split: if_splits)

interpretation flush_upd: message_updater "flush_message clk pc pr" for clk pc pr
  by unfold_locales (simp_all add: flush_message_def Let_def chunk_upd.upd_key chunk_upd.upd_from)

lemma flush_messages:
  "messages (flushStreamUpdates clk s) =
     updateLastAssistantMessage (messages s) (flush_message clk (pendingContent s) (pendingReasoning s))"
  by (cases "messages s" rule: rev_cases) (auto simp: flushStreamUpdates_def Let_def updateLast_snoc flush_message_def)

text \<open>An aborted request stays aborted, and what it still brings changes no message.\<close>

lemma aborted_frame [simp]:
  "aborted (fst (handleStreamError tr clk err code s)) = aborted s"
  "aborted (stream_handleError tr clk src err code s) = aborted s"
  "aborted (sendChat tr clk starts ms s) = aborted s"
  by (auto simp: handleStreamError_def stream_handleError_def sendChat_def sendStreamingChat_def sendStreamRequest_def
      open_stream_def sendNonStreamingChat_def Let_def split: jsval.split)

lemma aborted_updates [simp]: "aborted (fst (apply_updates us s)) = aborted s"
  by (induction us s rule: apply_updates.induct) (auto split: sum.split elim: update_cases)

lemma aborted_message [simp]: "aborted (on_message tr clk src data s) = aborted s"
proof -
  have "aborted (fst (case parseStreamMessageUpdates data of Inl e \<Rightarrow> (s, Some e) | Inr us \<Rightarrow> apply_updates us s)) = aborted s"
    by (simp split: sum.split)
  then show ?thesis
    by (simp add: on_message_def handleStreamComplete_def case_prod_unfold Let_def)
qed

lemma aborted_mono: "set (aborted s) \<subseteq> set (aborted (handle tr clk starts e s))"
  by (cases e)
    (auto simp: handle_def on_error_def on_readystatechange_def on_response_def on_rejection_def request_finally_def
      stopGeneration_def handleSendMessage_def handleRegenerateMessage_def handleEditMessage_def handleEditOpenChange_def
      applyEdit_def handleDeleteMessage_def handleClearMessages_def Let_def split: option.split)

lemma aborted_run: "run tr es s = Some s' \<Longrightarrow> set (aborted s) \<subseteq> set (aborted s')"
proof (induction tr es s rule: run.induct)
  case (2 tr e clk es s)
  then show ?case using aborted_mono [of s tr clk True e] by (auto split: if_splits)
qed simp

lemma aborted_settlement:
  assumes "session_ok s" and "rid \<in> set (aborted s)" and "e = Response rid r \<or> e = Rejection rid err"
  shows "messages (handle tr clk starts e s) = messages s \<and> toasts (handle tr clk starts e s) = toasts s \<and>
    isGenerating (handle tr clk starts e s) = isGenerating s"
proof -
  have "handle tr clk starts e s = (request_finally rid s)\<lparr>settled := rid # settled s\<rparr>"
    using assms(2,3) by (auto simp: handle_def on_response_def on_rejection_def)
  moreover have "isRequesting s \<longrightarrow> isStreaming s" if "requestId s = rid"
    using that assms(1,2) by (auto simp: session_ok_def requests_ok_def streams_ok_def)
  ultimately show ?thesis by (auto simp: request_finally_def isGenerating_def)
qed

lemma stop_messages:
  "messages (stopGeneration clk s) = updateLastAssistantMessage (messages s)
     (\<lambda>m. let m1 = flush_message clk (pendingContent s) (pendingReasoning s) m in
          if isAssistantMessagePending m1 then completeAssistantMessage (clk 4) (clk 5) (clk 6) m1 else m1)"
  by (simp add: stopGeneration_def Let_def flush_messages updateLast_comp flush_upd.upd_from)

text \<open>
  C14: stopping ends the generation. Afterwards the session is idle, no stream is open, nothing waits
  to be flushed, and the answer at the end of the conversation is not pending; the messages before it
  are as they were. The request that was running is aborted for good: whatever happens later, neither its
  answer nor its failure changes a message, shows a toast or ends another generation.
\<close>

theorem stop_ends_generation:
  assumes "reachable tr s" and s'_def: "s' = handle tr clk starts Stop s" and "run tr es s' = Some s''"
  shows "\<not> isGenerating s' \<and> \<not> open_source s' x \<and> pendingContent s' = [] \<and> pendingReasoning s' = [] \<and>
    butlast (messages s') = butlast (messages s) \<and>
    (messages s' \<noteq> [] \<and> msg_from (last (messages s')) = Assistant \<longrightarrow>
       \<not> isAssistantMessagePending (last (messages s'))) \<and>
    (abortController s = Some rid \<and> (e = Response rid r \<or> e = Rejection rid err) \<longrightarrow>
       messages (handle tr clk' starts' e s'') = messages s'' \<and> toasts (handle tr clk' starts' e s'') = toasts s'' \<and>
       isGenerating (handle tr clk' starts' e s'') = isGenerating s'')"
proof -
  let ?f = "\<lambda>m. let m1 = flush_message clk (pendingContent s) (pendingReasoning s) m in
    if isAssistantMessagePending m1 then completeAssistantMessage (clk 4) (clk 5) (clk 6) m1 else m1"
  have f: "\<not> isAssistantMessagePending (?f m)" for m
    by (simp add: isAssistantMessagePending_def completeAssistantMessage_def Let_def)
  have r: "reachable tr s'" unfolding s'_def using assms(1) by (rule reachable.step) simp
  have s': "sseSource s' = None" "isStreaming s' = False" "isRequesting s' = False" "pendingContent s' = []"
    "pendingReasoning s' = []" "aborted s' = (case abortController s of Some c \<Rightarrow> c # aborted s | None \<Rightarrow> aborted s)"
    by (simp_all add: s'_def handle_def stopGeneration_def Let_def closeActiveStream_def split: option.split)
  have m: "messages s' = updateLastAssistantMessage (messages s) ?f" by (simp add: s'_def handle_def stop_messages)
  have "\<not> open_source s' x" using reachable_ok [OF r] s'(1) by (simp add: session_ok_def streams_ok_def)
  moreover have "butlast (messages s') = butlast (messages s)"
    unfolding m by (cases "messages s" rule: rev_cases) (simp_all add: updateLast_snoc)
  moreover have "messages s' \<noteq> [] \<and> msg_from (last (messages s')) = Assistant \<longrightarrow>
      \<not> isAssistantMessagePending (last (messages s'))"
    unfolding m using updateLast_last [where P = "\<lambda>m. \<not> isAssistantMessagePending m" and f = ?f, OF _ _ f] by blast
  moreover have "rid \<in> set (aborted s'')" if "abortController s = Some rid"
    using aborted_run [OF assms(3)] s'(6) that by auto
  ultimately show ?thesis
    using s' aborted_settlement [OF reachable_ok [OF reachable_run [OF r assms(3)]], of rid e r err tr clk' starts']
    by (auto simp: isGenerating_def)
qed

text \<open>The same question without streaming.\<close>

definition plain_question :: session where
  "plain_question = handle (\<lambda>x. x) (\<lambda>_. 0) True (SendMessage (js ''a'', js ''b'') (js ''c'', js ''d'') (js ''hi''))
     (initial_session (DEFAULT_CONFIG\<lparr>cfg_stream := False\<rparr>) DEFAULT_PARAMETER_ENABLED [])"

lemma plain_question_reachable: "reachable (\<lambda>x. x) plain_question"
  unfolding plain_question_def by (rule reachable.step [OF reachable.start]) simp

lemma stop_ends_generation_witness:
  "let s' = handle (\<lambda>x. x) (\<lambda>_. 9) True Stop plain_question in
   isGenerating plain_question \<and> \<not> isGenerating s' \<and>
   (\<forall>r. messages (handle (\<lambda>x. x) (\<lambda>_. 10) True (Response 1 r) s') = messages s')"
proof -
  let ?s' = "handle (\<lambda>x. x) (\<lambda>_. 9) True Stop plain_question"
  have g: "isGenerating plain_question" and a: "abortController plain_question = Some 1" by code_simp+
  have run: "run (\<lambda>x. x) [] ?s' = Some ?s'" by simp
  have "messages (handle (\<lambda>x. x) (\<lambda>_. 10) True (Response 1 r) ?s') = messages ?s'" and "\<not> isGenerating ?s'" for r
    using stop_ends_generation [OF plain_question_reachable refl run, of 0 1 "Response 1 r" r None "\<lambda>_. 10" True] a by auto
  then show ?thesis using g by (simp add: Let_def)
qed

text \<open>
  C15: an error of the open stream is shown and ends it. The last message becomes an error with
  the title and the text to display, that text is the toast, and the session is idle with no
  stream open.
\<close>

theorem stream_error_shown:
  assumes "reachable tr s" and "open_source s src"
    and "messages s = ms @ [m]" "msg_from m = Assistant"
    and "errorMessage_of (parseStreamErrorDetails data) = JStr e" and "rs \<noteq> Some 2"
    and s'_def: "s' = handle tr clk starts (SseError src rs data) s"
  shows "\<not> isGenerating s' \<and> \<not> open_source s' x \<and>
    toasts s' = toasts s @ [getDisplayError tr e] \<and>
    (\<exists>m'. messages s' = ms @ [m'] \<and> status m' = Some Failed \<and>
       getMessageContent m' = tr API_REQUEST_ERROR @ js '': '' @ getDisplayError tr e)"
proof -
  have ok: "session_ok s'" unfolding s'_def using reachable_ok [OF assms(1)] assms(2) by (intro ok_handle) auto
  have src: "sseSource s = Some src" "\<not> isStreamComplete s"
    using reachable_ok [OF assms(1)] assms(2) by (auto simp: session_ok_def streams_ok_def)
  let ?f = "flushStreamUpdates clk s"
  have s': "s' = closeActiveStream (Some src) (?f\<lparr>isRequesting := False, toasts := toasts ?f @ [getDisplayError tr e],
      messages := updateAssistantMessageWithError (clk 4) (messages ?f) (getDisplayError tr e)
        (errorCode_of (parseStreamErrorDetails data)) (tr API_REQUEST_ERROR)\<rparr>)"
    using src assms(5,6)
    by (simp add: s'_def handle_def on_error_def isStreamClosedReadyState_def STREAM_CLOSED_READY_STATE_def
        stream_handleError_def handleStreamError_def Let_def)
  have n: "sseSource s' = None" "\<not> isGenerating s'"
    using src by (simp_all add: s' closeActiveStream_def isGenerating_def)
  moreover have "\<not> open_source s' x" using ok n(1) by (simp add: session_ok_def streams_ok_def)
  moreover have "toasts s' = toasts s @ [getDisplayError tr e]"
    by (simp add: s' closeActiveStream_def Let_def) (simp add: flushStreamUpdates_def Let_def)
  moreover obtain m1 where "messages ?f = ms @ [m1]" "msg_from m1 = Assistant"
    using assms(3,4) by (simp add: flush_messages updateLast_snoc flush_upd.upd_from)
  ultimately show ?thesis
    by (simp add: s' updateAssistantMessageWithError_def updateLast_snoc error_update_def)
qed

lemma first_question_reachable: "reachable (\<lambda>x. x) first_question"
  unfolding first_question_def by (rule reachable.step [OF reachable.start]) simp

lemma session_safe_witness:
  "isGenerating first_question \<and>
   ((\<exists>src. enabled first_question (SseMessage src STREAM_DONE_MESSAGE)) \<or>
    (\<exists>rid. enabled first_question (Response rid None)))"
proof -
  have "isGenerating first_question" by code_simp
  then show ?thesis using session_safe [OF first_question_reachable, of 0 0] by blast
qed

lemma stream_error_shown_witness:
  "let s' = handle (\<lambda>x. x) (\<lambda>_. 9) True (SseError 0 None (Some (js ''boom''))) first_question in
   toasts s' = [js ''boom''] \<and> \<not> isGenerating s' \<and>
   getMessageContent (last (messages s')) = js ''Request error occurred: boom''"
proof -
  let ?ms = "butlast (messages first_question)" and ?m = "last (messages first_question)"
  have h: "open_source first_question 0"
    "messages first_question = ?ms @ [?m]" "msg_from ?m = Assistant"
    "errorMessage_of (parseStreamErrorDetails (Some (js ''boom''))) = JStr (js ''boom'')" "None \<noteq> Some (2::nat)"
    and d: "getDisplayError (\<lambda>x. x) (js ''boom'') = js ''boom''" "toasts first_question = []"
      "API_REQUEST_ERROR @ js '': '' @ js ''boom'' = js ''Request error occurred: boom''"
    by code_simp+
  show ?thesis
    using stream_error_shown [OF first_question_reachable h refl, of "\<lambda>_. 9" True 0]
    unfolding Let_def d by auto
qed

text \<open>
  without the condition on the chunks the text does depend on the timer. The chunks
  \<open>a\<close>, \<open>b\<close>, \<open>ba\<close> give \<open>abba\<close> when they are flushed together and \<open>aba\<close> when the timer fires
  after the first.
\<close>

theorem flush_timing_matters:
  "let text = (\<lambda>ts. map_option (\<lambda>s'. getMessageContent (last (messages s')))
        (run (\<lambda>x. x) (map (\<lambda>t. (tick_event 0 t, \<lambda>_. 1)) ts @ [(SseMessage 0 STREAM_DONE_MESSAGE, \<lambda>_. 2)])
          first_question)) in
   text [Delta (js ''a''), Delta (js ''b''), Delta (js ''ba'')] = Some (js ''abba'') \<and>
   text [Delta (js ''a''), Tick, Delta (js ''b''), Delta (js ''ba'')] = Some (js ''aba'')"
  by code_simp

lemma edit_sends:
  assumes "applyMessageEdit t ids ms key text True = Some r" and "shouldSend r"
  shows "\<exists>pre. edit_messages r = pre @ [createLoadingAssistantMessage (fst ids) (snd ids) t]"
  using assms by (auto simp: applyMessageEdit_def Let_def split: option.splits if_splits)

lemma loading_fields [simp]:
  "msg_from (createLoadingAssistantMessage k v t) = Assistant" "msg_key (createLoadingAssistantMessage k v t) = k"
  "status (createLoadingAssistantMessage k v t) = Some Loading" "getMessageContent (createLoadingAssistantMessage k v t) = []"
  by (simp_all add: createLoadingAssistantMessage_def bare_message_def getMessageContent_def getCurrentVersion_def
      createMessageVersion_def)

lemma flush_content:
  assumes "status m \<noteq> Some Failed"
  shows "getMessageContent (flush_message clk pc pr m) =
    (if pc = [] then getMessageContent (if pr \<noteq> [] then applyStreamingChunk (clk 0) (clk 1) m ReasoningChunk pr else m)
     else absorb (getMessageContent (if pr \<noteq> [] then applyStreamingChunk (clk 0) (clk 1) m ReasoningChunk pr else m)) pc)"
  using assms by (auto simp: flush_message_def Let_def content_chunk status_chunk)

lemma content_reasoning_chunk [simp]:
  "getMessageContent (applyStreamingChunk t1 t2 m ReasoningChunk c) = getMessageContent m"
  by (auto simp: applyStreamingChunk_def processStreamingContent_def getMessageContent_def getCurrentVersion_def Let_def)

text \<open>
  C27: text of the old answer ends up in the new one. While an answer streams and some of its text
  still waits for the flush timer, submitting an edited question closes the stream and appends a new
  answer, but does not drop the text: the timer, which stays set, writes it into the new answer.
\<close>

theorem stale_chunk_reaches_new_answer:
  assumes "reachable tr s" and "open_source s old" and "pendingContent s \<noteq> []" and "cfg_stream (config s)"
    and "editingMessageKey s = Some key" and "key \<noteq> []"
    and "applyMessageEdit (clk 7) ids (messages s) key text True = Some r" and "shouldSend r"
    and s1_def: "s1 = handle tr clk True (SaveEdit ids text True) s"
  shows "enabled s1 FlushTimer \<and> \<not> open_source s1 old \<and> (\<exists>new. open_source s1 new) \<and>
    (\<exists>pre m. messages (handle tr clk' starts FlushTimer s1) = pre @ [m] \<and> msg_key m = fst ids \<and>
       getMessageContent m = pendingContent s)"
proof -
  obtain pre where pre: "edit_messages r = pre @ [createLoadingAssistantMessage (fst ids) (snd ids) (clk 7)]"
    using edit_sends [OF assms(7,8)] ..
  have src: "sseSource s = Some old" and t: "flushTimer s"
    using reachable_ok [OF assms(1)] assms(2,3) by (auto simp: session_ok_def streams_ok_def timer_ok_def)
  have s1: "s1 = (open_stream (s\<lparr>editingMessageKey := None, messages := edit_messages r, isRequesting := True\<rparr>))
      \<lparr>sent := sent s @ [StreamRequest (sourceCount s) (buildChatCompletionPayload (edit_messages r) (config s) (parameterEnabled s))]\<rparr>"
    using assms(4-8) by (simp add: s1_def handle_def applyEdit_def sendChat_def sendStreamingChat_def sendStreamRequest_def
        open_stream_def Let_def)
  have ok: "reachable tr s1" unfolding s1_def using assms(1) by (rule reachable.step) simp
  have "sseSource s1 = Some (sourceCount s)" by (simp add: s1 open_stream_def)
  then have "open_source s1 (sourceCount s)" using reachable_ok [OF ok] by (simp add: session_ok_def streams_ok_def)
  moreover have "\<not> open_source s1 old" by (simp add: s1 open_stream_def open_source_def src)
  moreover have "flushTimer s1" "pendingContent s1 = pendingContent s" "messages s1 = edit_messages r"
    using t by (simp_all add: s1 open_stream_def)
  ultimately show ?thesis
    using assms(3) by (auto simp: handle_def flush_messages pre updateLast_snoc flush_upd.upd_key flush_content absorb_def)
qed

text \<open>A question that is being edited while the answer to another one streams.\<close>

definition edit_while_streaming :: "session option" where
  "edit_while_streaming = run (\<lambda>x. x)
     [(EditMessage (js ''a''), \<lambda>_. 1), (SendMessage (js ''c'', js ''d'') (js ''e'', js ''f'') (js ''more''), \<lambda>_. 2),
      (SseMessage 0 (delta_data (js ''old'')), \<lambda>_. 3)]
     (initial_session DEFAULT_CONFIG DEFAULT_PARAMETER_ENABLED [createUserMessage (js ''a'') (js ''b'') (js ''hi'') 0])"

lemma stale_chunk_reaches_new_answer_witness:
  "\<exists>s pre m. edit_while_streaming = Some s \<and>
     messages (handle (\<lambda>x. x) (\<lambda>_. 5) True FlushTimer
       (handle (\<lambda>x. x) (\<lambda>_. 4) True (SaveEdit (js ''g'', js ''h'') (js ''ho'') True) s)) = pre @ [m] \<and>
     msg_key m = js ''g'' \<and> getMessageContent m = js ''old''"
proof -
  have "edit_while_streaming \<noteq> None" by code_simp
  then obtain s where s: "edit_while_streaming = Some s" by auto
  have r: "reachable (\<lambda>x. x) s" using reachable_run [OF reachable.start] s unfolding edit_while_streaming_def by blast
  have "open_source (the edit_while_streaming) 0" "pendingContent (the edit_while_streaming) = js ''old''"
    "cfg_stream (config (the edit_while_streaming))" "editingMessageKey (the edit_while_streaming) = Some (js ''a'')"
    and "applyMessageEdit 4 (js ''g'', js ''h'') (messages (the edit_while_streaming)) (js ''a'') (js ''ho'') True \<noteq> None"
    and "shouldSend (the (applyMessageEdit 4 (js ''g'', js ''h'') (messages (the edit_while_streaming)) (js ''a'') (js ''ho'') True))"
    by code_simp+
  then have h: "open_source s 0" "pendingContent s \<noteq> []" "pendingContent s = js ''old''" "cfg_stream (config s)"
      "editingMessageKey s = Some (js ''a'')"
    and "\<exists>e. applyMessageEdit 4 (js ''g'', js ''h'') (messages s) (js ''a'') (js ''ho'') True = Some e \<and> shouldSend e"
    unfolding s by auto
  then obtain e where e: "applyMessageEdit ((\<lambda>_. 4) (7::nat)) (js ''g'', js ''h'') (messages s) (js ''a'') (js ''ho'') True = Some e"
      "shouldSend e" by auto
  have k: "js ''a'' \<noteq> []" by simp
  show ?thesis
    using stale_chunk_reaches_new_answer [OF r h(1,2,4,5) k e refl, of "\<lambda>_. 5" True] s h(3) by auto
qed

text \<open>
  C28: answers that are not streamed are not matched to their questions. While a request runs,
  submitting an edited question sends another one and leaves the first running; when the answer to the
  second has come and then the answer to the first, the conversation shows the first one under the
  edited question.
\<close>

theorem late_response_overwrites:
  assumes "reachable tr s" and "abortController s = Some rid" and "\<not> cfg_stream (config s)"
    and "editingMessageKey s = Some key" and "key \<noteq> []"
    and "applyMessageEdit (clk 7) ids (messages s) key text True = Some r" and "shouldSend r"
    and s1_def: "s1 = handle tr clk starts (SaveEdit ids text True) s"
    and s2_def: "s2 = handle tr clk2 starts (Response (Suc rid) (Some (new # news))) s1"
    and "choice_content old = Some late"
  shows "enabled s1 (Response (Suc rid) (Some (new # news))) \<and> enabled s2 (Response rid (Some (old # olds))) \<and>
    (\<exists>pre m. messages (handle tr clk3 starts (Response rid (Some (old # olds))) s2) = pre @ [m] \<and>
       msg_key m = fst ids \<and> getMessageContent m = visibleContent (parseThinkTags late))"
proof -
  obtain pre where pre: "edit_messages r = pre @ [createLoadingAssistantMessage (fst ids) (snd ids) (clk 7)]"
    using edit_sends [OF assms(6,7)] ..
  have rid: "rid = requestId s" "0 < rid" "rid \<notin> set (settled s)" "rid \<notin> set (aborted s)"
      "set (settled s) \<subseteq> {..requestId s}" "set (aborted s) \<subseteq> {..requestId s}"
    using reachable_ok [OF assms(1)] assms(2) by (auto simp: session_ok_def requests_ok_def)
  have "Suc rid \<notin> set (settled s)" "Suc rid \<notin> set (aborted s)"
    using rid by (auto dest: subsetD)
  moreover have s1: "messages s1 = edit_messages r" "requestId s1 = Suc rid" "settled s1 = settled s" "aborted s1 = aborted s"
    using assms(3-7) rid(1) by (simp_all add: s1_def handle_def applyEdit_def sendChat_def sendNonStreamingChat_def Let_def)
  ultimately have s2: "enabled s1 (Response (Suc rid) (Some (new # news)))" "requestId s2 = Suc rid"
      "settled s2 = Suc rid # settled s" "aborted s2 = aborted s"
      "messages s2 = updateLastAssistantMessage (messages s1) (\<lambda>m. applyChatCompletionChoice (clk2 0) (clk2 1) (clk2 2) m new)"
    by (simp_all add: s2_def handle_def on_response_def request_finally_def hasChatCompletionChoice_def first_choice_def
        applyChatCompletionResponse_def)
  show ?thesis
    using rid s1 s2 assms(10)
    by (simp add: handle_def on_response_def request_finally_def hasChatCompletionChoice_def first_choice_def
        applyChatCompletionResponse_def pre updateLast_snoc applyChatCompletionChoice_def content_finalize)
qed

text \<open>A question that is being edited while the request for another one runs.\<close>

definition edit_while_requesting :: "session option" where
  "edit_while_requesting = run (\<lambda>x. x)
     [(EditMessage (js ''a''), \<lambda>_. 1), (SendMessage (js ''c'', js ''d'') (js ''e'', js ''f'') (js ''more''), \<lambda>_. 2)]
     (initial_session (DEFAULT_CONFIG\<lparr>cfg_stream := False\<rparr>) DEFAULT_PARAMETER_ENABLED
       [createUserMessage (js ''a'') (js ''b'') (js ''hi'') 0])"

definition answer :: "jstring \<Rightarrow> chat_completion_choice" where
  "answer content = \<lparr>choice_content = Some content, choice_reasoning = None\<rparr>"

lemma late_response_overwrites_witness:
  "\<exists>s pre m. edit_while_requesting = Some s \<and>
     messages (handle (\<lambda>x. x) (\<lambda>_. 6) True (Response 1 (Some [answer (js ''old'')]))
       (handle (\<lambda>x. x) (\<lambda>_. 5) True (Response 2 (Some [answer (js ''new'')]))
         (handle (\<lambda>x. x) (\<lambda>_. 4) True (SaveEdit (js ''g'', js ''h'') (js ''ho'') True) s))) = pre @ [m] \<and>
     msg_key m = js ''g'' \<and> getMessageContent m = js ''old''"
proof -
  have "edit_while_requesting \<noteq> None" by code_simp
  then obtain s where s: "edit_while_requesting = Some s" by auto
  have r: "reachable (\<lambda>x. x) s" using reachable_run [OF reachable.start] s unfolding edit_while_requesting_def by blast
  have "abortController (the edit_while_requesting) = Some 1"
    "\<not> cfg_stream (config (the edit_while_requesting))" "editingMessageKey (the edit_while_requesting) = Some (js ''a'')"
    and "applyMessageEdit 4 (js ''g'', js ''h'') (messages (the edit_while_requesting)) (js ''a'') (js ''ho'') True \<noteq> None"
    and "shouldSend (the (applyMessageEdit 4 (js ''g'', js ''h'') (messages (the edit_while_requesting)) (js ''a'') (js ''ho'') True))"
    by code_simp+
  then have h: "abortController s = Some 1" "\<not> cfg_stream (config s)" "editingMessageKey s = Some (js ''a'')"
    and "\<exists>e. applyMessageEdit 4 (js ''g'', js ''h'') (messages s) (js ''a'') (js ''ho'') True = Some e \<and> shouldSend e"
    unfolding s by auto
  then obtain e where e: "applyMessageEdit ((\<lambda>_. 4) (7::nat)) (js ''g'', js ''h'') (messages s) (js ''a'') (js ''ho'') True = Some e"
      "shouldSend e" by auto
  have k: "js ''a'' \<noteq> []" by simp
  have o: "choice_content (answer (js ''old'')) = Some (js ''old'')" by (simp add: answer_def)
  have v: "visibleContent (parseThinkTags (js ''old'')) = js ''old''" by code_simp
  show ?thesis
    using late_response_overwrites [OF r h k e refl refl o, where starts = True and new = "answer (js ''new'')" and news = "[]" and olds = "[]"
        and ?clk2.0 = "\<lambda>_. 5" and ?clk3.0 = "\<lambda>_. 6"] s
    by (simp add: v numeral_2_eq_2) blast
qed

end
