(* ===== verification/JS_Regex.thy ===== *)
theory JS_Regex
  imports Prelude
begin

text \<open>
  Regular expressions of ECMAScript by backtracking. \<open>rx r st\<close> lists the ways \<open>r\<close> matches at a
  position in the order a backtracking engine tries them, so the head of the list is the match that
  \<open>exec\<close> reports. A position holds the text before it (reversed, for the assertions), the text
  after it and the captured groups.

  The forms are the ones the sources use: classes, sequence, alternation, greedy repetition,
  groups and references to them, \<open>^\<close> and \<open>$\<close> with and without the flag \<open>m\<close>, and \<open>\b\<close>. An iteration that
  consumes nothing is given up, as in the standard, so a repetition needs no more rounds than
  there is text left.
\<close>

datatype regex =
    RxEmpty
  | RxChar "code_unit \<Rightarrow> bool"
  | RxSeq regex regex
  | RxAlt regex regex
  | RxStar regex
  | RxGroup nat regex
  | RxStart
  | RxEnd
  | RxLineStart
  | RxLineEnd
  | RxWordBoundary
  | RxBack nat

record position =
  behind :: jstring
  rest :: jstring
  caps :: "(nat \<times> jstring) list"

fun rx_groups :: "regex \<Rightarrow> nat list" where
  "rx_groups (RxGroup i r) = i # rx_groups r"
| "rx_groups (RxSeq a b) = rx_groups a @ rx_groups b"
| "rx_groups (RxAlt a b) = rx_groups a @ rx_groups b"
| "rx_groups (RxStar r) = rx_groups r"
| "rx_groups _ = []"

text \<open>\<open>f\<close> as often as possible, first the longest ways.\<close>

primrec rx_repeat :: "(position \<Rightarrow> position list) \<Rightarrow> nat \<Rightarrow> position \<Rightarrow> position list" where
  "rx_repeat f 0 st = [st]"
| "rx_repeat f (Suc n) st =
     concat (map (rx_repeat f n) (filter (\<lambda>t. length (rest t) < length (rest st)) (f st))) @ [st]"

definition is_line_end :: "code_unit \<Rightarrow> bool" where
  "is_line_end c \<longleftrightarrow> c \<in> {10, 13, 8232, 8233}"

lemma ascii_not_line_end: "31 < c \<Longrightarrow> c < 127 \<Longrightarrow> \<not> is_line_end c"
  by (simp add: is_line_end_def)

definition is_word :: "code_unit \<Rightarrow> bool" where
  "is_word c \<longleftrightarrow> 48 \<le> c \<and> c \<le> 57 \<or> 65 \<le> c \<and> c \<le> 90 \<or> 97 \<le> c \<and> c \<le> 122 \<or> c = 95"

definition forget :: "nat list \<Rightarrow> position \<Rightarrow> position" where
  "forget is st = st\<lparr>caps := filter (\<lambda>(i, s). i \<notin> set is) (caps st)\<rparr>"

fun rx :: "regex \<Rightarrow> position \<Rightarrow> position list" where
  "rx RxEmpty st = [st]"
| "rx (RxChar P) st =
     (case rest st of
        [] \<Rightarrow> []
      | c # cs \<Rightarrow> if P c then [st\<lparr>behind := c # behind st, rest := cs\<rparr>] else [])"
| "rx (RxSeq a b) st = concat (map (rx b) (rx a st))"
| "rx (RxAlt a b) st = rx a st @ rx b st"
| "rx (RxStar r) st = rx_repeat (\<lambda>t. rx r (forget (rx_groups r) t)) (length (rest st)) st"
| "rx (RxGroup i r) st =
     map (\<lambda>t. t\<lparr>caps := AList.update i (take (length (rest st) - length (rest t)) (rest st)) (caps t)\<rparr>) (rx r st)"
| "rx RxStart st = (if behind st = [] then [st] else [])"
| "rx RxEnd st = (if rest st = [] then [st] else [])"
| "rx RxLineStart st = (if behind st = [] \<or> is_line_end (hd (behind st)) then [st] else [])"
| "rx RxLineEnd st = (if rest st = [] \<or> is_line_end (hd (rest st)) then [st] else [])"
| "rx RxWordBoundary st =
     (if (behind st \<noteq> [] \<and> is_word (hd (behind st))) \<noteq> (rest st \<noteq> [] \<and> is_word (hd (rest st))) then [st] else [])"
| "rx (RxBack i) st =
     (let u = (case map_of (caps st) i of Some w \<Rightarrow> w | None \<Rightarrow> []) in
      if prefix u (rest st) then [st\<lparr>behind := rev u @ behind st, rest := drop (length u) (rest st)\<rparr>] else [])"

section \<open>Derived forms\<close>

definition rx_plus :: "regex \<Rightarrow> regex" where
  "rx_plus r = RxSeq r (RxStar r)"

definition rx_opt :: "regex \<Rightarrow> regex" where
  "rx_opt r = RxAlt r RxEmpty"

fun rx_seq :: "regex list \<Rightarrow> regex" where
  "rx_seq [] = RxEmpty"
| "rx_seq [r] = r"
| "rx_seq (r # rs) = RxSeq r (rx_seq rs)"

fun rx_alt :: "regex list \<Rightarrow> regex" where
  "rx_alt [] = RxChar (\<lambda>_. False)"
| "rx_alt [r] = r"
| "rx_alt (r # rs) = RxAlt r (rx_alt rs)"

text \<open>\<open>r{lo,lo+n}\<close>\<close>

primrec rx_upto :: "nat \<Rightarrow> regex \<Rightarrow> regex" where
  "rx_upto 0 r = RxEmpty"
| "rx_upto (Suc n) r = rx_opt (RxSeq r (rx_upto n r))"

definition rx_between :: "nat \<Rightarrow> nat \<Rightarrow> regex \<Rightarrow> regex" where
  "rx_between lo hi r = rx_seq (replicate lo r @ [rx_upto (hi - lo) r])"

definition rx_str :: "jstring \<Rightarrow> regex" where
  "rx_str s = rx_seq (map (\<lambda>c. RxChar (\<lambda>d. d = c)) s)"

definition rx_in :: "jstring \<Rightarrow> regex" where
  "rx_in s = RxChar (\<lambda>d. d \<in> set s)"

definition rx_not_in :: "jstring \<Rightarrow> regex" where
  "rx_not_in s = RxChar (\<lambda>d. d \<notin> set s)"

abbreviation rx_digit :: regex where
  "rx_digit \<equiv> RxChar is_digit"

abbreviation rx_space :: regex where
  "rx_space \<equiv> RxChar is_ws"

text \<open>\<open>.\<close> without and with the flag \<open>s\<close>.\<close>

abbreviation rx_dot :: regex where
  "rx_dot \<equiv> RxChar (\<lambda>c. \<not> is_line_end c)"

abbreviation rx_any :: regex where
  "rx_any \<equiv> RxChar (\<lambda>_. True)"

section \<open>Searching\<close>

record rx_match =
  m_index :: nat
  m_text :: jstring
  m_caps :: "(nat \<times> jstring) list"
  m_before :: jstring
  m_rest :: jstring

definition start_at :: "jstring \<Rightarrow> jstring \<Rightarrow> position" where
  "start_at pre suf = \<lparr>behind = pre, rest = suf, caps = []\<rparr>"

text \<open>The first match at or after a position.\<close>

fun rx_search :: "regex \<Rightarrow> jstring \<Rightarrow> jstring \<Rightarrow> rx_match option" where
  "rx_search r pre suf =
     (case rx r (start_at pre suf) of
        t # _ \<Rightarrow> Some \<lparr>m_index = length pre, m_text = take (length suf - length (rest t)) suf,
          m_caps = caps t, m_before = behind t, m_rest = rest t\<rparr>
      | [] \<Rightarrow> (case suf of [] \<Rightarrow> None | c # cs \<Rightarrow> rx_search r (c # pre) cs))"

declare rx_search.simps [simp del]

definition rx_exec :: "regex \<Rightarrow> jstring \<Rightarrow> rx_match option" where
  "rx_exec r s = rx_search r [] s"

definition rx_test :: "regex \<Rightarrow> jstring \<Rightarrow> bool" where
  "rx_test r s \<longleftrightarrow> rx_exec r s \<noteq> None"

definition cap :: "rx_match \<Rightarrow> nat \<Rightarrow> jstring option" where
  "cap m i = map_of (m_caps m) i"

section \<open>A match is a part of the text\<close>

definition follows :: "position \<Rightarrow> position \<Rightarrow> bool" where
  "follows t st \<longleftrightarrow> (\<exists>u. rest st = u @ rest t \<and> behind t = rev u @ behind st)"

lemma follows_refl [simp]: "follows st st"
  by (simp add: follows_def)

lemma follows_trans: "follows u t \<Longrightarrow> follows t st \<Longrightarrow> follows u st"
  unfolding follows_def by (metis append.assoc rev_append)

lemma follows_caps [simp]: "follows (t\<lparr>caps := c\<rparr>) st = follows t st" "follows t (forget is st) = follows t st"
  by (simp_all add: follows_def forget_def)

lemma rx_repeat_follows:
  assumes "\<And>st t. t \<in> set (f st) \<Longrightarrow> follows t st"
  shows "t \<in> set (rx_repeat f n st) \<Longrightarrow> follows t st"
proof (induction n arbitrary: st)
  case (Suc n)
  then show ?case using assms follows_trans by fastforce
qed simp

lemma rx_follows: "t \<in> set (rx r st) \<Longrightarrow> follows t st"
proof (induction r arbitrary: t st)
  case (RxChar P)
  then show ?case by (auto simp: follows_def split: list.splits if_splits)
next
  case (RxSeq a b)
  then show ?case using follows_trans by fastforce
next
  case (RxStar r)
  have "follows t (st)" if "t \<in> set (rx r (forget (rx_groups r) st))" for t st
    using RxStar.IH [OF that] by simp
  then show ?case using RxStar.prems rx_repeat_follows by fastforce
next
  case (RxBack i)
  then show ?case by (auto simp: follows_def Let_def prefix_def split: if_splits)
qed (auto split: if_splits)

lemma rx_search_parts:
  assumes "rx_search r pre suf = Some m"
  shows "rev pre @ suf = take (m_index m) (rev pre @ suf) @ m_text m @ m_rest m \<and>
    length pre \<le> m_index m \<and> m_index m \<le> length pre + length suf \<and>
    m_before m = rev (take (m_index m) (rev pre @ suf) @ m_text m)"
  using assms
proof (induction r pre suf rule: rx_search.induct)
  case (1 r pre suf)
  show ?case
  proof (cases "rx r (start_at pre suf)")
    case Nil
    then obtain c cs where suf: "suf = c # cs" using "1.prems" by (subst (asm) rx_search.simps) (auto split: list.splits)
    then have "rx_search r (c # pre) cs = Some m" using "1.prems" Nil by (subst (asm) rx_search.simps) simp
    moreover have e: "rev (c # pre) @ cs = rev pre @ suf" by (simp add: suf)
    ultimately show ?thesis
      using "1.IH" [OF Nil suf] unfolding e by (metis Suc_leD add_Suc_shift length_Cons suf)
  next
    case (Cons t ts)
    then have "follows t (start_at pre suf)" using rx_follows [of t r "start_at pre suf"] by simp
    then obtain u where u: "suf = u @ rest t" "behind t = rev u @ pre"
      by (auto simp: follows_def start_at_def)
    have m: "m = \<lparr>m_index = length pre, m_text = u, m_caps = caps t, m_before = behind t, m_rest = rest t\<rparr>"
      using "1.prems" Cons u(1) by (subst (asm) rx_search.simps) simp
    show ?thesis by (simp add: m u)
  qed
qed

lemma rx_search_shorter:
  assumes "rx_search r pre suf = Some m"
  shows "length suf = (m_index m - length pre) + length (m_text m) + length (m_rest m)"
  using rx_search_parts [OF assms] by (metis (no_types, lifting) add_diff_cancel_left' diff_add_inverse2 length_append
      length_rev length_take min.absorb2 add.assoc Nat.add_diff_assoc2)

text \<open>\<open>matchAll\<close>: every match, each search starting where the last one ended.\<close>

function rx_all :: "regex \<Rightarrow> jstring \<Rightarrow> jstring \<Rightarrow> rx_match list" where
  "rx_all r pre suf =
     (case rx_search r pre suf of
        None \<Rightarrow> []
      | Some m \<Rightarrow>
          m # (if m_text m \<noteq> [] then rx_all r (m_before m) (m_rest m)
               else case m_rest m of [] \<Rightarrow> [] | c # cs \<Rightarrow> rx_all r (c # m_before m) cs))"
  by pat_completeness auto
termination
proof (relation "measure (\<lambda>(r, pre, suf). length suf)"; clarsimp)
  fix r pre suf m
  assume m: "rx_search r pre suf = Some m"
  note l = rx_search_shorter [OF m]
  show "m_text m \<noteq> [] \<Longrightarrow> length (m_rest m) < length suf"
    using l by (cases "m_text m") auto
  show "m_rest m = c # cs \<Longrightarrow> length cs < length suf" for c cs
    using l by simp
qed

declare rx_all.simps [simp del]

definition matchAll :: "regex \<Rightarrow> jstring \<Rightarrow> rx_match list" where
  "matchAll r s = rx_all r [] s"

text \<open>\<open>split(r)\<close> for a pattern that never matches the empty text.\<close>

function rx_split_from :: "regex \<Rightarrow> jstring \<Rightarrow> jstring \<Rightarrow> jstring list" where
  "rx_split_from r pre suf =
     (case rx_search r pre suf of
        None \<Rightarrow> [suf]
      | Some m \<Rightarrow>
          if m_text m = [] then [suf]
          else take (m_index m - length pre) suf # rx_split_from r (m_before m) (m_rest m))"
  by pat_completeness auto
termination
proof (relation "measure (\<lambda>(r, pre, suf). length suf)"; clarsimp)
  fix r pre suf m
  assume m: "rx_search r pre suf = Some m" "m_text m \<noteq> []"
  show "length (m_rest m) < length suf"
    using rx_search_shorter [OF m(1)] m(2) by (cases "m_text m") auto
qed

declare rx_split_from.simps [simp del]

definition rx_split :: "regex \<Rightarrow> jstring \<Rightarrow> jstring list" where
  "rx_split r s = rx_split_from r [] s"

section \<open>Repeating a class\<close>

definition advance :: "nat \<Rightarrow> position \<Rightarrow> position" where
  "advance k st = st\<lparr>behind := rev (take k (rest st)) @ behind st, rest := drop k (rest st)\<rparr>"

text \<open>A repeated class stops after each of the characters it can take, last first.\<close>

lemma rx_star_char:
  "rx (RxStar (RxChar P)) st = map (\<lambda>k. advance k st) (rev [0..<Suc (length (takeWhile P (rest st)))])"
proof -
  have "length (takeWhile P (rest st)) \<le> n \<Longrightarrow>
    rx_repeat (\<lambda>t. rx (RxChar P) (forget [] t)) n st =
      map (\<lambda>k. advance k st) (rev [0..<Suc (length (takeWhile P (rest st)))])" for n
  proof (induction n arbitrary: st)
    case 0
    then show ?case by (simp add: advance_def)
  next
    case (Suc n)
    show ?case
    proof (cases "rest st")
      case Nil
      then show ?thesis by (simp add: advance_def forget_def)
    next
      case (Cons c cs)
      show ?thesis
      proof (cases "P c")
        case True
        let ?t = "st\<lparr>behind := c # behind st, rest := cs\<rparr>"
        have *: "forget [] st = st" by (cases st) (simp add: forget_def)
        have "rx_repeat (\<lambda>t. rx (RxChar P) (forget [] t)) (Suc n) st =
            map (\<lambda>k. advance k ?t) (rev [0..<Suc (length (takeWhile P cs))]) @ [st]"
          using Suc.IH [of ?t] Suc.prems Cons True by (simp add: *)
        moreover have "advance k ?t = advance (Suc k) st" for k using Cons by (simp add: advance_def)
        moreover have "advance 0 st = st" by (simp add: advance_def)
        ultimately show ?thesis
          using Cons True
          by (simp add: map_Suc_upt [symmetric] rev_map [symmetric] upt_conv_Cons [of 0] del: upt_Suc)
      next
        case False
        then show ?thesis using Cons by (simp add: advance_def forget_def)
      qed
    qed
  qed
  from this [of "length (rest st)"] show ?thesis
    by (simp add: length_takeWhile_le)
qed

section \<open>What a pattern reads\<close>

text \<open>
  \<open>rx_reads r p s c v c'\<close>: one of the ways \<open>r\<close> matches at the text \<open>s\<close> (after \<open>p\<close>, reversed) leaves
  \<open>v\<close> and turns the captured groups \<open>c\<close> into \<open>c'\<close>. It is a description of a pattern by equations
  between texts; where only one reading is possible, it decides what \<open>exec\<close> returns.
\<close>

named_theorems rx_eqs \<open>what the forms of a pattern read\<close>

type_synonym groups = "(nat \<times> jstring) list"

definition rx_reads :: "regex \<Rightarrow> jstring \<Rightarrow> jstring \<Rightarrow> groups \<Rightarrow> jstring \<Rightarrow> groups \<Rightarrow> bool" where
  "rx_reads r p s c v c' \<longleftrightarrow>
     (\<exists>q. \<lparr>behind = q, rest = v, caps = c'\<rparr> \<in> set (rx r \<lparr>behind = p, rest = s, caps = c\<rparr>))"

lemma rx_readsI: "t \<in> set (rx r \<lparr>behind = p, rest = s, caps = c\<rparr>) \<Longrightarrow> rx_reads r p s c (rest t) (caps t)"
  unfolding rx_reads_def by (metis (full_types) position.surjective old.unit.exhaust)

lemma rx_reads_before:
  assumes "\<lparr>behind = q, rest = v, caps = c'\<rparr> \<in> set (rx r \<lparr>behind = p, rest = s, caps = c\<rparr>)"
  obtains u where "s = u @ v" "q = rev u @ p"
  using rx_follows [OF assms] by (auto simp: follows_def)

lemma rx_reads_suffix: "rx_reads r p s c v c' \<Longrightarrow> \<exists>u. s = u @ v"
  unfolding rx_reads_def by (auto elim: rx_reads_before)

lemma reads_RxEmpty [rx_eqs]: "rx_reads RxEmpty p s c v c' \<longleftrightarrow> v = s \<and> c' = c"
  by (auto simp: rx_reads_def)

lemma reads_RxChar [rx_eqs]: "rx_reads (RxChar P) p s c v c' \<longleftrightarrow> (\<exists>x. s = x # v \<and> P x \<and> c' = c)"
  by (auto simp: rx_reads_def split: list.splits)

lemma reads_RxSeq:
  "rx_reads (RxSeq a b) p s c v c' \<longleftrightarrow>
     (\<exists>u w c1. s = u @ w \<and> rx_reads a p s c w c1 \<and> rx_reads b (rev u @ p) w c1 v c')"
proof
  assume "rx_reads (RxSeq a b) p s c v c'"
  then obtain q t where t: "t \<in> set (rx a \<lparr>behind = p, rest = s, caps = c\<rparr>)"
    "\<lparr>behind = q, rest = v, caps = c'\<rparr> \<in> set (rx b t)" unfolding rx_reads_def by auto
  obtain q1 w c1 where t1: "t = \<lparr>behind = q1, rest = w, caps = c1\<rparr>" by (cases t)
  obtain u where "s = u @ w" "q1 = rev u @ p" using t(1) unfolding t1 by (rule rx_reads_before)
  then show "\<exists>u w c1. s = u @ w \<and> rx_reads a p s c w c1 \<and> rx_reads b (rev u @ p) w c1 v c'"
    using t unfolding t1 rx_reads_def by blast
next
  assume "\<exists>u w c1. s = u @ w \<and> rx_reads a p s c w c1 \<and> rx_reads b (rev u @ p) w c1 v c'"
  then obtain u w c1 q q' where *: "s = u @ w"
    "\<lparr>behind = q, rest = w, caps = c1\<rparr> \<in> set (rx a \<lparr>behind = p, rest = s, caps = c\<rparr>)"
    "\<lparr>behind = q', rest = v, caps = c'\<rparr> \<in> set (rx b \<lparr>behind = rev u @ p, rest = w, caps = c1\<rparr>)"
    unfolding rx_reads_def by blast
  obtain u' where "s = u' @ w" "q = rev u' @ p" using *(2) by (rule rx_reads_before)
  then show "rx_reads (RxSeq a b) p s c v c'" using * unfolding rx_reads_def by auto
qed

lemma reads_RxAlt [rx_eqs]: "rx_reads (RxAlt a b) p s c v c' \<longleftrightarrow> rx_reads a p s c v c' \<or> rx_reads b p s c v c'"
  by (auto simp: rx_reads_def)

lemma reads_RxGroup:
  "rx_reads (RxGroup i r) p s c v c' \<longleftrightarrow> (\<exists>u c1. s = u @ v \<and> rx_reads r p s c v c1 \<and> c' = AList.update i u c1)"
proof
  assume "rx_reads (RxGroup i r) p s c v c'"
  then obtain q t where t: "t \<in> set (rx r \<lparr>behind = p, rest = s, caps = c\<rparr>)"
    "\<lparr>behind = q, rest = v, caps = c'\<rparr> = t\<lparr>caps := AList.update i (take (length s - length (rest t)) s) (caps t)\<rparr>"
    unfolding rx_reads_def by auto
  have r: "rest t = v" "c' = AList.update i (take (length s - length v) s) (caps t)"
    using t(2) by (cases t, simp)+
  have "rx_reads r p s c v (caps t)" using rx_readsI [OF t(1)] r(1) by simp
  then show "\<exists>u c1. s = u @ v \<and> rx_reads r p s c v c1 \<and> c' = AList.update i u c1"
    using rx_reads_suffix r(2) by force
next
  assume "\<exists>u c1. s = u @ v \<and> rx_reads r p s c v c1 \<and> c' = AList.update i u c1"
  then obtain u c1 q where *: "s = u @ v" "c' = AList.update i u c1"
    "\<lparr>behind = q, rest = v, caps = c1\<rparr> \<in> set (rx r \<lparr>behind = p, rest = s, caps = c\<rparr>)"
    unfolding rx_reads_def by blast
  have "\<lparr>behind = q, rest = v, caps = c'\<rparr> \<in> set (rx (RxGroup i r) \<lparr>behind = p, rest = s, caps = c\<rparr>)"
    using imageI [OF *(3), of "\<lambda>t. t\<lparr>caps := AList.update i (take (length s - length (rest t)) s) (caps t)\<rparr>"] *(1,2)
    by simp
  then show "rx_reads (RxGroup i r) p s c v c'" unfolding rx_reads_def by blast
qed

lemma reads_RxStart [rx_eqs]: "rx_reads RxStart p s c v c' \<longleftrightarrow> p = [] \<and> v = s \<and> c' = c"
  by (auto simp: rx_reads_def)

lemma reads_RxEnd [rx_eqs]: "rx_reads RxEnd p s c v c' \<longleftrightarrow> s = [] \<and> v = [] \<and> c' = c"
  by (auto simp: rx_reads_def)

lemma reads_RxBack [rx_eqs]:
  "rx_reads (RxBack i) p s c v c' \<longleftrightarrow>
     s = (case map_of c i of Some w \<Rightarrow> w | None \<Rightarrow> []) @ v \<and> c' = c"
  by (auto simp: rx_reads_def Let_def prefix_def)

lemma reads_RxWordBoundary [rx_eqs]:
  "rx_reads RxWordBoundary p s c v c' \<longleftrightarrow>
     (p \<noteq> [] \<and> is_word (hd p)) \<noteq> (s \<noteq> [] \<and> is_word (hd s)) \<and> v = s \<and> c' = c"
  by (auto simp: rx_reads_def)

text \<open>Repetition.\<close>

lemma rx_repeat_enough:
  "length (rest st) \<le> n \<Longrightarrow> rx_repeat f n st = rx_repeat f (length (rest st)) st"
proof (induction n arbitrary: st rule: less_induct)
  case (less n)
  show ?case
  proof (cases "rest st")
    case Nil
    then show ?thesis by (cases n) auto
  next
    case (Cons x xs)
    then obtain m where n: "n = Suc m" "length xs \<le> m" using less.prems by (cases n) auto
    have "rx_repeat f m t = rx_repeat f (length xs) t" if t: "length (rest t) < length (rest st)" for t
    proof -
      have "rx_repeat f m t = rx_repeat f (length (rest t)) t"
        using less.IH [of m t] n t Cons by simp
      moreover have "rx_repeat f (length xs) t = rx_repeat f (length (rest t)) t"
        using less.IH [of "length xs" t] n t Cons by simp
      ultimately show ?thesis by simp
    qed
    then show ?thesis using Cons n by (auto intro!: arg_cong [where f = concat] map_cong)
  qed
qed

lemma reads_RxStar:
  "rx_reads (RxStar r) p s c v c' \<longleftrightarrow>
     v = s \<and> c' = c \<or>
     (\<exists>u w c1. u \<noteq> [] \<and> s = u @ w \<and> rx_reads r p s (filter (\<lambda>(i, t). i \<notin> set (rx_groups r)) c) w c1 \<and>
        rx_reads (RxStar r) (rev u @ p) w c1 v c')"
proof -
  define f where "f = (\<lambda>t. rx r (forget (rx_groups r) t))"
  define st where "st = \<lparr>behind = p, rest = s, caps = c\<rparr>"
  have star: "rx (RxStar r) t = rx_repeat f (length (rest t)) t" for t by (simp add: f_def)
  have unf: "set (rx (RxStar r) st) =
      insert st (\<Union>t \<in> {t \<in> set (f st). length (rest t) < length s}. set (rx (RxStar r) t))"
  proof (cases s)
    case Nil
    then show ?thesis unfolding star by (simp add: st_def)
  next
    case (Cons x xs)
    have "rx_repeat f (length xs) t = rx (RxStar r) t" if "length (rest t) < length s" for t
      unfolding star using rx_repeat_enough [of t "length xs" f] that Cons by simp
    then show ?thesis unfolding star [of st] using Cons by (auto simp: st_def)
  qed
  have fst: "f st = rx r \<lparr>behind = p, rest = s, caps = filter (\<lambda>(i, t). i \<notin> set (rx_groups r)) c\<rparr>"
    by (simp add: f_def st_def forget_def)
  let ?c = "filter (\<lambda>(i, t). i \<notin> set (rx_groups r)) c"
  have "rx_reads (RxStar r) p s c v c' \<longleftrightarrow> v = s \<and> c' = c \<or>
      (\<exists>q. \<exists>t \<in> set (f st). length (rest t) < length s \<and> \<lparr>behind = q, rest = v, caps = c'\<rparr> \<in> set (rx (RxStar r) t))"
    unfolding rx_reads_def st_def [symmetric] unf by (auto simp: st_def)
  also have "(\<exists>q. \<exists>t \<in> set (f st). length (rest t) < length s \<and> \<lparr>behind = q, rest = v, caps = c'\<rparr> \<in> set (rx (RxStar r) t)) \<longleftrightarrow>
      (\<exists>u w c1. u \<noteq> [] \<and> s = u @ w \<and> rx_reads r p s ?c w c1 \<and> rx_reads (RxStar r) (rev u @ p) w c1 v c')"
    (is "?L \<longleftrightarrow> ?R")
  proof
    assume ?L
    then obtain q t where t: "t \<in> set (f st)" "length (rest t) < length s"
      "\<lparr>behind = q, rest = v, caps = c'\<rparr> \<in> set (rx (RxStar r) t)" by blast
    obtain q1 w c1 where t1: "t = \<lparr>behind = q1, rest = w, caps = c1\<rparr>" by (cases t)
    obtain u where u: "s = u @ w" "q1 = rev u @ p" using t(1) unfolding fst t1 by (rule rx_reads_before)
    have "rx_reads r p s ?c w c1" using t(1) unfolding fst t1 rx_reads_def by blast
    moreover have "rx_reads (RxStar r) (rev u @ p) w c1 v c'" using t(3) unfolding t1 u(2) rx_reads_def by blast
    ultimately show ?R using u t(2) t1 by (intro exI [of _ u] exI [of _ w] exI [of _ c1]) auto
  next
    assume ?R
    then obtain u w c1 q q' where *: "u \<noteq> []" "s = u @ w" "\<lparr>behind = q, rest = w, caps = c1\<rparr> \<in> set (f st)"
      "\<lparr>behind = q', rest = v, caps = c'\<rparr> \<in> set (rx (RxStar r) \<lparr>behind = rev u @ p, rest = w, caps = c1\<rparr>)"
      unfolding rx_reads_def fst by blast
    obtain u' where "s = u' @ w" "q = rev u' @ p" using *(3) unfolding fst by (rule rx_reads_before)
    then have "q = rev u @ p" using *(2) by simp
    then show ?L using * by (intro exI [of _ q'] bexI [OF _ *(3)]) auto
  qed
  finally show ?thesis .
qed

text \<open>The sequences that occur most: after a literal, a class or a group comes the rest.\<close>

lemma reads_after_char [rx_eqs]:
  "rx_reads (RxSeq (RxChar P) b) p s c v c' \<longleftrightarrow> (\<exists>x w. s = x # w \<and> P x \<and> rx_reads b (x # p) w c v c')"
  by (fastforce simp: reads_RxSeq reads_RxChar)

lemma reads_after_empty [rx_eqs]: "rx_reads (RxSeq RxEmpty b) p s c v c' \<longleftrightarrow> rx_reads b p s c v c'"
  by (auto simp: reads_RxSeq reads_RxEmpty)

lemma reads_after_group:
  "rx_reads (RxSeq (RxGroup i r) b) p s c v c' \<longleftrightarrow>
     (\<exists>u w c1. s = u @ w \<and> rx_reads r p s c w c1 \<and> rx_reads b (rev u @ p) w (AList.update i u c1) v c')"
  by (fastforce simp: reads_RxSeq reads_RxGroup)

lemma reads_after_start [rx_eqs]: "rx_reads (RxSeq RxStart b) p s c v c' \<longleftrightarrow> p = [] \<and> rx_reads b p s c v c'"
  by (auto simp: reads_RxSeq reads_RxStart)

lemma reads_after_back [rx_eqs]:
  "rx_reads (RxSeq (RxBack i) b) p s c v c' \<longleftrightarrow>
     (let u = (case map_of c i of Some w \<Rightarrow> w | None \<Rightarrow> []) in
      \<exists>w. s = u @ w \<and> rx_reads b (rev u @ p) w c v c')"
  by (auto simp: reads_RxSeq reads_RxBack Let_def)

lemma reads_after_alt [rx_eqs]:
  "rx_reads (RxSeq (RxAlt a a') b) p s c v c' \<longleftrightarrow> rx_reads (RxSeq a b) p s c v c' \<or> rx_reads (RxSeq a' b) p s c v c'"
  by (auto simp: reads_RxSeq reads_RxAlt)

lemma reads_after_seq [rx_eqs]:
  "rx_reads (RxSeq (RxSeq a a') b) p s c v c' \<longleftrightarrow> rx_reads (RxSeq a (RxSeq a' b)) p s c v c'"
proof -
  have "concat (map f (concat (map g xs))) = concat (map (\<lambda>t. concat (map f (g t))) xs)" for f g and xs :: "position list"
    by (induction xs) auto
  then have "rx (RxSeq (RxSeq a a') b) st = rx (RxSeq a (RxSeq a' b)) st" for st
    by (simp cong: map_cong)
  then show ?thesis by (simp add: rx_reads_def)
qed

lemma reads_rx_str_aux:
  "rx_reads (rx_str w) p s c v c' \<longleftrightarrow> s = w @ v \<and> c' = c"
  "rx_reads (RxSeq (rx_str w) b) p s c v c' \<longleftrightarrow> (\<exists>y. s = w @ y \<and> rx_reads b (rev w @ p) y c v c')"
proof (induction w arbitrary: p s)
  case Nil
  { case 1 show ?case by (auto simp: rx_str_def rx_eqs) next case 2 show ?case by (auto simp: rx_str_def rx_eqs) }
next
  case (Cons x w)
  have e: "rx_str (x # w) = (if w = [] then RxChar (\<lambda>d. d = x) else RxSeq (RxChar (\<lambda>d. d = x)) (rx_str w))"
    by (cases w) (auto simp: rx_str_def)
  { case 1 show ?case unfolding e using Cons.IH(1) by (auto simp: rx_eqs)
  next case 2 show ?case unfolding e using Cons.IH(2) by (auto simp: rx_eqs) }
qed

lemmas reads_rx_str [rx_eqs] = reads_rx_str_aux(1)
lemmas reads_after_str [rx_eqs] = reads_rx_str_aux(2)

lemma reads_star_class [rx_eqs]:
  "rx_reads (RxStar (RxChar P)) p s c v c' \<longleftrightarrow> (\<exists>u. s = u @ v \<and> list_all P u \<and> c' = c)"
proof -
  have "rx_reads (RxStar (RxChar P)) p s c v c' \<longleftrightarrow>
      (\<exists>k \<le> length (takeWhile P s). v = drop k s) \<and> c' = c"
    unfolding rx_reads_def rx_star_char
    by (auto simp: advance_def less_Suc_eq_le image_iff Bex_def simp del: upt_Suc)
  moreover have "(\<exists>k \<le> length (takeWhile P s). v = drop k s) \<longleftrightarrow> (\<exists>u. s = u @ v \<and> list_all P u)" (is "?L \<longleftrightarrow> ?R")
  proof
    assume ?L
    then obtain k where k: "k \<le> length (takeWhile P s)" "v = drop k s" by blast
    have "take k s = take k (takeWhile P s)" using k(1) by (metis takeWhile_eq_take take_take min.absorb1)
    then have "list_all P (take k s)" by (auto simp: list_all_iff dest!: in_set_takeD dest: set_takeWhileD)
    then show ?R using k(2) by (intro exI [of _ "take k s"]) simp
  next
    assume ?R
    then obtain u where "s = u @ v" "list_all P u" by blast
    then show ?L by (intro exI [of _ "length u"]) (simp add: list_all_iff)
  qed
  ultimately show ?thesis by auto
qed

lemma reads_after_star_class [rx_eqs]:
  "rx_reads (RxSeq (RxStar (RxChar P)) b) p s c v c' \<longleftrightarrow>
     (\<exists>u w. s = u @ w \<and> list_all P u \<and> rx_reads b (rev u @ p) w c v c')"
  by (fastforce simp: reads_RxSeq reads_star_class)

lemma reads_plus_class [rx_eqs]:
  "rx_reads (rx_plus (RxChar P)) p s c v c' \<longleftrightarrow> (\<exists>u. s = u @ v \<and> u \<noteq> [] \<and> list_all P u \<and> c' = c)"
  unfolding rx_plus_def by (auto simp: rx_eqs neq_Nil_conv)

lemma reads_after_plus_class [rx_eqs]:
  "rx_reads (RxSeq (rx_plus (RxChar P)) b) p s c v c' \<longleftrightarrow>
     (\<exists>u w. s = u @ w \<and> u \<noteq> [] \<and> list_all P u \<and> rx_reads b (rev u @ p) w c v c')"
  by (fastforce simp: reads_RxSeq reads_plus_class)

lemma reads_group_class [rx_eqs]:
  "rx_reads (RxSeq (RxGroup i (rx_plus (RxChar P))) b) p s c v c' \<longleftrightarrow>
     (\<exists>u w. s = u @ w \<and> u \<noteq> [] \<and> list_all P u \<and> rx_reads b (rev u @ p) w (AList.update i u c) v c')"
  "rx_reads (RxSeq (RxGroup i (RxStar (RxChar P))) b) p s c v c' \<longleftrightarrow>
     (\<exists>u w. s = u @ w \<and> list_all P u \<and> rx_reads b (rev u @ p) w (AList.update i u c) v c')"
  by (fastforce simp: reads_after_group reads_plus_class reads_star_class)+

lemma reads_words:
  "rx_reads (rx_alt (map rx_str ws)) p s c v c' \<longleftrightarrow> (\<exists>u \<in> set ws. s = u @ v) \<and> c' = c"
  by (induction ws rule: induct_list012) (auto simp: rx_eqs)

lemma reads_group_words:
  "rx_reads (RxSeq (RxGroup i (rx_alt (map rx_str ws))) b) p s c v c' \<longleftrightarrow>
     (\<exists>u \<in> set ws. \<exists>w. s = u @ w \<and> rx_reads b (rev u @ p) w (AList.update i u c) v c')"
  by (fastforce simp: reads_after_group reads_words)

lemma reads_opt [rx_eqs]:
  "rx_reads (rx_opt r) p s c v c' \<longleftrightarrow> rx_reads r p s c v c' \<or> v = s \<and> c' = c"
  "rx_reads (RxSeq (rx_opt r) b) p s c v c' \<longleftrightarrow> rx_reads (RxSeq r b) p s c v c' \<or> rx_reads b p s c v c'"
  unfolding rx_opt_def by (simp_all add: rx_eqs)

text \<open>Patterns that start with \<open>^\<close>.\<close>

lemma rx_search_anchored: "p \<noteq> [] \<Longrightarrow> rx_search (RxSeq RxStart r) p s = None"
  by (induction s arbitrary: p) (subst rx_search.simps, simp add: start_at_def)+

lemma rx_exec_anchored:
  "rx_exec (RxSeq RxStart r) s =
     (case rx r (start_at [] s) of
        [] \<Rightarrow> None
      | t # _ \<Rightarrow> Some \<lparr>m_index = 0, m_text = take (length s - length (rest t)) s,
          m_caps = caps t, m_before = behind t, m_rest = rest t\<rparr>)"
  unfolding rx_exec_def
  by (subst rx_search.simps) (auto simp: start_at_def rx_search_anchored split: list.split)

lemma rx_exec_None_iff:
  "rx_exec (RxSeq RxStart r) s = None \<longleftrightarrow> (\<nexists>v c'. rx_reads r [] s [] v c')"
proof -
  have "rx_exec (RxSeq RxStart r) s = None \<longleftrightarrow> set (rx r (start_at [] s)) = {}"
    unfolding rx_exec_anchored by (auto split: list.splits)
  also have "\<dots> \<longleftrightarrow> (\<nexists>v c'. rx_reads r [] s [] v c')"
    unfolding rx_reads_def start_at_def by (metis (no_types) all_not_in_conv position.cases)
  finally show ?thesis .
qed

lemma rx_exec_Some:
  "rx_exec (RxSeq RxStart r) s = Some m \<Longrightarrow> rx_reads r [] s [] (m_rest m) (m_caps m)"
  unfolding rx_exec_anchored start_at_def
  by (auto split: list.splits intro!: rx_readsI)

text \<open>One reading only: this is the match.\<close>

lemma rx_exec_unique:
  assumes "rx_reads r [] s [] v c" and "\<And>v' c'. rx_reads r [] s [] v' c' \<Longrightarrow> c' = c"
  obtains m where "rx_exec (RxSeq RxStart r) s = Some m" "m_caps m = c"
  using assms rx_exec_None_iff [of r s] rx_exec_Some [of r s] by (metis option.exhaust)

end
