(* ===== verification/Chat_Storage.thy ===== *)
theory Chat_Storage
  imports Chat_Session JS_Regex
begin

text \<open>
  What the playground keeps in \<open>localStorage\<close>: \<open>lib/storage/storage.ts\<close> and
  \<open>lib/storage/storage-schema.ts\<close>, and the initial state of
  \<open>lib/state/playground-state-utils.ts\<close>.

  \<open>localStorage\<close> is a map from keys to texts. The validation library zod is the argument
  \<open>z\<close>: \<open>z s v\<close> is what \<open>parse\<close> of the schema \<open>s\<close> gives for \<open>v\<close>, \<open>None\<close> when it throws.
  What the code relies on of it is \<open>zod_documented\<close>. The schemas themselves are those of the
  source. \<open>quota\<close> says whether the browser lets a value be written.
\<close>

section \<open>Schemas\<close>

datatype schema =
    ZString
  | ZNumber
  | ZBoolean
  | ZEnum "jstring list"
  | ZNullable schema
  | ZArray nat schema
  | ZObject "(jstring \<times> bool \<times> schema) list"

text \<open>A field is its name, whether it is required, and its schema.\<close>

abbreviation required :: "string \<Rightarrow> schema \<Rightarrow> jstring \<times> bool \<times> schema" where
  "required k s \<equiv> (js k, True, s)"

abbreviation optional :: "string \<Rightarrow> schema \<Rightarrow> jstring \<times> bool \<times> schema" where
  "optional k s \<equiv> (js k, False, s)"

definition playgroundConfigSchema :: schema where
  "playgroundConfigSchema = ZObject
     [optional ''model'' ZString, optional ''group'' ZString, optional ''temperature'' ZNumber,
      optional ''top_p'' ZNumber, optional ''max_tokens'' ZNumber, optional ''frequency_penalty'' ZNumber,
      optional ''presence_penalty'' ZNumber, optional ''seed'' (ZNullable ZNumber), optional ''stream'' ZBoolean]"

definition parameterEnabledSchema :: schema where
  "parameterEnabledSchema = ZObject
     [optional ''temperature'' ZBoolean, optional ''top_p'' ZBoolean, optional ''max_tokens'' ZBoolean,
      optional ''frequency_penalty'' ZBoolean, optional ''presence_penalty'' ZBoolean, optional ''seed'' ZBoolean]"

definition messageRoleSchema :: schema where
  "messageRoleSchema = ZEnum [js ''user'', js ''assistant'', js ''system'']"

definition messageStatusSchema :: schema where
  "messageStatusSchema = ZEnum [js ''loading'', js ''streaming'', js ''complete'', js ''error'']"

definition messageVersionSchema :: schema where
  "messageVersionSchema = ZObject [required ''id'' ZString, required ''content'' ZString]"

definition sourceSchema :: schema where
  "sourceSchema = ZObject [required ''href'' ZString, required ''title'' ZString]"

definition reasoningSchema :: schema where
  "reasoningSchema = ZObject
     [required ''content'' ZString, required ''duration'' ZNumber, optional ''startedAt'' ZNumber,
      optional ''completedAt'' ZNumber, optional ''durationMs'' ZNumber]"

definition messageSchema :: schema where
  "messageSchema = ZObject
     [required ''key'' ZString, required ''from'' messageRoleSchema,
      required ''versions'' (ZArray 1 messageVersionSchema), optional ''createdAt'' ZNumber,
      optional ''startedAt'' ZNumber, optional ''completedAt'' ZNumber, optional ''durationMs'' ZNumber,
      optional ''sources'' (ZArray 0 sourceSchema), optional ''reasoning'' reasoningSchema,
      optional ''isReasoningStreaming'' ZBoolean, optional ''isReasoningComplete'' ZBoolean,
      optional ''isContentComplete'' ZBoolean, optional ''status'' messageStatusSchema,
      optional ''errorCode'' (ZNullable ZString)]"

definition messagesSchema :: schema where
  "messagesSchema = ZArray 0 messageSchema"

text \<open>
  The values a schema admits, and the admitted values that have no field beyond the declared
  ones, in the declared order.
\<close>

fun admits :: "schema \<Rightarrow> jsval \<Rightarrow> bool" where
  "admits ZString v = (case v of JStr _ \<Rightarrow> True | _ \<Rightarrow> False)"
| "admits ZNumber v = (case v of JNum _ \<Rightarrow> True | _ \<Rightarrow> False)"
| "admits ZBoolean v = (case v of JBool _ \<Rightarrow> True | _ \<Rightarrow> False)"
| "admits (ZEnum xs) v = (case v of JStr x \<Rightarrow> x \<in> set xs | _ \<Rightarrow> False)"
| "admits (ZNullable s) v = (v = JNull \<or> admits s v)"
| "admits (ZArray lo s) v = (case v of JArr vs \<Rightarrow> lo \<le> length vs \<and> list_all (admits s) vs | _ \<Rightarrow> False)"
| "admits (ZObject fs) v =
     (case v of
        JObj m \<Rightarrow> list_all (\<lambda>(k, req, s). case map_of m k of None \<Rightarrow> \<not> req | Some x \<Rightarrow> admits s x) fs
      | _ \<Rightarrow> False)"

fun exact :: "schema \<Rightarrow> jsval \<Rightarrow> bool" where
  "exact (ZNullable s) v = (v = JNull \<or> exact s v)"
| "exact (ZArray lo s) v = (case v of JArr vs \<Rightarrow> list_all (exact s) vs | _ \<Rightarrow> True)"
| "exact (ZObject fs) v =
     (case v of
        JObj m \<Rightarrow> subseq (map fst m) (map fst fs) \<and>
          list_all (\<lambda>(k, req, s). case map_of m k of None \<Rightarrow> True | Some x \<Rightarrow> exact s x) fs
      | _ \<Rightarrow> True)"
| "exact _ v = True"

text \<open>
  Of zod: a value that a schema does not admit makes \<open>parse\<close> throw, an admitted
  value without further fields is given back as it is, and what is given back is admitted.
\<close>

definition zod_documented :: "(schema \<Rightarrow> jsval \<Rightarrow> jsval option) \<Rightarrow> bool" where
  "zod_documented z \<longleftrightarrow>
     (\<forall>s v. \<not> admits s v \<longrightarrow> z s v = None) \<and> (\<forall>s v. admits s v \<and> exact s v \<longrightarrow> z s v = Some v) \<and>
     (\<forall>s v v'. z s v = Some v' \<longrightarrow> admits s v')"

section \<open>Messages as values\<close>

text \<open>
  Times are whole numbers, as \<open>Date.now()\<close> gives them and as they are printed. The schema also admits a
  fraction, which no code of the page writes; it is cut off here.
\<close>

definition dec_to_int :: "decimal \<Rightarrow> int" where
  "dec_to_int d = (if 0 \<le> snd d then fst d * 10 ^ nat (snd d) else fst d div 10 ^ nat (- snd d))"

definition num_value :: "int \<Rightarrow> jsval" where
  "num_value i = JNum (dec_of_int i)"

text \<open>An object from its fields; a field that is \<open>undefined\<close> is left out by \<open>JSON.stringify\<close>.\<close>

definition obj :: "(jstring \<times> jsval option) list \<Rightarrow> jsval" where
  "obj fs = JObj (List.map_filter (\<lambda>(k, v). map_option (Pair k) v) fs)"

fun role_text :: "message_role \<Rightarrow> jstring" where
  "role_text User = js ''user''"
| "role_text Assistant = js ''assistant''"
| "role_text System = js ''system''"

fun status_text :: "message_status \<Rightarrow> jstring" where
  "status_text Loading = js ''loading''"
| "status_text Streaming = js ''streaming''"
| "status_text Completed = js ''complete''"
| "status_text Failed = js ''error''"

definition version_value :: "message_version \<Rightarrow> jsval" where
  "version_value v = obj [(js ''id'', Some (JStr (version_id v))), (js ''content'', Some (JStr (version_content v)))]"

definition source_value :: "message_source \<Rightarrow> jsval" where
  "source_value s = obj [(js ''href'', Some (JStr (href s))), (js ''title'', Some (JStr (title s)))]"

definition reasoning_value :: "message_reasoning \<Rightarrow> jsval" where
  "reasoning_value r = obj
     [(js ''content'', Some (JStr (r_content r))), (js ''duration'', Some (num_value (r_duration r))),
      (js ''startedAt'', map_option num_value (r_startedAt r)), (js ''completedAt'', map_option num_value (r_completedAt r)),
      (js ''durationMs'', map_option num_value (r_durationMs r))]"

definition message_fields :: "message \<Rightarrow> (jstring \<times> jsval option) list" where
  "message_fields m =
     [(js ''key'', Some (JStr (msg_key m))), (js ''from'', Some (JStr (role_text (msg_from m)))),
      (js ''versions'', Some (JArr (map version_value (versions m)))), (js ''createdAt'', map_option num_value (createdAt m)),
      (js ''startedAt'', map_option num_value (startedAt m)), (js ''completedAt'', map_option num_value (completedAt m)),
      (js ''durationMs'', map_option num_value (durationMs m)),
      (js ''sources'', map_option (JArr \<circ> map source_value) (sources m)),
      (js ''reasoning'', map_option reasoning_value (reasoning m)),
      (js ''isReasoningStreaming'', map_option JBool (isReasoningStreaming m)),
      (js ''isReasoningComplete'', map_option JBool (isReasoningComplete m)),
      (js ''isContentComplete'', map_option JBool (isContentComplete m)),
      (js ''status'', map_option (JStr \<circ> status_text) (status m)), (js ''errorCode'', errorCode m)]"

definition message_value :: "message \<Rightarrow> jsval" where
  "message_value m = obj (message_fields m)"

definition messages_value :: "message list \<Rightarrow> jsval" where
  "messages_value ms = JArr (map message_value ms)"

text \<open>A parsed value seen as the type it is cast to; other shapes do not occur after \<open>parse\<close>.\<close>

fun as_str :: "jsval option \<Rightarrow> jstring" where
  "as_str (Some (JStr s)) = s"
| "as_str _ = []"

fun as_arr :: "jsval option \<Rightarrow> jsval list" where
  "as_arr (Some (JArr xs)) = xs"
| "as_arr _ = []"

fun as_int :: "jsval \<Rightarrow> int" where
  "as_int (JNum d) = dec_to_int d"
| "as_int _ = 0"

fun as_bool :: "jsval \<Rightarrow> bool" where
  "as_bool (JBool b) = b"
| "as_bool _ = False"

definition as_role :: "jstring \<Rightarrow> message_role" where
  "as_role s = (if s = js ''user'' then User else if s = js ''assistant'' then Assistant else System)"

definition as_status :: "jsval \<Rightarrow> message_status" where
  "as_status v =
     (let s = as_str (Some v) in
      if s = js ''loading'' then Loading else if s = js ''streaming'' then Streaming
      else if s = js ''complete'' then Completed else Failed)"

definition version_of :: "jsval \<Rightarrow> message_version" where
  "version_of v = \<lparr>version_id = as_str (member (Some v) (js ''id'')),
     version_content = as_str (member (Some v) (js ''content''))\<rparr>"

definition source_of :: "jsval \<Rightarrow> message_source" where
  "source_of v = \<lparr>href = as_str (member (Some v) (js ''href'')), title = as_str (member (Some v) (js ''title''))\<rparr>"

definition reasoning_of :: "jsval \<Rightarrow> message_reasoning" where
  "reasoning_of v =
     \<lparr>r_content = as_str (member (Some v) (js ''content'')),
      r_duration = (case member (Some v) (js ''duration'') of Some d \<Rightarrow> as_int d | None \<Rightarrow> 0),
      r_startedAt = map_option as_int (member (Some v) (js ''startedAt'')),
      r_completedAt = map_option as_int (member (Some v) (js ''completedAt'')),
      r_durationMs = map_option as_int (member (Some v) (js ''durationMs''))\<rparr>"

definition message_of :: "jsval \<Rightarrow> message" where
  "message_of v =
     \<lparr>msg_key = as_str (member (Some v) (js ''key'')), msg_from = as_role (as_str (member (Some v) (js ''from''))),
      versions = map version_of (as_arr (member (Some v) (js ''versions''))),
      createdAt = map_option as_int (member (Some v) (js ''createdAt'')),
      startedAt = map_option as_int (member (Some v) (js ''startedAt'')),
      completedAt = map_option as_int (member (Some v) (js ''completedAt'')),
      durationMs = map_option as_int (member (Some v) (js ''durationMs'')),
      sources = map_option (\<lambda>x. map source_of (as_arr (Some x))) (member (Some v) (js ''sources'')),
      reasoning = map_option reasoning_of (member (Some v) (js ''reasoning'')),
      isReasoningStreaming = map_option as_bool (member (Some v) (js ''isReasoningStreaming'')),
      isReasoningComplete = map_option as_bool (member (Some v) (js ''isReasoningComplete'')),
      isContentComplete = map_option as_bool (member (Some v) (js ''isContentComplete'')),
      status = map_option as_status (member (Some v) (js ''status'')),
      errorCode = member (Some v) (js ''errorCode'')\<rparr>"

section \<open>Limits\<close>

definition STORAGE_VERSION :: int where
  "STORAGE_VERSION = 1"

definition MAX_STORED_MESSAGES :: nat where
  "MAX_STORED_MESSAGES = 100"

definition MAX_STORED_MESSAGES_BYTES :: nat where
  "MAX_STORED_MESSAGES_BYTES = 1024 * 1024"

definition MAX_LOADED_MESSAGES_CHARS :: nat where
  "MAX_LOADED_MESSAGES_CHARS = 120000"

definition MAX_LOADED_MESSAGE_CHARS :: nat where
  "MAX_LOADED_MESSAGE_CHARS = 40000"

definition TRUNCATED_CONTENT_SUFFIX :: jstring where
  "TRUNCATED_CONTENT_SUFFIX = [10, 10] @ js ''[...]''"

definition MIN_PREFIX_COLLAPSE_LENGTH :: nat where
  "MIN_PREFIX_COLLAPSE_LENGTH = 2000"

definition MIN_REPEATED_SECTION_COUNT :: nat where
  "MIN_REPEATED_SECTION_COUNT = 3"

text \<open>\<open>/^#{2,6}\s+\d+\.\s+.+$/gm\<close>\<close>

definition SECTION_HEADING_LINE_PATTERN :: regex where
  "SECTION_HEADING_LINE_PATTERN =
     rx_seq [RxLineStart, rx_between 2 6 (rx_str (js ''#'')), rx_plus rx_space, rx_plus rx_digit,
       rx_str (js ''.''), rx_plus rx_space, rx_plus rx_dot, RxLineEnd]"

definition CONFIG_KEY :: jstring where
  "CONFIG_KEY = js ''playground_config''"

definition MESSAGES_KEY :: jstring where
  "MESSAGES_KEY = js ''playground_messages''"

definition PARAMETER_ENABLED_KEY :: jstring where
  "PARAMETER_ENABLED_KEY = js ''playground_parameter_enabled''"

section \<open>Reading and writing\<close>

type_synonym local_storage = "jstring \<Rightarrow> jstring option"

text \<open>\<open>Inl\<close> is the \<open>SyntaxError\<close> of \<open>JSON.parse\<close>, \<open>Inr None\<close> is \<open>null\<close>.\<close>

definition readStoredValue :: "local_storage \<Rightarrow> jstring \<Rightarrow> js_error + jsval option" where
  "readStoredValue store key =
     (case store key of
        None \<Rightarrow> Inr None
      | Some saved \<Rightarrow>
          if saved = [] then Inr None
          else case JSON_parse saved of None \<Rightarrow> Inl SyntaxError | Some v \<Rightarrow> Inr (Some v))"

definition readStoredMessagesValue :: "local_storage \<Rightarrow> (js_error + jsval option) \<times> local_storage" where
  "readStoredMessagesValue store =
     (case store MESSAGES_KEY of
        None \<Rightarrow> (Inr None, store)
      | Some saved \<Rightarrow>
          if saved = [] then (Inr None, store)
          else if length saved > MAX_STORED_MESSAGES_BYTES then (Inr None, store(MESSAGES_KEY := None))
          else ((case JSON_parse saved of None \<Rightarrow> Inl SyntaxError | Some v \<Rightarrow> Inr (Some v)), store))"

definition unwrapStoredValue :: "jsval \<Rightarrow> jsval" where
  "unwrapStoredValue v =
     (case v of
        JObj m \<Rightarrow>
          (case (map_of m (js ''version''), map_of m (js ''data'')) of
             (Some _, Some d) \<Rightarrow> d
           | _ \<Rightarrow> v)
      | _ \<Rightarrow> v)"

text \<open>\<open>None\<close> is the exception \<open>setItem\<close> throws when the quota is exceeded.\<close>

definition writeStoredValue ::
  "(jstring \<Rightarrow> jstring \<Rightarrow> bool) \<Rightarrow> jstring \<Rightarrow> jsval \<Rightarrow> local_storage \<Rightarrow> local_storage option" where
  "writeStoredValue quota key data store =
     (let text = JSON_stringify (JObj [(js ''version'', num_value STORAGE_VERSION), (js ''data'', data)]) in
      if quota key text then Some (store(key \<mapsto> text)) else None)"

section \<open>Fitting messages into the limits\<close>

definition trimMessages :: "message list \<Rightarrow> message list" where
  "trimMessages ms =
     (if length ms \<le> MAX_STORED_MESSAGES then ms else slice_last MAX_STORED_MESSAGES ms)"

definition getMessageSize :: "message \<Rightarrow> nat" where
  "getMessageSize m =
     (let versionsSize = foldl (\<lambda>total v. total + length (version_content v)) 0 (versions m);
          reasoningSize = (case reasoning m of Some r \<Rightarrow> length (r_content r) | None \<Rightarrow> 0) in
      versionsSize + reasoningSize)"

definition truncateText :: "jstring \<Rightarrow> nat \<Rightarrow> jstring" where
  "truncateText text maxLength =
     (if length text \<le> maxLength then text
      else if maxLength \<le> length TRUNCATED_CONTENT_SUFFIX then slice 0 maxLength text
      else slice 0 (maxLength - length TRUNCATED_CONTENT_SUFFIX) text @ TRUNCATED_CONTENT_SUFFIX)"

record section_occurrence =
  heading :: jstring
  occ_index :: nat

definition getSectionOccurrences :: "jstring \<Rightarrow> section_occurrence list" where
  "getSectionOccurrences text =
     map (\<lambda>m. \<lparr>heading = m_text m, occ_index = m_index m\<rparr>) (matchAll SECTION_HEADING_LINE_PATTERN text)"

definition getHeadingCounts :: "section_occurrence list \<Rightarrow> (jstring \<times> nat) list" where
  "getHeadingCounts occurrences = foldl (tally heading (\<lambda>_. 0) (\<lambda>_ n. n + 1)) [] occurrences"

text \<open>The loop from the last occurrence to the first, over the reversed list.\<close>

fun repeated_indexes ::
  "(jstring \<times> nat) list \<Rightarrow> jstring list \<Rightarrow> section_occurrence list \<Rightarrow> nat list" where
  "repeated_indexes counts seen [] = []"
| "repeated_indexes counts seen (occ # occs) =
     (let count = (case map_of counts (heading occ) of Some n \<Rightarrow> n | None \<Rightarrow> 0) in
      if count < MIN_REPEATED_SECTION_COUNT \<or> heading occ \<in> set seen
      then repeated_indexes counts seen occs
      else occ_index occ # repeated_indexes counts (set_add seen (heading occ)) occs)"

text \<open>\<open>None\<close> is \<open>-1\<close>.\<close>

definition findLastRepeatedSectionRunStart :: "jstring \<Rightarrow> nat option" where
  "findLastRepeatedSectionRunStart text =
     (let occurrences = getSectionOccurrences text;
          indexes = repeated_indexes (getHeadingCounts occurrences) [] (rev occurrences) in
      if indexes = [] then None else Some (foldr min (tl indexes) (hd indexes)))"

definition collapseRepeatedSectionSnapshots :: "jstring \<Rightarrow> jstring" where
  "collapseRepeatedSectionSnapshots text =
     (if length text < MIN_PREFIX_COLLAPSE_LENGTH then text
      else case findLastRepeatedSectionRunStart text of None \<Rightarrow> text | Some i \<Rightarrow> drop i text)"

text \<open>The first number that is there: a chain of \<open>??\<close>.\<close>

fun first_some :: "int option list \<Rightarrow> int \<Rightarrow> int" where
  "first_some [] d = d"
| "first_some (None # xs) d = first_some xs d"
| "first_some (Some x # xs) d = x"

definition normalizeStoredMessageForLoad :: "(nat \<Rightarrow> int) \<Rightarrow> message \<Rightarrow> message" where
  "normalizeStoredMessageForLoad clk m =
     (let normalized =
            m\<lparr>versions := map (\<lambda>v. v\<lparr>version_content :=
                 truncateText (collapseRepeatedSectionSnapshots (version_content v)) MAX_LOADED_MESSAGE_CHARS\<rparr>) (versions m),
              reasoning := map_option (\<lambda>r. r\<lparr>r_content := truncateText (r_content r) MAX_LOADED_MESSAGE_CHARS\<rparr>) (reasoning m)\<rparr> in
      if \<not> isAssistantMessagePending normalized then normalized
      else if \<not> hasMessageContent normalized \<and>
        \<not> (case reasoning normalized of Some r \<Rightarrow> trim (r_content r) \<noteq> [] | None \<Rightarrow> False) then normalized
      else
        let completed = first_some [completedAt normalized,
              (case reasoning normalized of Some r \<Rightarrow> r_completedAt r | None \<Rightarrow> None),
              startedAt normalized, createdAt normalized] (clk 0) in
        completeAssistantTiming completed
          ((finalizeMessage (clk 1) (clk 2) normalized None)
            \<lparr>status := Some Completed, isReasoningStreaming := Some False\<rparr>))"

text \<open>The loop from the last message to the first; \<open>result\<close> already has the order of the messages.\<close>

fun trim_by_size :: "nat \<Rightarrow> message list \<Rightarrow> message list \<Rightarrow> message list" where
  "trim_by_size totalSize result [] = result"
| "trim_by_size totalSize result (m # ms) =
     (if length result > 0 \<and> totalSize + getMessageSize m > MAX_LOADED_MESSAGES_CHARS then result
      else trim_by_size (totalSize + getMessageSize m) (m # result) ms)"

definition trimMessagesByContentSize :: "message list \<Rightarrow> message list" where
  "trimMessagesByContentSize ms = trim_by_size 0 [] (rev ms)"

section \<open>Loading and saving\<close>

definition saveMessages ::
  "(schema \<Rightarrow> jsval \<Rightarrow> jsval option) \<Rightarrow> (jstring \<Rightarrow> jstring \<Rightarrow> bool) \<Rightarrow> message list \<Rightarrow> local_storage \<Rightarrow> local_storage" where
  "saveMessages z quota ms store =
     (case z messagesSchema (messages_value (trimMessages ms)) of
        None \<Rightarrow> store
      | Some parsed \<Rightarrow>
          (case writeStoredValue quota MESSAGES_KEY parsed store of None \<Rightarrow> store | Some s \<Rightarrow> s))"

text \<open>
  The result is saved again after every load: \<open>trimMessagesByContentSize\<close> returns a new array, so
  the comparison \<open>sizeTrimmed !== trimmed\<close> holds always. \<open>clk\<close> gives the readings of the clock
  for each message.
\<close>

definition loadMessages ::
  "(schema \<Rightarrow> jsval \<Rightarrow> jsval option) \<Rightarrow> (jstring \<Rightarrow> jstring \<Rightarrow> bool) \<Rightarrow> (jstring \<Rightarrow> jstring) \<Rightarrow>
   (nat \<Rightarrow> nat \<Rightarrow> int) \<Rightarrow> local_storage \<Rightarrow> message list option \<times> local_storage" where
  "loadMessages z quota tr clk store =
     (case readStoredMessagesValue store of
        (Inl e, store1) \<Rightarrow> (None, store1)
      | (Inr None, store1) \<Rightarrow> (None, store1)
      | (Inr (Some saved), store1) \<Rightarrow>
          if \<not> truthy saved then (None, store1)
          else
            case z messagesSchema (unwrapStoredValue saved) of
              None \<Rightarrow> (None, store1)
            | Some v \<Rightarrow>
                let parsed = map message_of (as_arr (Some v));
                    normalized = map (\<lambda>(i, m). normalizeStoredMessageForLoad (clk i) m) (enumerate 0 parsed);
                    sizeTrimmed = trimMessagesByContentSize (trimMessages normalized);
                    sanitized = sanitizeMessagesOnLoad tr (clk (length parsed) 0) (clk (length parsed) 1)
                      (clk (length parsed) 2) sizeTrimmed in
                (Some sanitized, saveMessages z quota sanitized store1))"

definition load_partial ::
  "(schema \<Rightarrow> jsval \<Rightarrow> jsval option) \<Rightarrow> schema \<Rightarrow> jstring \<Rightarrow> local_storage \<Rightarrow> jsval" where
  "load_partial z s key store =
     (case readStoredValue store key of
        Inr (Some saved) \<Rightarrow>
          if truthy saved then (case z s (unwrapStoredValue saved) of Some v \<Rightarrow> v | None \<Rightarrow> JObj []) else JObj []
      | _ \<Rightarrow> JObj [])"

definition save_partial ::
  "(schema \<Rightarrow> jsval \<Rightarrow> jsval option) \<Rightarrow> (jstring \<Rightarrow> jstring \<Rightarrow> bool) \<Rightarrow> schema \<Rightarrow> jstring \<Rightarrow> jsval \<Rightarrow>
   local_storage \<Rightarrow> local_storage" where
  "save_partial z quota s key v store =
     (case z s v of
        None \<Rightarrow> store
      | Some parsed \<Rightarrow> (case writeStoredValue quota key parsed store of None \<Rightarrow> store | Some st \<Rightarrow> st))"

definition loadConfig where
  "loadConfig z store = load_partial z playgroundConfigSchema CONFIG_KEY store"

definition saveConfig where
  "saveConfig z quota cfg store = save_partial z quota playgroundConfigSchema CONFIG_KEY cfg store"

definition loadParameterEnabled where
  "loadParameterEnabled z store = load_partial z parameterEnabledSchema PARAMETER_ENABLED_KEY store"

definition saveParameterEnabled where
  "saveParameterEnabled z quota en store = save_partial z quota parameterEnabledSchema PARAMETER_ENABLED_KEY en store"

definition clearPlaygroundData :: "local_storage \<Rightarrow> local_storage" where
  "clearPlaygroundData store =
     store(CONFIG_KEY := None, PARAMETER_ENABLED_KEY := None, MESSAGES_KEY := None)"

text \<open>The spread \<open>{...defaults, ...loaded}\<close>.\<close>

definition spread :: "jsval \<Rightarrow> jsval \<Rightarrow> jsval" where
  "spread a b =
     (case (a, b) of (JObj m, JObj n) \<Rightarrow> JObj (foldl (\<lambda>o' (k, v). obj_set o' k v) m n) | _ \<Rightarrow> a)"

definition config_value :: "playground_config \<Rightarrow> jsval" where
  "config_value c = obj
     [(js ''model'', Some (JStr (cfg_model c))), (js ''group'', Some (JStr (cfg_group c))),
      (js ''temperature'', Some (JNum (cfg_temperature c))), (js ''top_p'', Some (JNum (cfg_top_p c))),
      (js ''max_tokens'', Some (JNum (cfg_max_tokens c))), (js ''frequency_penalty'', Some (JNum (cfg_frequency_penalty c))),
      (js ''presence_penalty'', Some (JNum (cfg_presence_penalty c))),
      (js ''seed'', Some (case cfg_seed c of Some d \<Rightarrow> JNum d | None \<Rightarrow> JNull)), (js ''stream'', Some (JBool (cfg_stream c)))]"

definition enabled_value :: "parameter_enabled \<Rightarrow> jsval" where
  "enabled_value e = obj
     [(js ''temperature'', Some (JBool (en_temperature e))), (js ''top_p'', Some (JBool (en_top_p e))),
      (js ''max_tokens'', Some (JBool (en_max_tokens e))), (js ''frequency_penalty'', Some (JBool (en_frequency_penalty e))),
      (js ''presence_penalty'', Some (JBool (en_presence_penalty e))), (js ''seed'', Some (JBool (en_seed e)))]"

definition getInitialPlaygroundConfig where
  "getInitialPlaygroundConfig z store = spread (config_value DEFAULT_CONFIG) (loadConfig z store)"

definition getInitialParameterEnabled where
  "getInitialParameterEnabled z store = spread (enabled_value DEFAULT_PARAMETER_ENABLED) (loadParameterEnabled z store)"

section \<open>Objects and schemas\<close>

lemma map_filter_simps [simp]:
  "List.map_filter f [] = []"
  "List.map_filter f (x # xs) = (case f x of None \<Rightarrow> List.map_filter f xs | Some y \<Rightarrow> y # List.map_filter f xs)"
  by (simp_all add: List.map_filter_def split: option.split)

lemma member_obj:
  "distinct (map fst fs) \<Longrightarrow> member (Some (obj fs)) k = (case map_of fs k of Some v \<Rightarrow> v | None \<Rightarrow> None)"
proof (induction fs)
  case (Cons f fs)
  obtain j v where f: "f = (j, v)" by (cases f)
  have "k \<notin> fst ` set fs \<Longrightarrow> map_of (List.map_filter (\<lambda>(k, v). map_option (Pair k) v) fs) k = None"
    by (force simp: map_of_eq_None_iff)
  then show ?case
    using Cons by (auto simp: obj_def f split: option.split)
qed (simp add: obj_def)

lemma keys_obj: "subseq (map fst (List.map_filter (\<lambda>(k, v). map_option (Pair k) v) fs)) (map fst fs)"
  by (induction fs) (auto split: option.split)

lemma subseq_distinct_subset: "subseq xs ys \<Longrightarrow> distinct ys \<Longrightarrow> distinct xs \<and> set xs \<subseteq> set ys"
  by (auto simp: subseq_conv_nths set_nths_subset distinct_nthsI dest: in_set_nthsD)

lemma obj_of_plain:
  assumes "distinct (map fst m)" "\<forall>k \<in> set (map fst m). \<not> is_array_index k"
  shows "obj_of m = m"
proof -
  have ins: "obj_insert k v m' = m' @ [(k, v)]" if "\<not> is_array_index k" for k and v :: 'a and m'
    using that by (induction k v m' rule: obj_insert.induct) auto
  have "foldl (\<lambda>m (k, v). obj_set m k v) m1 m2 = m1 @ m2"
    if "distinct (map fst (m1 @ m2))" "\<forall>k \<in> set (map fst m2). \<not> is_array_index k" for m1 m2 :: "(jstring \<times> 'a) list"
    using that
  proof (induction m2 arbitrary: m1)
    case (Cons x m2)
    obtain k v where x: "x = (k, v)" by (cases x)
    have "obj_set m1 k v = m1 @ [(k, v)]" using Cons.prems x by (simp add: obj_set_def ins)
    then show ?case using Cons.IH [of "m1 @ [(k, v)]"] Cons.prems x by simp
  qed simp
  from this [of "[]" m] show ?thesis using assms by (simp add: obj_of_def)
qed

definition plain_keys :: "jstring list \<Rightarrow> bool" where
  "plain_keys ks \<longleftrightarrow> distinct ks \<and> list_all (\<lambda>k. \<not> is_array_index k) ks"

lemma json_ok_obj:
  assumes "plain_keys (map fst fs)" and "\<forall>(k, v) \<in> set fs. case v of None \<Rightarrow> True | Some x \<Rightarrow> json_ok x"
  shows "json_ok (obj fs)"
proof -
  let ?m = "List.map_filter (\<lambda>(k, v). map_option (Pair k) v) fs"
  have "distinct (map fst ?m) \<and> set (map fst ?m) \<subseteq> set (map fst fs)"
    using assms(1) by (intro subseq_distinct_subset keys_obj) (simp add: plain_keys_def)
  then have "obj_of ?m = ?m"
    using assms(1) by (intro obj_of_plain) (auto simp: plain_keys_def list_all_iff)
  moreover have "list_all (\<lambda>(k, v). json_ok v) ?m"
    using assms(2) by (fastforce simp: list_all_iff)
  ultimately show ?thesis by (simp add: obj_def)
qed

text \<open>An object built from the fields of a schema, in their order, fits it.\<close>

lemma admits_obj:
  assumes "distinct (map fst fs)" "map fst fs = map fst ss"
  shows "admits (ZObject ss) (obj fs) \<longleftrightarrow>
    list_all (\<lambda>(k, req, s). case (case map_of fs k of Some v \<Rightarrow> v | None \<Rightarrow> None) of None \<Rightarrow> \<not> req | Some x \<Rightarrow> admits s x) ss"
  using member_obj [OF assms(1)] by (simp add: obj_def)

lemma exact_obj:
  assumes "distinct (map fst fs)" "map fst fs = map fst ss"
  shows "exact (ZObject ss) (obj fs) \<longleftrightarrow>
    list_all (\<lambda>(k, req, s). case (case map_of fs k of Some v \<Rightarrow> v | None \<Rightarrow> None) of None \<Rightarrow> True | Some x \<Rightarrow> exact s x) ss"
  using member_obj [OF assms(1)] keys_obj [of fs] assms(2) by (simp add: obj_def)

section \<open>Messages as values and back\<close>

lemma snd_dec_norm: "0 \<le> e \<Longrightarrow> 0 \<le> snd (dec_norm m e)"
  by (induction m e rule: dec_norm.induct) (subst dec_norm.simps, auto)

lemma dec_to_int_of_int [simp]: "dec_to_int (dec_of_int i) = i"
proof -
  obtain m e where d: "dec_norm i 0 = (m, e)" by fastforce
  then have "0 \<le> e" using snd_dec_norm [of 0 i] by simp
  moreover have "of_int m * 10 powi e = (of_int i :: rat)"
    using dec_val_norm [of i 0] by (simp add: d dec_val_def)
  ultimately have "of_int (m * 10 ^ nat e) = (of_int i :: rat)"
    by (simp add: power_int_def)
  then show ?thesis
    using \<open>0 \<le> e\<close> by (simp only: of_int_eq_iff dec_to_int_def dec_of_int_def d fst_conv snd_conv if_True)
qed

lemma as_int_num [simp]: "as_int (num_value i) = i" "as_int \<circ> num_value = id"
  by (auto simp: num_value_def)

lemma as_role_text [simp]: "as_role (role_text r) = r"
  by (cases r) (simp_all add: as_role_def)

lemma as_status_text [simp]: "as_status (JStr (status_text s)) = s"
  by (cases s) (simp_all add: as_status_def)

lemma version_of_value [simp]: "version_of (version_value v) = v" "version_of \<circ> version_value = id"
  by (auto simp: version_of_def version_value_def member_obj)

lemma source_of_value [simp]: "source_of (source_value s) = s" "source_of \<circ> source_value = id"
  by (auto simp: source_of_def source_value_def member_obj)

lemma reasoning_of_value [simp]: "reasoning_of (reasoning_value r) = r"
  by (simp add: reasoning_of_def reasoning_value_def member_obj option.map_comp option.map_id)

lemma message_of_value [simp]: "message_of (message_value m) = m"
  by (simp add: message_of_def message_value_def message_fields_def member_obj option.map_comp option.map_ident comp_def)

text \<open>The messages the schema admits: those with a version and no error code but a text or \<open>null\<close>.\<close>

definition storable :: "message \<Rightarrow> bool" where
  "storable m \<longleftrightarrow> versions m \<noteq> [] \<and> (case errorCode m of Some (JStr _) \<Rightarrow> True | Some JNull \<Rightarrow> True | None \<Rightarrow> True | _ \<Rightarrow> False)"

lemma admits_role [simp]: "admits messageRoleSchema (JStr (role_text r))"
  by (cases r) (simp_all add: messageRoleSchema_def)

lemma admits_status [simp]: "admits messageStatusSchema (JStr (status_text s))"
  by (cases s) (simp_all add: messageStatusSchema_def)

lemma fits_version [simp]:
  "admits messageVersionSchema (version_value v)" "exact messageVersionSchema (version_value v)" "json_ok (version_value v)"
  by (simp_all add: messageVersionSchema_def version_value_def admits_obj exact_obj del: admits.simps(7) exact.simps(3))
    (rule json_ok_obj; simp add: plain_keys_def js_eval is_array_index_def is_digit_def)

lemma fits_source [simp]:
  "admits sourceSchema (source_value v)" "exact sourceSchema (source_value v)" "json_ok (source_value v)"
  by (simp_all add: sourceSchema_def source_value_def admits_obj exact_obj del: admits.simps(7) exact.simps(3))
    (rule json_ok_obj; simp add: plain_keys_def js_eval is_array_index_def is_digit_def)

lemma json_ok_num [simp]: "json_ok (num_value i)"
  by (simp add: num_value_def dec_of_int_def dec_norm_normal)

lemma admits_num [simp]: "admits ZNumber (num_value i)"
  by (simp add: num_value_def)

lemma fits_reasoning [simp]:
  "admits reasoningSchema (reasoning_value r)" "exact reasoningSchema (reasoning_value r)" "json_ok (reasoning_value r)"
  by (simp_all add: reasoningSchema_def reasoning_value_def admits_obj exact_obj del: admits.simps(2,7) exact.simps(3) split: option.split)
    (rule json_ok_obj; simp add: plain_keys_def js_eval is_array_index_def is_digit_def split: option.split)

lemma exact_enum [simp]: "exact messageRoleSchema v" "exact messageStatusSchema v"
  by (simp_all add: messageRoleSchema_def messageStatusSchema_def)

lemma message_keys: "map fst (message_fields m) =
    map js [''key'', ''from'', ''versions'', ''createdAt'', ''startedAt'', ''completedAt'', ''durationMs'',
      ''sources'', ''reasoning'', ''isReasoningStreaming'', ''isReasoningComplete'', ''isContentComplete'',
      ''status'', ''errorCode'']"
  by (simp add: message_fields_def)

lemma message_keys_plain: "plain_keys (map fst (message_fields m))"
  unfolding message_keys by code_simp

lemma case_option_True [simp]: "case x of None \<Rightarrow> True | Some y \<Rightarrow> True"
  by (simp split: option.split)

lemma admits_message: "admits messageSchema (message_value m) \<longleftrightarrow> storable m"
proof -
  have "admits messageSchema (message_value m) \<longleftrightarrow> versions m \<noteq> [] \<and>
      (case errorCode m of None \<Rightarrow> True | Some x \<Rightarrow> admits (ZNullable ZString) x)"
    unfolding messageSchema_def message_value_def
    by (subst admits_obj)
      (use message_keys_plain [of m] in \<open>simp_all add: plain_keys_def message_fields_def list_all_iff
        Suc_le_eq del: admits.simps(2,5,7) cong: option.case_cong\<close>)
  also have "\<dots> \<longleftrightarrow> storable m" by (auto simp: storable_def split: option.split jsval.split)
  finally show ?thesis .
qed

lemma exact_message: "exact messageSchema (message_value m)"
  unfolding messageSchema_def message_value_def
  by (subst exact_obj)
    (use message_keys_plain [of m] in \<open>simp_all add: plain_keys_def message_fields_def list_all_iff
      del: exact.simps(3) cong: option.case_cong\<close>)

lemma json_ok_message:
  assumes "storable m"
  shows "json_ok (message_value m)"
  unfolding message_value_def
proof (rule json_ok_obj [OF message_keys_plain])
  have "case errorCode m of None \<Rightarrow> True | Some x \<Rightarrow> json_ok x"
    using assms by (cases "errorCode m"; cases "the (errorCode m)") (auto simp: storable_def)
  then show "\<forall>(k, v) \<in> set (message_fields m). case v of None \<Rightarrow> True | Some x \<Rightarrow> json_ok x"
    by (simp add: message_fields_def list_all_iff cong: option.case_cong)
qed

section \<open>Limits\<close>

definition total_size :: "message list \<Rightarrow> nat" where
  "total_size ms = sum_list (map getMessageSize ms)"

definition fits_limit :: "message list \<Rightarrow> bool" where
  "fits_limit ms \<longleftrightarrow> length ms \<le> 1 \<or> total_size ms \<le> MAX_LOADED_MESSAGES_CHARS"

lemma trim_by_size_spec:
  "fits_limit result \<Longrightarrow>
   \<exists>kept dropped. ms = kept @ dropped \<and> trim_by_size (total_size result) result ms = rev kept @ result \<and>
     (ms \<noteq> [] \<and> result = [] \<longrightarrow> kept \<noteq> []) \<and> fits_limit (rev kept @ result) \<and>
     (dropped \<noteq> [] \<longrightarrow> total_size (hd dropped # rev kept @ result) > MAX_LOADED_MESSAGES_CHARS)"
proof (induction ms arbitrary: result)
  case (Cons m ms)
  show ?case
  proof (cases "length result > 0 \<and> total_size result + getMessageSize m > MAX_LOADED_MESSAGES_CHARS")
    case True
    then show ?thesis
      using Cons.prems by (intro exI [of _ "[]"] exI [of _ "m # ms"]) (auto simp: total_size_def)
  next
    case False
    then have "fits_limit (m # result)" by (auto simp: fits_limit_def total_size_def)
    from Cons.IH [OF this] obtain kept dropped where k: "ms = kept @ dropped"
      "trim_by_size (total_size (m # result)) (m # result) ms = rev kept @ m # result"
      "fits_limit (rev kept @ m # result)"
      "dropped \<noteq> [] \<longrightarrow> total_size (hd dropped # rev kept @ m # result) > MAX_LOADED_MESSAGES_CHARS"
      by blast
    have "total_size (m # result) = total_size result + getMessageSize m" by (simp add: total_size_def)
    then have "trim_by_size (total_size result) result (m # ms) = rev (m # kept) @ result"
      using False k(2) by (simp only: trim_by_size.simps if_False rev.simps append.simps append_assoc)
    then show ?thesis
      using k by (intro exI [of _ "m # kept"] exI [of _ dropped]) simp
  qed
qed (auto simp: fits_limit_def)

lemma trim_longest:
  "\<exists>dropped. ms = dropped @ trimMessagesByContentSize ms \<and>
     (trimMessagesByContentSize ms = [] \<longleftrightarrow> ms = []) \<and>
     (length (trimMessagesByContentSize ms) \<le> 1 \<or> total_size (trimMessagesByContentSize ms) \<le> 120000) \<and>
     (dropped = [] \<or> total_size (last dropped # trimMessagesByContentSize ms) > 120000)"
proof -
  obtain kept dropped where k: "rev ms = kept @ dropped" "trim_by_size 0 [] (rev ms) = rev kept"
    "ms \<noteq> [] \<longrightarrow> kept \<noteq> []" "fits_limit (rev kept)"
    "dropped \<noteq> [] \<longrightarrow> total_size (hd dropped # rev kept) > MAX_LOADED_MESSAGES_CHARS"
    using trim_by_size_spec [of "[]" "rev ms"]
    unfolding total_size_def [of "[]"] list.map sum_list.Nil append_Nil2 rev_is_Nil_conv
    by (metis fits_limit_def le0 list.size(3) zero_le_one)
  have "ms = rev dropped @ rev kept" using k(1) by (metis rev_append rev_rev_ident)
  then show ?thesis
    using k by (intro exI [of _ "rev dropped"])
      (auto simp: trimMessagesByContentSize_def fits_limit_def MAX_LOADED_MESSAGES_CHARS_def last_rev)
qed

text \<open>
  C21: of the stored messages the longest tail is loaded that has at most 120000 characters; the
  last message is loaded whatever its size.
\<close>

theorem trimMessagesByContentSize_longest:
  "\<exists>dropped. ms = dropped @ trimMessagesByContentSize ms \<and>
     (trimMessagesByContentSize ms = [] \<longleftrightarrow> ms = []) \<and>
     (length (trimMessagesByContentSize ms) \<le> 1 \<or> total_size (trimMessagesByContentSize ms) \<le> 120000) \<and>
     (dropped = [] \<or> total_size (last dropped # trimMessagesByContentSize ms) > 120000)"
  by (rule trim_longest)

lemma trim_all:
  assumes "total_size ms \<le> MAX_LOADED_MESSAGES_CHARS"
  shows "trimMessagesByContentSize ms = ms"
proof -
  let ?t = "trimMessagesByContentSize ms"
  obtain d where d: "ms = d @ ?t" "d = [] \<or> total_size (last d # ?t) > 120000" using trim_longest [of ms] by blast
  have "d = []"
  proof (rule ccontr)
    assume n: "d \<noteq> []"
    have "total_size ms = total_size (butlast d) + total_size (last d # ?t)"
      by (subst d(1), subst append_butlast_last_id [OF n, symmetric]) (simp add: total_size_def)
    then show False using n d(2) assms by (simp add: MAX_LOADED_MESSAGES_CHARS_def)
  qed
  then show ?thesis using d(1) by simp
qed

section \<open>Saving and loading\<close>

definition stored_text :: "jsval \<Rightarrow> jstring" where
  "stored_text v = JSON_stringify (JObj [(js ''version'', num_value STORAGE_VERSION), (js ''data'', v)])"

lemma stored_text_not_Nil: "stored_text v \<noteq> []"
  by (simp add: stored_text_def JSON_stringify_def wrap_items_def)

lemma parse_stored_text:
  assumes "json_ok v"
  shows "JSON_parse (stored_text v) = Some (JObj [(js ''version'', num_value STORAGE_VERSION), (js ''data'', v)])"
proof -
  have "obj_of [(js ''version'', num_value STORAGE_VERSION), (js ''data'', v)] =
      [(js ''version'', num_value STORAGE_VERSION), (js ''data'', v)]"
    by (rule obj_of_plain) (simp_all, simp add: js_eval is_array_index_def is_digit_def)
  then show ?thesis
    unfolding stored_text_def using assms by (intro JSON_parse_stringify) simp
qed

lemma unwrap_stored: "unwrapStoredValue (JObj [(js ''version'', x), (js ''data'', v)]) = v"
  by (simp add: unwrapStoredValue_def)

lemma json_ok_messages: "\<forall>m \<in> set ms. storable m \<Longrightarrow> json_ok (messages_value ms)"
  by (simp add: messages_value_def list_all_iff json_ok_message)

lemma admits_messages: "admits messagesSchema (messages_value ms) \<longleftrightarrow> (\<forall>m \<in> set ms. storable m)"
  by (simp add: messagesSchema_def messages_value_def list_all_iff admits_message)

lemma exact_messages: "exact messagesSchema (messages_value ms)"
  by (simp add: messagesSchema_def messages_value_def list_all_iff exact_message)

lemma zod_messages:
  assumes "zod_documented z"
  shows "\<forall>m \<in> set ms. storable m \<Longrightarrow> z messagesSchema (messages_value ms) = Some (messages_value ms)"
    and "\<not> (\<forall>m \<in> set ms. storable m) \<Longrightarrow> z messagesSchema (messages_value ms) = None"
  using assms exact_messages [of ms] admits_messages [of ms] unfolding zod_documented_def by blast+

text \<open>A message the loader leaves as it is: not pending, and within the limits.\<close>

definition settled_message :: "message \<Rightarrow> bool" where
  "settled_message m \<longleftrightarrow> \<not> isAssistantMessagePending m \<and>
     list_all (\<lambda>v. collapseRepeatedSectionSnapshots (version_content v) = version_content v \<and>
       length (version_content v) \<le> MAX_LOADED_MESSAGE_CHARS) (versions m) \<and>
     (case reasoning m of None \<Rightarrow> True | Some r \<Rightarrow> length (r_content r) \<le> MAX_LOADED_MESSAGE_CHARS)"

lemma truncate_short [simp]: "length s \<le> n \<Longrightarrow> truncateText s n = s"
  by (simp add: truncateText_def)

lemma normalize_settled:
  assumes "settled_message m"
  shows "normalizeStoredMessageForLoad clk m = m"
proof -
  have "map (\<lambda>v. v\<lparr>version_content := truncateText (collapseRepeatedSectionSnapshots (version_content v))
      MAX_LOADED_MESSAGE_CHARS\<rparr>) (versions m) = versions m"
    using assms by (intro map_idI) (simp add: settled_message_def list_all_iff)
  moreover have "map_option (\<lambda>r. r\<lparr>r_content := truncateText (r_content r) MAX_LOADED_MESSAGE_CHARS\<rparr>) (reasoning m) = reasoning m"
    using assms by (cases "reasoning m") (simp_all add: settled_message_def)
  ultimately show ?thesis
    using assms by (simp add: normalizeStoredMessageForLoad_def settled_message_def)
qed

lemma sanitize_settled:
  assumes "\<forall>m \<in> set ms. settled_message m"
  shows "sanitizeMessagesOnLoad tr t1 t2 t3 ms = ms"
proof -
  have "last_index (\<lambda>m. isPendingAssistantMessage (Some m)) ms (length ms) = None"
    using assms by (auto simp: last_index_None_iff isPendingAssistantMessage_def settled_message_def)
  then show ?thesis by (simp add: sanitizeMessagesOnLoad_def)
qed

lemma save_load:
  assumes "zod_documented z" and "quota MESSAGES_KEY (stored_text (messages_value ms))"
    and "length (stored_text (messages_value ms)) \<le> 1024 * 1024"
    and "length ms \<le> 100" and "total_size ms \<le> 120000"
    and "\<forall>m \<in> set ms. storable m \<and> settled_message m"
  shows "loadMessages z quota tr clk (saveMessages z quota ms store) = (Some ms, saveMessages z quota ms store)"
proof -
  let ?v = "messages_value ms" and ?store = "store(MESSAGES_KEY \<mapsto> stored_text (messages_value ms))"
  have trim: "trimMessages ms = ms" using assms(4) by (simp add: trimMessages_def MAX_STORED_MESSAGES_def)
  have z: "z messagesSchema ?v = Some ?v" using zod_messages(1) [OF assms(1), of ms] assms(6) by blast
  have save: "saveMessages z quota ms s = s(MESSAGES_KEY \<mapsto> stored_text ?v)" for s
    using assms(2) by (simp add: saveMessages_def trim z writeStoredValue_def stored_text_def Let_def)
  have read: "readStoredMessagesValue ?store =
      (Inr (Some (JObj [(js ''version'', num_value STORAGE_VERSION), (js ''data'', ?v)])), ?store)"
    using assms(3,6) parse_stored_text [OF json_ok_messages [of ms]]
    by (simp add: readStoredMessagesValue_def stored_text_not_Nil MAX_STORED_MESSAGES_BYTES_def)
  have parsed: "map message_of (as_arr (Some ?v)) = ms" by (simp add: messages_value_def comp_def)
  have norm: "map (\<lambda>(i, m). normalizeStoredMessageForLoad (clk i) m) (enumerate 0 ms) = ms"
    using assms(6) by (intro nth_equalityI) (auto simp: nth_enumerate_eq normalize_settled)
  have size: "trimMessagesByContentSize ms = ms"
    using assms(5) by (intro trim_all) (simp add: MAX_LOADED_MESSAGES_CHARS_def)
  show ?thesis
    using assms(6) by (simp add: save loadMessages_def read unwrap_stored z parsed norm trim size sanitize_settled Let_def)
qed


text \<open>
  C29: a conversation that outgrows the limit on load is lost. Saving does not look at the size
  of the text; once it is longer than 1048576 characters, the next load removes it and returns
  no message.
\<close>

theorem oversized_messages_lost:
  assumes "zod_documented z" and "quota MESSAGES_KEY (stored_text (messages_value ms))"
    and "length (stored_text (messages_value ms)) > 1024 * 1024"
    and "length ms \<le> 100" and "\<forall>m \<in> set ms. storable m"
  shows "loadMessages z quota tr clk (saveMessages z quota ms store) = (None, store(MESSAGES_KEY := None))"
proof -
  have "trimMessages ms = ms" using assms(4) by (simp add: trimMessages_def MAX_STORED_MESSAGES_def)
  then have "saveMessages z quota ms store = store(MESSAGES_KEY \<mapsto> stored_text (messages_value ms))"
    using assms(2) zod_messages(1) [OF assms(1,5)]
    by (simp add: saveMessages_def writeStoredValue_def stored_text_def Let_def)
  then show ?thesis
    using assms(3) by (simp add: loadMessages_def readStoredMessagesValue_def stored_text_not_Nil MAX_STORED_MESSAGES_BYTES_def)
qed

text \<open>
  C30: one message the schema does not admit keeps every message from being saved: with an error
  code that is a number, as servers send it, the store stays as it was.
\<close>

theorem numeric_error_code_blocks_saving:
  assumes "zod_documented z" and "m \<in> set (trimMessages ms)" and "errorCode m = Some (JNum d)"
  shows "saveMessages z quota ms store = store"
proof -
  have "\<not> storable m" using assms(3) by (simp add: storable_def)
  then have "z messagesSchema (messages_value (trimMessages ms)) = None"
    using zod_messages(2) [OF assms(1)] assms(2) by blast
  then show ?thesis by (simp add: saveMessages_def)
qed

subsection \<open>Witnesses\<close>

text \<open>A validator that behaves as documented: it gives back every admitted value.\<close>

definition zod_model :: "schema \<Rightarrow> jsval \<Rightarrow> jsval option" where
  "zod_model s v = (if admits s v then Some v else None)"

lemma zod_model_documented: "zod_documented zod_model"
  by (simp add: zod_documented_def zod_model_def)


lemma numeric_error_code_witness:
  "let m = (createLoadingAssistantMessage (js ''a'') (js ''b'') 5)\<lparr>errorCode := Some (JNum (429, 0))\<rparr> in
   saveMessages zod_model (\<lambda>_ _. True) [m] (\<lambda>_. None) = (\<lambda>_. None)"
  unfolding Let_def
  by (rule numeric_error_code_blocks_saving [OF zod_model_documented, where d = "(429, 0)"]) (simp add: trimMessages_def MAX_STORED_MESSAGES_def, code_simp)

lemma quote_body_length: "length s \<le> length (quote_body s)"
proof (induction s rule: quote_body.induct)
  case (3 c d s)
  have u: "1 \<le> length (quote_unit c)" "1 \<le> length (u_escape c)"
    by (auto simp: quote_unit_def u_escape_def split: option.split)
  show ?case
  proof (cases "leading c \<and> trailing d")
    case True
    then show ?thesis using 3 by simp
  next
    case False
    then have "length (d # s) \<le> length (quote_body (d # s))" using 3 by simp
    then show ?thesis using False u by auto
  qed
qed (auto simp: quote_unit_def u_escape_def split: option.split)

lemma join_length: "x \<in> set xs \<Longrightarrow> length x \<le> length (join sep xs)"
  by (induction sep xs rule: join.induct) auto

lemma wrap_items_length: "x \<in> set items \<Longrightarrow> length x \<le> length (wrap_items gap ind l r items)"
  using join_length [of x items "[44]"] join_length [of x items "44 # 10 # ind @ gap"]
  by (auto simp: wrap_items_def)

lemma stringify_array_length: "x \<in> set xs \<Longrightarrow> length (JSON_stringify x) \<le> length (JSON_stringify (JArr xs))"
  unfolding JSON_stringify_def by (simp, rule wrap_items_length) simp

lemma stringify_object_length:
  assumes "(k, v) \<in> set m"
  shows "length (JSON_stringify v) \<le> length (JSON_stringify (JObj m))"
proof -
  let ?f = "\<lambda>(k, v). quote k @ 58 # stringify_at [] [] v"
  have "length (?f (k, v)) \<le> length (wrap_items [] [] 123 125 (map ?f m))"
    using assms by (intro wrap_items_length) force
  then show ?thesis by (simp add: JSON_stringify_def)
qed

lemma stored_text_length:
  assumes "m \<in> set ms" "v \<in> set (versions m)"
  shows "length (version_content v) \<le> length (stored_text (messages_value ms))"
proof -
  have "length (version_content v) \<le> length (JSON_stringify (JStr (version_content v)))"
    using quote_body_length [of "version_content v"] by (simp add: JSON_stringify_def quote_def)
  also have "\<dots> \<le> length (JSON_stringify (version_value v))"
    unfolding version_value_def obj_def by (intro stringify_object_length [of "js ''content''"]) simp
  also have "\<dots> \<le> length (JSON_stringify (JArr (map version_value (versions m))))"
    using assms(2) by (intro stringify_array_length) simp
  also have "\<dots> \<le> length (JSON_stringify (message_value m))"
    unfolding message_value_def obj_def by (intro stringify_object_length [of "js ''versions''"]) (simp add: message_fields_def)
  also have "\<dots> \<le> length (JSON_stringify (messages_value ms))"
    unfolding messages_value_def using assms(1) by (intro stringify_array_length) simp
  also have "\<dots> \<le> length (stored_text (messages_value ms))"
    unfolding stored_text_def by (intro stringify_object_length [of "js ''data''"]) simp
  finally show ?thesis .
qed

lemma oversized_messages_lost_witness:
  "\<exists>big. let ms = [createUserMessage (js ''a'') (js ''b'') big 5] in
     loadMessages zod_model (\<lambda>_ _. True) (\<lambda>x. x) (\<lambda>_ _. 0) (saveMessages zod_model (\<lambda>_ _. True) ms (\<lambda>_. None)) =
       (None, \<lambda>_. None)"
proof -
  obtain big :: jstring where big: "length big = 1048577" by (metis length_replicate)
  let ?m = "createUserMessage (js ''a'') (js ''b'') big 5"
  have "\<lparr>version_id = js ''b'', version_content = big\<rparr> \<in> set (versions ?m)"
    by (simp add: createUserMessage_def bare_message_def createMessageVersion_def)
  then have "1048577 \<le> length (stored_text (messages_value [?m]))"
    using stored_text_length [of ?m "[?m]"] big by fastforce
  then have l: "length (stored_text (messages_value [?m])) > 1024 * 1024" by simp
  have s: "\<forall>m \<in> set [?m]. storable m" by (simp add: storable_def createUserMessage_def bare_message_def)
  have "loadMessages zod_model (\<lambda>_ _. True) (\<lambda>x. x) (\<lambda>_ _. 0)
      (saveMessages zod_model (\<lambda>_ _. True) [?m] (\<lambda>_. None)) = (None, (\<lambda>_. None)(MESSAGES_KEY := None))"
    by (rule oversized_messages_lost [OF zod_model_documented TrueI l _ s]) simp
  then show ?thesis unfolding Let_def by (intro exI [of _ big]) (simp only: fun_upd_idem)
qed

section \<open>Bounds\<close>

lemma think_loop_size:
  assumes "think_loop s pos V R = (vs, rs, u)" "pos \<le> length s"
  shows "length (concat vs) + sum_list (map length rs) + 2 * length rs \<le>
    length (concat V) + sum_list (map length R) + 2 * length R + (length s - pos)"
  using assms
proof (induction s pos V R rule: think_loop.induct)
  case (1 s pos V R)
  show ?case
  proof (cases "indexOf s think_open pos")
    case None
    then show ?thesis using "1.prems" by (subst (asm) think_loop.simps) (auto split: if_splits)
  next
    case (Some a)
    have ne: "think_open \<noteq> []" "think_close \<noteq> []" by simp_all
    note a = indexOf_SomeD [OF Some ne(1)]
    define V' where "V' = (if a > pos then V @ [slice pos a s] else V)"
    have V': "length (concat V') \<le> length (concat V) + (a - pos)"
      by (auto simp: V'_def slice_def)
    show ?thesis
    proof (cases "indexOf s think_close (a + 7)")
      case None
      then have "vs = V'" "rs = R @ [drop (a + 7) s]"
        using "1.prems"(1) Some by (subst (asm) think_loop.simps; simp add: V'_def Let_def)+
      then show ?thesis using V' a by simp
    next
      case (Some b)
      note b = indexOf_SomeD [OF Some ne(2)]
      have "think_loop s (b + 8) V' (R @ [slice (a + 7) b s]) = (vs, rs, u)"
        using "1.prems"(1) \<open>indexOf s think_open pos = Some a\<close> Some
        by (subst (asm) think_loop.simps) (simp add: V'_def Let_def)
      then have "length (concat vs) + sum_list (map length rs) + 2 * length rs \<le>
          length (concat V') + sum_list (map length (R @ [slice (a + 7) b s])) + 2 * length (R @ [slice (a + 7) b s]) +
            (length s - (b + 8))"
        using "1.IH" [OF \<open>indexOf s think_open pos = Some a\<close> V'_def Some] b by simp
      then show ?thesis using V' a b by (simp add: slice_def)
    qed
  qed
qed

lemma join_length_le: "length (join sep xs) \<le> sum_list (map length xs) + length sep * length xs"
  by (induction sep xs rule: join.induct) auto

lemma think_tags_size:
  "length (visibleContent (parseThinkTags s)) \<le> length s" "length (think_reasoning (parseThinkTags s)) \<le> length s"
proof -
  obtain vs rs u where l: "think_loop s 0 [] [] = (vs, rs, u)" by (cases "think_loop s 0 [] []") auto
  note size = think_loop_size [OF l le0]
  have "length (concat vs) \<le> length s" using size by simp
  moreover have "length (join [10, 10] rs) \<le> length s"
    using size join_length_le [of "[10, 10]" rs] by simp
  ultimately show "length (visibleContent (parseThinkTags s)) \<le> length s"
    "length (think_reasoning (parseThinkTags s)) \<le> length s"
    using length_trim [of "concat vs"] length_trim [of "join [10, 10] rs"]
    by (auto simp: parseThinkTags_def l js_eval intro: le_trans)
qed

definition texts_within :: "nat \<Rightarrow> message \<Rightarrow> bool" where
  "texts_within n m \<longleftrightarrow> versions m \<noteq> [] \<and> list_all (\<lambda>v. length (version_content v) \<le> n) (versions m) \<and>
     (case reasoning m of None \<Rightarrow> True | Some r \<Rightarrow> length (r_content r) \<le> n)"

lemma within_frame [simp]:
  "texts_within n (m\<lparr>status := s\<rparr>) = texts_within n m" "texts_within n (m\<lparr>isReasoningStreaming := b\<rparr>) = texts_within n m"
  "texts_within n (completeAssistantTiming t m) = texts_within n m"
  by (simp_all add: texts_within_def completeAssistantTiming_def Let_def)

lemma within_content: "texts_within n m \<Longrightarrow> length (getMessageContent m) \<le> n"
  by (cases "versions m") (simp_all add: texts_within_def getMessageContent_def getCurrentVersion_def)

lemma within_update:
  "versions m \<noteq> [] \<Longrightarrow> texts_within n (updateCurrentVersionContent m s) \<longleftrightarrow>
     length s \<le> n \<and> (case reasoning m of None \<Rightarrow> True | Some r \<Rightarrow> length (r_content r) \<le> n)"
  by (simp add: texts_within_def updateCurrentVersionContent_def)

lemma versions_finalize: "versions (finalizeMessage t1 t2 m a) = [(getCurrentVersion m)\<lparr>version_content := visibleContent (parseThinkTags (getMessageContent m))\<rparr>]"
  by (simp add: finalizeMessage_def Let_def completeReasoningTiming_def updateCurrentVersionContent_def getMessageContent_def parseThinkTags_def
      split: option.split)

lemma within_finalize:
  assumes "texts_within n m"
  shows "texts_within n (finalizeMessage t1 t2 m None)"
proof -
  have c: "length (getMessageContent m) \<le> n" using within_content [OF assms] .
  have "case map_option r_content (reasoning (finalizeMessage t1 t2 m None)) of None \<Rightarrow> True | Some s \<Rightarrow> length s \<le> n"
    using assms c think_tags_size [of "getMessageContent m"]
    by (auto simp: reasoning_finalize some_nonempty_def texts_within_def split: option.splits)
  then show ?thesis
    using c think_tags_size(1) [of "getMessageContent m"]
    by (auto simp: texts_within_def versions_finalize split: option.splits)
qed

lemma truncateText_length: "length (truncateText s n) \<le> n"
  by (auto simp: truncateText_def slice_def)

lemma within_normalize:
  assumes "versions m \<noteq> []"
  shows "texts_within MAX_LOADED_MESSAGE_CHARS (normalizeStoredMessageForLoad clk m)"
proof -
  let ?n = "m\<lparr>versions := map (\<lambda>v. v\<lparr>version_content :=
       truncateText (collapseRepeatedSectionSnapshots (version_content v)) MAX_LOADED_MESSAGE_CHARS\<rparr>) (versions m),
    reasoning := map_option (\<lambda>r. r\<lparr>r_content := truncateText (r_content r) MAX_LOADED_MESSAGE_CHARS\<rparr>) (reasoning m)\<rparr>"
  have "texts_within MAX_LOADED_MESSAGE_CHARS ?n"
    using assms by (simp add: texts_within_def list_all_iff truncateText_length split: option.split)
  then show ?thesis
    using within_finalize [of MAX_LOADED_MESSAGE_CHARS ?n] by (simp add: normalizeStoredMessageForLoad_def Let_def)
qed

lemma within_sanitize:
  assumes "\<forall>m \<in> set ms. texts_within n m" and "length (tr API_REQUEST_ERROR @ js '': '' @ tr INTERRUPTED) \<le> n"
  shows "\<forall>m \<in> set (sanitizeMessagesOnLoad tr t1 t2 t3 ms). texts_within n m"
proof (cases "last_index (\<lambda>m. isPendingAssistantMessage (Some m)) ms (length ms)")
  case None
  then show ?thesis using assms(1) by (simp add: sanitizeMessagesOnLoad_def)
next
  case (Some i)
  then have "i < length ms" using last_index_SomeD by fastforce
  then have w: "texts_within n (finalizeMessage t1 t2 (ms ! i) None)" using assms(1) by (simp add: within_finalize)
  then have "texts_within n (updateCurrentVersionContent (finalizeMessage t1 t2 (ms ! i) None)
      (tr API_REQUEST_ERROR @ js '': '' @ tr INTERRUPTED))"
    using assms(2) by (subst within_update) (auto simp: texts_within_def)
  then show ?thesis
    using w Some assms(1)
    by (auto simp: sanitizeMessagesOnLoad_def Let_def dest!: set_update_subset_insert [THEN subsetD])
qed

lemma admitted_versions:
  assumes "admits messageSchema v"
  shows "versions (message_of v) \<noteq> []"
proof -
  obtain o' where v: "v = JObj o'" using assms by (cases v) (auto simp: messageSchema_def)
  have "case map_of o' (js ''versions'') of None \<Rightarrow> False | Some x \<Rightarrow> admits (ZArray 1 messageVersionSchema) x"
    using assms by (simp add: messageSchema_def v del: admits.simps(6)) (simp add: list_all_iff split: option.splits)
  then show ?thesis
    by (auto simp: message_of_def v split: option.splits jsval.splits)
qed

text \<open>
  C20: whatever the store holds, at most 100 messages are loaded, each with a version, and no
  text of a message or its reasoning has more than 40000 characters (if the translated notice
  for an interrupted answer has not).
\<close>

theorem loaded_within_limits:
  assumes "zod_documented z" and "length (tr API_REQUEST_ERROR @ js '': '' @ tr INTERRUPTED) \<le> 40000"
    and "loadMessages z quota tr clk store = (Some ms, store')"
  shows "length ms \<le> 100 \<and> (\<forall>m \<in> set ms. texts_within 40000 m)"
proof -
  obtain saved v where v: "z messagesSchema (unwrapStoredValue saved) = Some v"
    and ms: "ms = sanitizeMessagesOnLoad tr (clk (length (map message_of (as_arr (Some v)))) 0)
        (clk (length (map message_of (as_arr (Some v)))) 1) (clk (length (map message_of (as_arr (Some v)))) 2)
        (trimMessagesByContentSize (trimMessages (map (\<lambda>(i, m). normalizeStoredMessageForLoad (clk i) m)
          (enumerate 0 (map message_of (as_arr (Some v)))))))"
    using assms(3) by (auto simp: loadMessages_def Let_def split: prod.splits sum.splits option.splits if_splits)
  let ?n = "map (\<lambda>(i, m). normalizeStoredMessageForLoad (clk i) m) (enumerate 0 (map message_of (as_arr (Some v))))"
  have "admits messagesSchema v" using assms(1) v unfolding zod_documented_def by blast
  then have "\<forall>x \<in> set (as_arr (Some v)). admits messageSchema x"
    by (cases v) (auto simp: messagesSchema_def list_all_iff)
  then have n: "\<forall>m \<in> set ?n. texts_within 40000 m"
    using within_normalize admitted_versions by (fastforce simp: in_set_enumerate_eq MAX_LOADED_MESSAGE_CHARS_def)
  have a: "set (trimMessages ?n) \<subseteq> set ?n" "length (trimMessages ?n) \<le> 100"
    by (auto simp: trimMessages_def slice_last_def MAX_STORED_MESSAGES_def dest: in_set_dropD)
  obtain d where d: "trimMessages ?n = d @ trimMessagesByContentSize (trimMessages ?n)"
    using trim_longest [of "trimMessages ?n"] by blast
  have t: "set (trimMessagesByContentSize (trimMessages ?n)) \<subseteq> set ?n"
    using arg_cong [OF d, of set] a(1) by (metis le_supE set_append)
  have l: "length (trimMessagesByContentSize (trimMessages ?n)) \<le> 100"
    using arg_cong [OF d, of length] a(2) by (metis add_leD2 length_append)
  have s: "length (sanitizeMessagesOnLoad tr t1 t2 t3 xs) = length xs" for t1 t2 t3 xs
    by (simp add: sanitizeMessagesOnLoad_def Let_def split: option.split)
  have "\<forall>m \<in> set (trimMessagesByContentSize (trimMessages ?n)). texts_within 40000 m" using t n by blast
  then show ?thesis
    unfolding ms s using l by (intro conjI within_sanitize [OF _ assms(2)])
qed

lemma loaded_within_limits_witness:
  "\<exists>ms store'. loadMessages zod_model (\<lambda>_ _. True) (\<lambda>x. x) (\<lambda>_ _. 0)
     (saveMessages zod_model (\<lambda>_ _. True) [createLoadingAssistantMessage (js ''a'') (js ''b'') 5] (\<lambda>_. None)) = (Some ms, store') \<and>
     length ms \<le> 100 \<and> (\<forall>m \<in> set ms. texts_within 40000 m)"
proof -
  let ?r = "loadMessages zod_model (\<lambda>_ _. True) (\<lambda>x. x) (\<lambda>_ _. 0)
     (saveMessages zod_model (\<lambda>_ _. True) [createLoadingAssistantMessage (js ''a'') (js ''b'') 5] (\<lambda>_. None))"
  have "fst ?r \<noteq> None" by code_simp
  then obtain ms where ms: "?r = (Some ms, snd ?r)" by (metis option.exhaust prod.collapse)
  moreover have "length (API_REQUEST_ERROR @ js '': '' @ INTERRUPTED) \<le> 40000" by code_simp
  ultimately show ?thesis using loaded_within_limits [OF zod_model_documented, of "\<lambda>x. x", OF _ ms] by blast
qed

end
