(* ===== verification/Chat_State.thy ===== *)
theory Chat_State
  imports Chat_Storage
begin

text \<open>
  The state of the playground page: \<open>hooks/use-playground-state.ts\<close>,
  \<open>lib/state/playground-state-utils.ts\<close>, \<open>hooks/use-playground-options.ts\<close>,
  \<open>lib/options/playground-option-utils.ts\<close>, \<open>lib/input/input-control-utils.ts\<close>,
  \<open>lib/message/message-layout-utils.ts\<close> and the option queries of \<open>api.ts\<close>.

  \<open>playground_state\<close> holds the React state and the refs of the hook, the timers that are
  scheduled in the window and the \<open>localStorage\<close>. Its events are the edits of the
  conversation and of the configuration, the two timers and unmounting; \<open>pg_reachable\<close> are the
  states they lead to. \<open>pg_invariant\<close> says that there is never more than one save timer and
  what the store holds when none is scheduled.
\<close>

section \<open>Options of models and groups\<close>

record model_option =
  mo_label :: jstring
  mo_value :: jstring

record group_option =
  go_label :: jstring
  go_value :: jstring
  go_ratio :: decimal
  go_desc :: "jstring option"

text \<open>
  The bodies of the two answers: \<open>success\<close>, and \<open>data\<close> where it is an array of names, or an
  object from names to ratio and description.
\<close>

definition getUserModels :: "bool \<Rightarrow> jstring list option \<Rightarrow> model_option list" where
  "getUserModels success data =
     (if \<not> success then []
      else case data of None \<Rightarrow> []
        | Some ms \<Rightarrow> map (\<lambda>m. \<lparr>mo_label = m, mo_value = m\<rparr>) ms)"

definition getUserGroups ::
  "bool \<Rightarrow> (jstring \<times> decimal \<times> jstring option) list option \<Rightarrow> group_option list" where
  "getUserGroups success data =
     (if \<not> success then []
      else case data of None \<Rightarrow> []
        | Some gs \<Rightarrow> map (\<lambda>(group, ratio, desc).
            \<lparr>go_label = group, go_value = group, go_ratio = ratio, go_desc = desc\<rparr>) gs)"

definition getModelFallback :: "model_option list \<Rightarrow> jstring \<Rightarrow> jstring option" where
  "getModelFallback models currentModel =
     (case models of
        [] \<Rightarrow> None
      | m # _ \<Rightarrow> if list_ex (\<lambda>m. mo_value m = currentModel) models then None else Some (mo_value m))"

definition shouldClearModelForGroup :: "model_option list \<Rightarrow> jstring \<Rightarrow> bool" where
  "shouldClearModelForGroup models currentModel \<longleftrightarrow>
     currentModel \<noteq> [] \<and> \<not> list_ex (\<lambda>m. mo_value m = currentModel) models"

definition getGroupFallback :: "group_option list \<Rightarrow> jstring \<Rightarrow> jstring option" where
  "getGroupFallback groups currentGroup =
     (case groups of
        [] \<Rightarrow> None
      | g # _ \<Rightarrow>
          if list_ex (\<lambda>g. go_value g = currentGroup) groups then None
          else (case find (\<lambda>g. go_value g = js ''default'') groups of
                  Some d \<Rightarrow> Some (go_value d) | None \<Rightarrow> Some (go_value g)))"

text \<open>\<open>error\<close> is \<open>Some\<close> of its message where it is an \<open>Error\<close>.\<close>

definition getOptionLoadErrorMessage :: "jstring option \<Rightarrow> jstring \<Rightarrow> jstring" where
  "getOptionLoadErrorMessage err fallbackMessage = (case err of Some m \<Rightarrow> m | None \<Rightarrow> fallbackMessage)"

section \<open>The input box\<close>

record input_control_state =
  canSubmit :: bool
  isSelectorDisabled :: bool
  shouldShowStop :: bool

definition getSubmittableInputText :: "jstring option \<Rightarrow> bool \<Rightarrow> jstring option" where
  "getSubmittableInputText message_text disabled =
     (case message_text of
        None \<Rightarrow> None
      | Some s \<Rightarrow> if disabled \<or> trim s = [] then None else Some s)"

definition getInputControlState ::
  "bool \<Rightarrow> group_option list \<Rightarrow> bool \<Rightarrow> bool \<Rightarrow> bool \<Rightarrow> model_option list \<Rightarrow> jstring \<Rightarrow> input_control_state" where
  "getInputControlState disabled groups hasStopHandler generating isModelLoading models input =
     \<lparr>canSubmit = (\<not> disabled \<and> models \<noteq> [] \<and> length (trim input) > 0),
      isSelectorDisabled = (disabled \<or> isModelLoading \<or> groups = []),
      shouldShowStop = (generating \<and> hasStopHandler)\<rparr>"

datatype message_alignment = Align_left | Align_right

text \<open>\<open>left_mode\<close> is \<open>layoutMode === 'left'\<close>.\<close>

definition getMessageAlignment :: "message \<Rightarrow> bool \<Rightarrow> message_alignment" where
  "getMessageAlignment m left_mode =
     (if left_mode then Align_left else if msg_from m = User then Align_right else Align_left)"

section \<open>The state of the page\<close>

text \<open>
  \<open>pg_live\<close> are the save timers scheduled in the window (by the number \<open>setTimeout\<close> returned),
  \<open>pg_save_timer\<close> is \<open>messagesSaveTimerRef\<close>. The timer that loads the messages is scheduled
  once, on mounting; \<open>pg_load_scheduled\<close> says that it has not fired yet.
\<close>

record playground_state =
  pg_config :: jsval
  pg_parameterEnabled :: jsval
  pg_messages :: "message list"
  pg_isLoadingMessages :: bool
  pg_save_timer :: "nat option"
  pg_latest :: "message list"
  pg_hasLoaded :: bool
  pg_models :: "model_option list"
  pg_groups :: "group_option list"
  pg_cancelled :: bool
  pg_load_scheduled :: bool
  pg_mounted :: bool
  pg_live :: "nat list"
  pg_next :: nat
  pg_store :: local_storage

type_synonym zod = "schema \<Rightarrow> jsval \<Rightarrow> jsval option"
type_synonym storage_quota = "jstring \<Rightarrow> jstring \<Rightarrow> bool"

definition mount :: "zod \<Rightarrow> local_storage \<Rightarrow> playground_state" where
  "mount z store =
     \<lparr>pg_config = getInitialPlaygroundConfig z store, pg_parameterEnabled = getInitialParameterEnabled z store,
      pg_messages = [], pg_isLoadingMessages = True, pg_save_timer = None, pg_latest = [], pg_hasLoaded = False,
      pg_models = [], pg_groups = [], pg_cancelled = False, pg_load_scheduled = True, pg_mounted = True,
      pg_live = [], pg_next = 0, pg_store = store\<rparr>"

definition clearTimeout :: "nat option \<Rightarrow> playground_state \<Rightarrow> playground_state" where
  "clearTimeout i s = (case i of None \<Rightarrow> s | Some i \<Rightarrow> s\<lparr>pg_live := removeAll i (pg_live s)\<rparr>)"

definition persistMessages :: "message list \<Rightarrow> playground_state \<Rightarrow> playground_state" where
  "persistMessages messagesToSave s =
     (let s1 = s\<lparr>pg_latest := messagesToSave\<rparr> in
      if \<not> pg_hasLoaded s1 then s1
      else
        let s2 = clearTimeout (pg_save_timer s1) s1 in
        s2\<lparr>pg_live := pg_live s2 @ [pg_next s2], pg_save_timer := Some (pg_next s2), pg_next := Suc (pg_next s2)\<rparr>)"

text \<open>The callback of the save timer.\<close>

definition save_timer_fires :: "zod \<Rightarrow> storage_quota \<Rightarrow> nat \<Rightarrow> playground_state \<Rightarrow> playground_state" where
  "save_timer_fires z quota i s =
     s\<lparr>pg_live := removeAll i (pg_live s), pg_save_timer := None,
       pg_store := saveMessages z quota (pg_latest s) (pg_store s)\<rparr>"

text \<open>The callback of the timer that loads the messages.\<close>

definition load_timer_fires ::
  "zod \<Rightarrow> storage_quota \<Rightarrow> (jstring \<Rightarrow> jstring) \<Rightarrow> (nat \<Rightarrow> nat \<Rightarrow> int) \<Rightarrow> playground_state \<Rightarrow> playground_state" where
  "load_timer_fires z quota tr clk s =
     (let (loaded, store) = loadMessages z quota tr clk (pg_store s);
          loadedMessages = (case loaded of None \<Rightarrow> [] | Some ms \<Rightarrow> ms);
          s1 = s\<lparr>pg_load_scheduled := False, pg_store := store\<rparr> in
      if pg_cancelled s1 then s1
      else s1\<lparr>pg_latest := loadedMessages, pg_hasLoaded := True, pg_messages := loadedMessages,
              pg_isLoadingMessages := False\<rparr>)"

text \<open>The clean-up of the two effects.\<close>

definition unmount :: "zod \<Rightarrow> storage_quota \<Rightarrow> playground_state \<Rightarrow> playground_state" where
  "unmount z quota s =
     (let s1 = s\<lparr>pg_mounted := False, pg_cancelled := True\<rparr> in
      case pg_save_timer s1 of
        None \<Rightarrow> s1
      | Some i \<Rightarrow>
          let s2 = clearTimeout (Some i) s1 in
          s2\<lparr>pg_store := saveMessages z quota (pg_latest s2) (pg_store s2)\<rparr>)"

definition updateConfig :: "zod \<Rightarrow> storage_quota \<Rightarrow> jstring \<Rightarrow> jsval \<Rightarrow> playground_state \<Rightarrow> playground_state" where
  "updateConfig z quota key v s =
     (let updated = spread (pg_config s) (JObj [(key, v)]) in
      s\<lparr>pg_config := updated, pg_store := saveConfig z quota updated (pg_store s)\<rparr>)"

definition updateParameterEnabled ::
  "zod \<Rightarrow> storage_quota \<Rightarrow> jstring \<Rightarrow> bool \<Rightarrow> playground_state \<Rightarrow> playground_state" where
  "updateParameterEnabled z quota key v s =
     (let updated = spread (pg_parameterEnabled s) (JObj [(key, JBool v)]) in
      s\<lparr>pg_parameterEnabled := updated, pg_store := saveParameterEnabled z quota updated (pg_store s)\<rparr>)"

datatype message_state_updater = Messages "message list" | Updater "message list \<Rightarrow> message list"

definition applyMessageStateUpdate :: "message list \<Rightarrow> message_state_updater \<Rightarrow> message list" where
  "applyMessageStateUpdate previousMessages updater =
     (case updater of Updater f \<Rightarrow> f previousMessages | Messages ms \<Rightarrow> ms)"

definition updateMessages :: "message_state_updater \<Rightarrow> playground_state \<Rightarrow> playground_state" where
  "updateMessages updater s =
     (let newMessages = applyMessageStateUpdate (pg_messages s) updater in
      (persistMessages newMessages s)\<lparr>pg_messages := newMessages\<rparr>)"

definition clearMessages :: "playground_state \<Rightarrow> playground_state" where
  "clearMessages s = updateMessages (Messages []) s"

definition resetConfig :: "zod \<Rightarrow> storage_quota \<Rightarrow> playground_state \<Rightarrow> playground_state" where
  "resetConfig z quota s =
     s\<lparr>pg_config := config_value DEFAULT_CONFIG, pg_parameterEnabled := enabled_value DEFAULT_PARAMETER_ENABLED,
       pg_store := saveParameterEnabled z quota (enabled_value DEFAULT_PARAMETER_ENABLED)
         (saveConfig z quota (config_value DEFAULT_CONFIG) (pg_store s))\<rparr>"

definition getInitialMessages where
  "getInitialMessages z quota tr clk store =
     (case fst (loadMessages z quota tr clk store) of None \<Rightarrow> [] | Some ms \<Rightarrow> ms)"

section \<open>The effects of the options\<close>

definition currentModel :: "playground_state \<Rightarrow> jstring" where
  "currentModel s = as_str (member (Some (pg_config s)) (js ''model''))"

definition currentGroup :: "playground_state \<Rightarrow> jstring" where
  "currentGroup s = as_str (member (Some (pg_config s)) (js ''group''))"

definition models_effect :: "zod \<Rightarrow> storage_quota \<Rightarrow> model_option list \<Rightarrow> playground_state \<Rightarrow> playground_state" where
  "models_effect z quota modelsData s =
     (let s1 = s\<lparr>pg_models := modelsData\<rparr> in
      case getModelFallback modelsData (currentModel s) of
        Some (c # cs) \<Rightarrow> updateConfig z quota (js ''model'') (JStr (c # cs)) s1
      | _ \<Rightarrow>
          if shouldClearModelForGroup modelsData (currentModel s)
          then updateConfig z quota (js ''model'') (JStr []) s1 else s1)"

definition groups_effect :: "zod \<Rightarrow> storage_quota \<Rightarrow> group_option list \<Rightarrow> playground_state \<Rightarrow> playground_state" where
  "groups_effect z quota groupsData s =
     (let s1 = s\<lparr>pg_groups := groupsData\<rparr> in
      case getGroupFallback groupsData (currentGroup s) of
        Some (c # cs) \<Rightarrow> updateConfig z quota (js ''group'') (JStr (c # cs)) s1
      | _ \<Rightarrow> s1)"

section \<open>Reachable states\<close>

text \<open>
  The steps of a page that starts on a store. A timer fires at any moment after it was scheduled;
  the browser may close the page at any moment, which is the end of a sequence of steps.
\<close>

inductive pg_reachable :: "zod \<Rightarrow> storage_quota \<Rightarrow> (jstring \<Rightarrow> jstring) \<Rightarrow> local_storage \<Rightarrow> playground_state \<Rightarrow> bool"
  for z quota tr store where
  Mount: "pg_reachable z quota tr store (mount z store)"
| Load: "pg_reachable z quota tr store s \<Longrightarrow> pg_load_scheduled s \<Longrightarrow>
    pg_reachable z quota tr store (load_timer_fires z quota tr clk s)"
| Save: "pg_reachable z quota tr store s \<Longrightarrow> i \<in> set (pg_live s) \<Longrightarrow>
    pg_reachable z quota tr store (save_timer_fires z quota i s)"
| Update: "pg_reachable z quota tr store s \<Longrightarrow> pg_mounted s \<Longrightarrow>
    pg_reachable z quota tr store (updateMessages updater s)"
| Config: "pg_reachable z quota tr store s \<Longrightarrow> pg_mounted s \<Longrightarrow>
    pg_reachable z quota tr store (updateConfig z quota key v s)"
| Enabled: "pg_reachable z quota tr store s \<Longrightarrow> pg_mounted s \<Longrightarrow>
    pg_reachable z quota tr store (updateParameterEnabled z quota key b s)"
| Reset: "pg_reachable z quota tr store s \<Longrightarrow> pg_mounted s \<Longrightarrow>
    pg_reachable z quota tr store (resetConfig z quota s)"
| Models: "pg_reachable z quota tr store s \<Longrightarrow> pg_mounted s \<Longrightarrow>
    pg_reachable z quota tr store (models_effect z quota models s)"
| Groups: "pg_reachable z quota tr store s \<Longrightarrow> pg_mounted s \<Longrightarrow>
    pg_reachable z quota tr store (groups_effect z quota groups s)"
| Unmount: "pg_reachable z quota tr store s \<Longrightarrow> pg_mounted s \<Longrightarrow>
    pg_reachable z quota tr store (unmount z quota s)"

text \<open>
  Saving a conversation once more would change nothing, or there is no conversation and nothing readable
  in the store. This is what the steps keep; that the store then holds the conversation follows where
  saving succeeds (\<open>saveMessages_writes\<close>).
\<close>

definition save_settled :: "zod \<Rightarrow> storage_quota \<Rightarrow> message list \<Rightarrow> local_storage \<Rightarrow> bool" where
  "save_settled z quota ms store \<longleftrightarrow>
     saveMessages z quota ms store = store \<or>
     ms = [] \<and> (\<forall>quota' tr clk. loadMessages z quota' tr clk store = (None, store))"

lemma saveMessages_cases:
  obtains (Rejected) "\<And>store. saveMessages z quota ms store = store"
  | (Written) saved where "\<And>store. saveMessages z quota ms store = store(MESSAGES_KEY \<mapsto> saved)"
proof (cases "z messagesSchema (messages_value (trimMessages ms))")
  case None
  then show ?thesis by (intro that(1)) (simp add: saveMessages_def)
next
  case (Some v)
  let ?t = "JSON_stringify (JObj [(js ''version'', num_value STORAGE_VERSION), (js ''data'', v)])"
  show ?thesis
    by (cases "quota MESSAGES_KEY ?t")
      (rule that, simp add: saveMessages_def Some writeStoredValue_def Let_def)+
qed

lemma saveMessages_idem [simp]:
  "saveMessages z quota ms (saveMessages z quota ms store) = saveMessages z quota ms store"
  by (cases z quota ms rule: saveMessages_cases) simp_all

lemma save_partial_other: "key \<noteq> k \<Longrightarrow> save_partial z quota sc key v store k = store k"
  by (simp add: save_partial_def writeStoredValue_def Let_def split: option.split)

lemma keys_distinct [simp]: "CONFIG_KEY \<noteq> MESSAGES_KEY" "PARAMETER_ENABLED_KEY \<noteq> MESSAGES_KEY"
  by (simp_all add: CONFIG_KEY_def MESSAGES_KEY_def PARAMETER_ENABLED_KEY_def)

lemma saveConfig_messages [simp]: "saveConfig z quota cfg store MESSAGES_KEY = store MESSAGES_KEY"
  by (simp add: saveConfig_def save_partial_other)

lemma saveParameterEnabled_messages [simp]:
  "saveParameterEnabled z quota en store MESSAGES_KEY = store MESSAGES_KEY"
  by (simp add: saveParameterEnabled_def save_partial_other)

text \<open>Loading looks at one key only.\<close>

lemma load_nothing_iff:
  "(\<forall>quota tr clk. loadMessages z quota tr clk store = (None, store)) \<longleftrightarrow>
   (case store MESSAGES_KEY of None \<Rightarrow> True | Some saved \<Rightarrow> saved = [] \<or>
      length saved \<le> MAX_STORED_MESSAGES_BYTES \<and>
      (case JSON_parse saved of None \<Rightarrow> True
       | Some v \<Rightarrow> \<not> truthy v \<or> z messagesSchema (unwrapStoredValue v) = None))"
  by (auto simp: loadMessages_def readStoredMessagesValue_def Let_def fun_eq_iff
      split: option.splits sum.splits if_splits)

lemma load_None_again:
  assumes "loadMessages z quota tr clk store = (None, store')"
  shows "\<forall>quota tr clk. loadMessages z quota tr clk store' = (None, store')"
  using assms unfolding load_nothing_iff
  by (auto simp: loadMessages_def readStoredMessagesValue_def Let_def
      split: option.splits sum.splits if_splits)

lemma load_Some_saved:
  assumes "loadMessages z quota tr clk store = (Some ms, store')"
  shows "saveMessages z quota ms store' = store'"
  using assms by (auto simp: loadMessages_def Let_def split: prod.splits sum.splits option.splits if_splits)

lemma save_settled_load:
  "loadMessages z quota tr clk store = (r, store') \<Longrightarrow>
   save_settled z quota (case r of None \<Rightarrow> [] | Some ms \<Rightarrow> ms) store'"
  by (cases r) (auto simp: save_settled_def load_Some_saved dest: load_None_again)

lemma save_settled_save [simp]: "save_settled z quota ms (saveMessages z quota ms store)"
  by (simp add: save_settled_def)

lemma save_settled_cong:
  assumes "store' MESSAGES_KEY = store MESSAGES_KEY"
  shows "save_settled z quota ms store' = save_settled z quota ms store"
  unfolding save_settled_def load_nothing_iff assms
  by (cases z quota ms rule: saveMessages_cases) (simp_all add: assms fun_upd_idem_iff)

definition pg_invariant :: "zod \<Rightarrow> storage_quota \<Rightarrow> playground_state \<Rightarrow> bool" where
  "pg_invariant z quota s \<longleftrightarrow>
     pg_live s = (case pg_save_timer s of Some i \<Rightarrow> if pg_mounted s then [i] else [] | None \<Rightarrow> []) \<and>
     (pg_cancelled s \<longleftrightarrow> \<not> pg_mounted s) \<and>
     (pg_save_timer s \<noteq> None \<longrightarrow> pg_hasLoaded s) \<and>
     (pg_hasLoaded s \<longrightarrow> \<not> pg_load_scheduled s \<and> pg_latest s = pg_messages s) \<and>
     (pg_hasLoaded s \<and> pg_live s = [] \<longrightarrow> save_settled z quota (pg_messages s) (pg_store s))"

lemma pg_invariant_mount: "pg_invariant z quota (mount z store)"
  by (simp add: pg_invariant_def mount_def)

lemma pg_invariant_load:
  assumes "pg_invariant z quota s" and "pg_load_scheduled s"
  shows "pg_invariant z quota (load_timer_fires z quota tr clk s)"
  using assms
  by (auto simp: pg_invariant_def load_timer_fires_def Let_def save_settled_load
      split: prod.split option.splits)

lemma pg_invariant_save:
  assumes "pg_invariant z quota s" and "i \<in> set (pg_live s)"
  shows "pg_invariant z quota (save_timer_fires z quota i s)"
  using assms by (auto simp: pg_invariant_def save_timer_fires_def split: option.splits if_splits)

lemma pg_invariant_update:
  assumes "pg_invariant z quota s" and "pg_mounted s"
  shows "pg_invariant z quota (updateMessages updater s)"
  using assms
  by (auto simp: pg_invariant_def updateMessages_def persistMessages_def clearTimeout_def Let_def
      split: option.splits)

lemma pg_invariant_unmount:
  assumes "pg_invariant z quota s" and "pg_mounted s"
  shows "pg_invariant z quota (unmount z quota s)"
  using assms
  by (auto simp: pg_invariant_def unmount_def clearTimeout_def Let_def split: option.splits)

text \<open>A step that keeps the conversation, its timers and its stored text keeps the invariant.\<close>

lemma pg_invariant_frame:
  assumes "pg_invariant z quota s"
    and "pg_live s' = pg_live s" "pg_save_timer s' = pg_save_timer s" "pg_mounted s' = pg_mounted s"
      "pg_cancelled s' = pg_cancelled s" "pg_hasLoaded s' = pg_hasLoaded s"
      "pg_load_scheduled s' = pg_load_scheduled s" "pg_latest s' = pg_latest s" "pg_messages s' = pg_messages s"
      "pg_store s' MESSAGES_KEY = pg_store s MESSAGES_KEY"
  shows "pg_invariant z quota s'"
  using assms(1) unfolding pg_invariant_def assms(2-9) save_settled_cong [where store = "pg_store s" and store' = "pg_store s'", OF assms(10)] .

lemma pg_invariant_updateConfig: "pg_invariant z quota s \<Longrightarrow> pg_invariant z quota (updateConfig z quota k v s)"
  by (rule pg_invariant_frame, assumption) (simp_all add: updateConfig_def Let_def)

lemma pg_invariant_options:
  "pg_invariant z quota s \<Longrightarrow> pg_invariant z quota (s\<lparr>pg_models := ms\<rparr>)"
  "pg_invariant z quota s \<Longrightarrow> pg_invariant z quota (s\<lparr>pg_groups := gs\<rparr>)"
  by (rule pg_invariant_frame, assumption, simp_all)+

lemmas pg_invariant_steps = pg_invariant_load pg_invariant_save pg_invariant_update pg_invariant_unmount
  pg_invariant_updateConfig pg_invariant_options pg_invariant_mount

lemma pg_reachable_invariant: "pg_reachable z quota tr store s \<Longrightarrow> pg_invariant z quota s"
proof (induction rule: pg_reachable.induct)
  case (Enabled s key b)
  show ?case
    by (rule pg_invariant_frame [OF Enabled.IH]) (simp_all add: updateParameterEnabled_def Let_def)
next
  case (Reset s)
  show ?case
    by (rule pg_invariant_frame [OF Reset.IH]) (simp_all add: resetConfig_def)
next
  case (Models s models)
  then show ?case
    by (simp add: models_effect_def Let_def pg_invariant_steps split: option.split list.split)
next
  case (Groups s groups)
  then show ?case
    by (simp add: groups_effect_def Let_def pg_invariant_steps split: option.split list.split)
qed (simp_all add: pg_invariant_steps)

lemma saveMessages_writes:
  assumes "zod_documented z" and "\<forall>m \<in> set ms. storable m"
    and "quota MESSAGES_KEY (stored_text (messages_value (trimMessages ms)))"
  shows "saveMessages z quota ms store = store(MESSAGES_KEY \<mapsto> stored_text (messages_value (trimMessages ms)))"
proof -
  have "\<forall>m \<in> set (trimMessages ms). storable m"
    using assms(2) by (auto simp: trimMessages_def slice_last_def dest: in_set_dropD split: if_splits)
  then have "z messagesSchema (messages_value (trimMessages ms)) = Some (messages_value (trimMessages ms))"
    by (rule zod_messages(1) [OF assms(1)])
  then show ?thesis using assms(3) by (simp add: saveMessages_def writeStoredValue_def stored_text_def Let_def)
qed



section \<open>Settling of the options\<close>

lemma map_of_obj_insert: "k \<notin> fst ` set m \<Longrightarrow> map_of (obj_insert k v m) k' = (if k' = k then Some v else map_of m k')"
  by (induction m) auto

lemma map_of_obj_set: "map_of (obj_set m k v) k' = (if k' = k then Some v else map_of m k')"
  by (simp add: obj_set_def map_of_obj_insert update_conv)

lemma updateConfig_member:
  assumes "pg_config s = JObj m"
  shows "member (Some (pg_config (updateConfig z quota k v s))) k' =
    (if k' = k then Some v else member (Some (pg_config s)) k')"
  by (simp add: updateConfig_def Let_def spread_def assms map_of_obj_set)

lemma models_effect_stable:
  assumes "currentModel s \<in> mo_value ` set models \<or> models = [] \<and> currentModel s = []"
  shows "models_effect z quota models s = s\<lparr>pg_models := models\<rparr>"
proof -
  have "getModelFallback models (currentModel s) = None"
    using assms by (auto simp: getModelFallback_def list_ex_iff split: list.split)
  moreover have "\<not> shouldClearModelForGroup models (currentModel s)"
    using assms by (auto simp: shouldClearModelForGroup_def list_ex_iff)
  ultimately show ?thesis by (simp add: models_effect_def)
qed

lemma currentModel_updateConfig:
  "pg_config s = JObj m \<Longrightarrow> currentModel (updateConfig z quota (js ''model'') (JStr v) s) = v"
  by (simp add: currentModel_def updateConfig_member [where m = m])

lemma models_effect_settles:
  assumes "pg_config s = JObj m"
  shows "currentModel (models_effect z quota models s) \<in> mo_value ` set models \<or>
    models = [] \<and> currentModel (models_effect z quota models s) = []"
proof (cases "currentModel s \<in> mo_value ` set models \<or> models = [] \<and> currentModel s = []")
  case True
  then show ?thesis
    by (simp add: models_effect_stable) (simp add: currentModel_def)
next
  case out: False
  let ?s = "s\<lparr>pg_models := models\<rparr>"
  have upd: "currentModel (updateConfig z quota (js ''model'') (JStr v) ?s) = v" for v
    by (rule currentModel_updateConfig [where m = m]) (simp add: assms)
  have clear: "shouldClearModelForGroup models (currentModel s)" if "currentModel s \<noteq> []"
    using out that by (auto simp: shouldClearModelForGroup_def list_ex_iff image_iff)
  show ?thesis
  proof (cases models)
    case Nil
    with out clear have "models_effect z quota models s = updateConfig z quota (js ''model'') (JStr []) ?s"
      by (simp add: models_effect_def getModelFallback_def)
    then show ?thesis using Nil upd by simp
  next
    case (Cons a as)
    with out have fallback: "getModelFallback models (currentModel s) = Some (mo_value a)"
      by (auto simp: getModelFallback_def list_ex_iff image_iff)
    show ?thesis
    proof (cases "mo_value a")
      case Nil
      with out Cons have "currentModel s \<noteq> []" by (metis image_eqI list.set_intros(1))
      with Nil have "models_effect z quota models s = updateConfig z quota (js ''model'') (JStr []) ?s"
        by (simp add: models_effect_def fallback clear)
      then show ?thesis using Cons Nil upd by simp
    next
      case (Cons c cs)
      then show ?thesis using \<open>models = a # as\<close> fallback upd by (simp add: models_effect_def)
    qed
  qed
qed

text \<open>
  C31: the effect that follows the list of models settles. After one run the selected model is one
  of the list, or nothing is selected and the list is empty; the run that the changed selection
  triggers changes nothing more.
\<close>

theorem models_effect_terminates:
  assumes "pg_config s = JObj m"
  shows "(let s' = models_effect z quota models s in
     (currentModel s' \<in> mo_value ` set models \<or> models = [] \<and> currentModel s' = []) \<and>
     models_effect z quota models s' = s')"
proof -
  have "pg_models (models_effect z quota models s) = models"
    by (simp add: models_effect_def updateConfig_def Let_def split: option.split list.split)
  then show ?thesis
    using models_effect_settles [OF assms] by (simp add: Let_def models_effect_stable)
qed

section \<open>Witnesses\<close>

text \<open>A page that loads an empty store, appends a question and answers it, and is left.\<close>

definition sample_page :: playground_state where
  "sample_page =
     unmount zod_model (\<lambda>_ _. True)
       (updateMessages (Updater (\<lambda>ms. ms @ [createUserMessage (js ''a'') (js ''b'') (js ''hi'') 5]))
         (load_timer_fires zod_model (\<lambda>_ _. True) (\<lambda>x. x) (\<lambda>_ _. 0) (mount zod_model (\<lambda>_. None))))"

lemma sample_page_reachable: "pg_reachable zod_model (\<lambda>_ _. True) (\<lambda>x. x) (\<lambda>_. None) sample_page"
  unfolding sample_page_def by (intro pg_reachable.intros; code_simp)



lemma models_effect_terminates_witness:
  "let s = mount zod_model (\<lambda>_. None); ms = [\<lparr>mo_label = js ''m'', mo_value = js ''m''\<rparr>];
       s' = models_effect zod_model (\<lambda>_ _. True) ms s in
   currentModel s \<notin> mo_value ` set ms \<and> currentModel s' = js ''m'' \<and> models_effect zod_model (\<lambda>_ _. True) ms s' = s'"
proof -
  have "case pg_config (mount zod_model (\<lambda>_. None)) of JObj _ \<Rightarrow> True | _ \<Rightarrow> False" by code_simp
  then obtain m where "pg_config (mount zod_model (\<lambda>_. None)) = JObj m" by (auto split: jsval.splits)
  moreover have "currentModel (mount zod_model (\<lambda>_. None)) \<noteq> js ''m''" by code_simp
  ultimately show ?thesis
    using models_effect_terminates [of "mount zod_model (\<lambda>_. None)" m zod_model "\<lambda>_ _. True" "[\<lparr>mo_label = js ''m'', mo_value = js ''m''\<rparr>]"]
    by (simp add: Let_def)
qed

end
