(* ===== verification/Flow.thy ===== *)
theory Flow
  imports JSON
begin

text \<open>
  The Sankey diagram of the dashboard: \<open>features/dashboard/lib/flow.ts\<close>,
  \<open>flow-selection.ts\<close> and their types. Usage rows become paths of nodes, one node for each
  visible stage; the graph adds up the paths by node and by link.

  The quantities of a row are the integers the server counts; sums and quotients are exact here,
  as they are in JavaScript up to \<open>2 ^ 53\<close>. What the browser and the chart library provide is a
  parameter, the record \<open>flow_host\<close>: \<open>localeCompare\<close>, the number format, and the colour
  schemes of VChart.
\<close>

section \<open>Data\<close>

record flow_row =
  row_user_id :: "int option"
  row_username :: "jstring option"
  row_node_name :: "jstring option"
  row_use_group :: "jstring option"
  row_token_id :: "int option"
  row_token_name :: "jstring option"
  row_channel_id :: "int option"
  row_channel_name :: "jstring option"
  row_model_name :: "jstring option"
  row_token_used :: "int option"
  row_count :: "int option"
  row_quota :: "int option"

datatype flow_metric = Quota | Tokens | Requests

datatype flow_overflow_mode = Aggregate | Hide

datatype flow_role = Role_user | Role_admin | Role_root

datatype flow_node_kind = Kind_user | Kind_node | Kind_token | Kind_group | Kind_model | Kind_channel

record flow_metrics =
  m_quota :: int
  m_tokens :: int
  m_requests :: int

record flow_path_node =
  pn_id :: jstring
  pn_label :: jstring
  pn_kind :: flow_node_kind

record flow_node_filter =
  nf_kind :: flow_node_kind
  nf_id :: jstring

record flow_link_selection =
  ls_source :: jstring
  ls_target :: jstring

record flow_node =
  fn_id :: jstring
  fn_label :: jstring
  fn_kind :: flow_node_kind
  fn_value :: int
  fn_requests :: int
  fn_quota :: int
  fn_tokens :: int
  fn_color :: jstring
  fn_colorKey :: jstring
  fn_highlighted :: "bool option"
  fn_dimmed :: "bool option"

record flow_link =
  fl_source :: jstring
  fl_target :: jstring
  fl_value :: int
  fl_requests :: int
  fl_quota :: int
  fl_tokens :: int
  fl_sourceLabel :: jstring
  fl_targetLabel :: jstring
  fl_color :: jstring
  fl_linkColor :: jstring
  fl_linkAlpha :: rat
  fl_hoverColor :: jstring
  fl_colorKey :: jstring
  fl_share :: rat
  fl_highlighted :: "bool option"
  fl_dimmed :: "bool option"

record flow_graph =
  g_nodes :: "flow_node list"
  g_links :: "flow_link list"

record flow_user_option =
  uo_value :: jstring
  uo_label :: jstring
  uo_valueLabel :: jstring
  uo_valueRaw :: int
  uo_color :: jstring

record flow_node_option =
  no_kind :: flow_node_kind
  no_value :: jstring
  no_label :: jstring
  no_valueLabel :: jstring
  no_valueRaw :: int
  no_color :: jstring

record flow_filter_options =
  fo_users :: "flow_user_option list"
  fo_nodes :: "flow_node_option list"

record processed_flow_data =
  pf_summary :: flow_metrics
  pf_flow :: flow_graph
  pf_filterOptions :: flow_filter_options

record prepared_path =
  pp_path :: "flow_path_node list"
  pp_metrics :: flow_metrics

record flow_node_rank =
  rank_node :: flow_path_node
  rank_value :: int

text \<open>\<open>deletedTokenLabel\<close>, where the caller gives one.\<close>

type_synonym flow_path_context = "(int \<Rightarrow> jstring) option"

record flow_graph_options =
  opt_topNodeLimit :: "rat option"
  opt_overflowMode :: "flow_overflow_mode option"
  opt_otherNodeLabel :: "(flow_node_kind \<Rightarrow> jstring) option"
  opt_activeNode :: "flow_node_filter option"
  opt_activeLink :: "flow_link_selection option"
  opt_maskSensitive :: bool

record flow_build_options =
  bo_role :: "flow_role option"
  bo_selectedUsers :: "jstring list option"
  bo_selectedNodes :: "flow_node_filter list option"
  bo_colorPalette :: "jstring list option"
  bo_visibleStages :: "flow_node_kind list option"
  bo_deletedTokenLabel :: flow_path_context
  bo_graph :: flow_graph_options

record flow_host =
  localeCompare :: "jstring \<Rightarrow> jstring \<Rightarrow> int"
  number_format :: "int \<Rightarrow> jstring"
  data_scheme :: "(nat option \<times> jstring option list) list"

section \<open>Constants\<close>

definition DEFAULT_FLOW_ROLE :: flow_role where
  "DEFAULT_FLOW_ROLE = Role_user"

definition DEFAULT_FLOW_OVERFLOW_MODE :: flow_overflow_mode where
  "DEFAULT_FLOW_OVERFLOW_MODE = Aggregate"

definition DEFAULT_FLOW_CHART_COLOR :: jstring where
  "DEFAULT_FLOW_CHART_COLOR = js ''#1664FF''"

definition FLOW_NODE_KINDS :: "flow_node_kind list" where
  "FLOW_NODE_KINDS = [Kind_user, Kind_node, Kind_token, Kind_group, Kind_model, Kind_channel]"

fun kind_text :: "flow_node_kind \<Rightarrow> jstring" where
  "kind_text Kind_user = js ''user''"
| "kind_text Kind_node = js ''node''"
| "kind_text Kind_token = js ''token''"
| "kind_text Kind_group = js ''group''"
| "kind_text Kind_model = js ''model''"
| "kind_text Kind_channel = js ''channel''"

fun OTHER_FLOW_NODE_IDS :: "flow_node_kind \<Rightarrow> jstring" where
  "OTHER_FLOW_NODE_IDS Kind_user = js ''user:__other__''"
| "OTHER_FLOW_NODE_IDS Kind_node = js ''node:__other__''"
| "OTHER_FLOW_NODE_IDS Kind_token = js ''token:__other__''"
| "OTHER_FLOW_NODE_IDS Kind_group = js ''group:__other__''"
| "OTHER_FLOW_NODE_IDS Kind_model = js ''model:__other__''"
| "OTHER_FLOW_NODE_IDS Kind_channel = js ''channel:__other__''"

fun DEFAULT_OTHER_FLOW_NODE_LABELS :: "flow_node_kind \<Rightarrow> jstring" where
  "DEFAULT_OTHER_FLOW_NODE_LABELS Kind_user = js ''Other users''"
| "DEFAULT_OTHER_FLOW_NODE_LABELS Kind_node = js ''Other nodes''"
| "DEFAULT_OTHER_FLOW_NODE_LABELS Kind_token = js ''Other tokens''"
| "DEFAULT_OTHER_FLOW_NODE_LABELS Kind_group = js ''Other groups''"
| "DEFAULT_OTHER_FLOW_NODE_LABELS Kind_model = js ''Other models''"
| "DEFAULT_OTHER_FLOW_NODE_LABELS Kind_channel = js ''Other channels''"

definition SENSITIVE_FLOW_KINDS :: "flow_node_kind list" where
  "SENSITIVE_FLOW_KINDS = [Kind_user, Kind_node, Kind_token, Kind_group, Kind_channel]"

definition OTHER_FLOW_NODE_ID_SET :: "jstring list" where
  "OTHER_FLOW_NODE_ID_SET = map OTHER_FLOW_NODE_IDS FLOW_NODE_KINDS"

definition FLOW_MASK_TEXT :: jstring where
  "FLOW_MASK_TEXT = [8226, 8226, 8226, 8226]"

definition MIN_FLOW_STAGES :: nat where
  "MIN_FLOW_STAGES = 2"

section \<open>Rows and paths\<close>

text \<open>\<open>numberValue\<close> on the numbers of a row: what is missing counts as zero.\<close>

definition numberValue :: "int option \<Rightarrow> int" where
  "numberValue v = (case v of Some n \<Rightarrow> n | None \<Rightarrow> 0)"

text \<open>\<open>value || fallback\<close> on a string.\<close>

definition str_or :: "jstring option \<Rightarrow> jstring \<Rightarrow> jstring" where
  "str_or v d = (case v of Some (c # cs) \<Rightarrow> c # cs | _ \<Rightarrow> d)"

definition rowMetrics :: "flow_row \<Rightarrow> flow_metrics" where
  "rowMetrics row =
     \<lparr>m_quota = numberValue (row_quota row), m_tokens = numberValue (row_token_used row),
      m_requests = numberValue (row_count row)\<rparr>"

definition metricValue :: "flow_metrics \<Rightarrow> flow_metric \<Rightarrow> int" where
  "metricValue metrics metric =
     (case metric of Requests \<Rightarrow> m_requests metrics | Tokens \<Rightarrow> m_tokens metrics | Quota \<Rightarrow> m_quota metrics)"

definition userNode :: "flow_row \<Rightarrow> flow_path_node" where
  "userNode row =
     (let userID = numberValue (row_user_id row) in
      \<lparr>pn_id = (if userID > 0 then js ''user:'' @ int_str userID
                else js ''user:'' @ str_or (row_username row) (js ''unknown'')),
       pn_label = str_or (row_username row)
         (if userID > 0 then js ''user-'' @ int_str userID else js ''Unknown User''),
       pn_kind = Kind_user\<rparr>)"

definition nodeNameNode :: "flow_row \<Rightarrow> flow_path_node" where
  "nodeNameNode row =
     (let nodeName = str_or (row_node_name row) (js ''default-node'') in
      \<lparr>pn_id = js ''node:'' @ nodeName, pn_label = nodeName, pn_kind = Kind_node\<rparr>)"

definition deletedTokenLabel :: "int \<Rightarrow> flow_path_context \<Rightarrow> jstring" where
  "deletedTokenLabel tokenID ctx =
     (if tokenID \<le> 0 then js ''Unknown Token''
      else case ctx of Some f \<Rightarrow> f tokenID | None \<Rightarrow> js ''token-'' @ int_str tokenID)"

definition tokenNode :: "flow_row \<Rightarrow> flow_path_context \<Rightarrow> flow_path_node" where
  "tokenNode row ctx =
     (let tokenID = numberValue (row_token_id row) in
      \<lparr>pn_id = (if tokenID > 0 then js ''token:'' @ int_str tokenID
                else js ''token:'' @ str_or (row_token_name row) (js ''unknown'')),
       pn_label = str_or (row_token_name row) (deletedTokenLabel tokenID ctx),
       pn_kind = Kind_token\<rparr>)"

definition groupNode :: "flow_row \<Rightarrow> flow_path_node" where
  "groupNode row =
     (let useGroup = str_or (row_use_group row) (js ''unknown'') in
      \<lparr>pn_id = js ''group:'' @ useGroup, pn_label = useGroup, pn_kind = Kind_group\<rparr>)"

definition modelNode :: "flow_row \<Rightarrow> flow_path_node" where
  "modelNode row =
     (let model = str_or (row_model_name row) (js ''unknown'') in
      \<lparr>pn_id = js ''model:'' @ model, pn_label = str_or (row_model_name row) (js ''Unknown Model''),
       pn_kind = Kind_model\<rparr>)"

definition channelNode :: "flow_row \<Rightarrow> flow_path_node" where
  "channelNode row =
     (let channelID = numberValue (row_channel_id row) in
      \<lparr>pn_id = (if channelID > 0 then js ''channel:'' @ int_str channelID
                else js ''channel:'' @ str_or (row_channel_name row) (js ''unknown'')),
       pn_label = str_or (row_channel_name row)
         (if channelID > 0 then js ''channel-'' @ int_str channelID else js ''Unknown''),
       pn_kind = Kind_channel\<rparr>)"

fun NODE_BUILDERS :: "flow_node_kind \<Rightarrow> flow_row \<Rightarrow> flow_path_context \<Rightarrow> flow_path_node" where
  "NODE_BUILDERS Kind_user row ctx = userNode row"
| "NODE_BUILDERS Kind_node row ctx = nodeNameNode row"
| "NODE_BUILDERS Kind_token row ctx = tokenNode row ctx"
| "NODE_BUILDERS Kind_group row ctx = groupNode row"
| "NODE_BUILDERS Kind_model row ctx = modelNode row"
| "NODE_BUILDERS Kind_channel row ctx = channelNode row"

fun ROLE_FLOW_STAGES :: "flow_role \<Rightarrow> flow_node_kind list" where
  "ROLE_FLOW_STAGES Role_root = [Kind_user, Kind_node, Kind_token, Kind_group, Kind_model, Kind_channel]"
| "ROLE_FLOW_STAGES Role_admin = [Kind_user, Kind_group, Kind_model, Kind_channel]"
| "ROLE_FLOW_STAGES Role_user = [Kind_token, Kind_group, Kind_model]"

definition getFlowStages :: "flow_role \<Rightarrow> flow_node_kind list" where
  "getFlowStages role = ROLE_FLOW_STAGES role"

definition resolveVisibleStages :: "flow_role \<Rightarrow> flow_node_kind list option \<Rightarrow> flow_node_kind list" where
  "resolveVisibleStages role visibleStages =
     (let stages = getFlowStages role in
      case visibleStages of
        None \<Rightarrow> stages
      | Some visible \<Rightarrow>
          let filtered = filter (\<lambda>stage. stage \<in> set visible) stages in
          if length filtered \<ge> MIN_FLOW_STAGES then filtered else stages)"

definition flowPathForStages ::
  "flow_row \<Rightarrow> flow_node_kind list \<Rightarrow> flow_path_context \<Rightarrow> flow_path_node list" where
  "flowPathForStages row stages ctx = map (\<lambda>stage. NODE_BUILDERS stage row ctx) stages"

section \<open>Colours\<close>

definition getDashboardChartColors :: "flow_host \<Rightarrow> nat \<Rightarrow> jstring list" where
  "getDashboardChartColors h domainLength =
     (let scheme = (case find (\<lambda>(maxLength, _). case maxLength of None \<Rightarrow> True | Some n \<Rightarrow> n = 0 \<or> domainLength \<le> n)
                          (data_scheme h) of
                      Some item \<Rightarrow> item
                    | None \<Rightarrow> last (data_scheme h)) in
      List.map_filter (\<lambda>color. color) (snd scheme))"

definition colorAt :: "flow_host \<Rightarrow> nat \<Rightarrow> jstring list option \<Rightarrow> jstring" where
  "colorAt h index palette =
     (let colors = (case palette of Some (c # cs) \<Rightarrow> c # cs | _ \<Rightarrow> getDashboardChartColors h (index + 1)) in
      if length colors = 0 then DEFAULT_FLOW_CHART_COLOR else colors ! (index mod length colors))"

definition colorPalette :: "flow_host \<Rightarrow> nat \<Rightarrow> jstring list option \<Rightarrow> jstring list" where
  "colorPalette h colorCount palette =
     (case palette of
        Some (c # cs) \<Rightarrow> c # cs
      | _ \<Rightarrow>
          let colors = getDashboardChartColors h colorCount in
          if length colors > 0 then colors else [DEFAULT_FLOW_CHART_COLOR])"

text \<open>\<open>/^[0-9a-f]{6}$/i\<close>, \<open>Number.parseInt(hex, 16)\<close> on such a string, and \<open>toFixed(2)\<close>.
  Opacities are exact fractions here and the rounding is that of the exact value, where the source has
  doubles; only the second decimal of an opacity can differ.\<close>

definition is_hex6 :: "jstring \<Rightarrow> bool" where
  "is_hex6 s \<longleftrightarrow> length s = 6 \<and> list_all (\<lambda>c. hex_digit c \<noteq> None) s"

definition parse_hex :: "jstring \<Rightarrow> nat" where
  "parse_hex s = foldl (\<lambda>a c. a * 16 + (case hex_digit c of Some d \<Rightarrow> d | None \<Rightarrow> 0)) 0 s"

definition toFixed2 :: "rat \<Rightarrow> jstring" where
  "toFixed2 x =
     (let n = nat \<lfloor>x * 100 + 1 / 2\<rfloor> in
      nat_str (n div 100) @ js ''.'' @ nat_str (n mod 100 div 10) @ nat_str (n mod 10))"

definition alphaColor :: "jstring \<Rightarrow> rat \<Rightarrow> jstring \<times> rat" where
  "alphaColor color alpha =
     (let normalized = trim color;
          hex = (if startsWith normalized (js ''#'') then drop 1 normalized else normalized) in
      if \<not> is_hex6 hex then (normalized, alpha)
      else
        let v = parse_hex hex; red = v div 65536 mod 256; green = v div 256 mod 256; blue = v mod 256 in
        (js ''rgba('' @ nat_str red @ js '', '' @ nat_str green @ js '', '' @ nat_str blue @ js '', '' @
           toFixed2 alpha @ js '')'', 1))"

definition stableColorMap :: "flow_host \<Rightarrow> jstring list \<Rightarrow> jstring list option \<Rightarrow> (jstring \<times> jstring) list" where
  "stableColorMap h keys palette =
     (let uniqueKeys = js_Set keys; colors = colorPalette h (length uniqueKeys) palette in
      map (\<lambda>(index, key). (key, colorAt h index (Some colors))) (enumerate 0 uniqueKeys))"

text \<open>\<open>colors.get(key) ?? colorAt(0, palette)\<close>.\<close>

definition color_of :: "flow_host \<Rightarrow> jstring list option \<Rightarrow> (jstring \<times> jstring) list \<Rightarrow> jstring \<Rightarrow> jstring" where
  "color_of h palette colors key = (case map_of colors key of Some c \<Rightarrow> c | None \<Rightarrow> colorAt h 0 palette)"

section \<open>Filters\<close>

definition filterRows :: "jstring list option \<Rightarrow> flow_row list \<Rightarrow> flow_row list" where
  "filterRows users rows =
     (let selectedUsers = js_Set (case users of Some us \<Rightarrow> us | None \<Rightarrow> []) in
      if selectedUsers = [] then rows
      else filter (\<lambda>row. pn_id (userNode row) \<in> set selectedUsers) rows)"

definition nodeFilterKey :: "flow_node_filter \<Rightarrow> jstring" where
  "nodeFilterKey f = kind_text (nf_kind f) @ [0] @ nf_id f"

definition normalizeSelectedNodeFilters ::
  "flow_node_filter list option \<Rightarrow> flow_node_kind list \<Rightarrow> (flow_node_kind \<times> jstring list) list" where
  "normalizeSelectedNodeFilters selectedNodes stages =
     foldl (\<lambda>filters f.
         if nf_kind f \<notin> set stages then filters
         else tally nf_kind (\<lambda>_. []) (\<lambda>f ids. set_add ids (nf_id f)) filters f)
       [] (case selectedNodes of Some fs \<Rightarrow> fs | None \<Rightarrow> [])"

definition pathMatchesNodeFilters ::
  "flow_path_node list \<Rightarrow> (flow_node_kind \<times> jstring list) list \<Rightarrow> bool" where
  "pathMatchesNodeFilters path filters =
     (if filters = [] then True
      else
        let pathNodesByKind = foldl (tally pn_kind (\<lambda>_. []) (\<lambda>node ids. set_add ids (pn_id node))) [] path in
        list_all (\<lambda>(kind, selectedIds).
            case map_of pathNodesByKind kind of
              None \<Rightarrow> False
            | Some pathIds \<Rightarrow> list_ex (\<lambda>id. id \<in> set pathIds) selectedIds)
          filters)"

definition filterRowsByNodes ::
  "flow_row list \<Rightarrow> flow_node_filter list option \<Rightarrow> flow_node_kind list \<Rightarrow> flow_path_context \<Rightarrow> flow_row list" where
  "filterRowsByNodes rows selectedNodes stages ctx =
     (let filters = normalizeSelectedNodeFilters selectedNodes stages in
      if filters = [] then rows
      else filter (\<lambda>row. pathMatchesNodeFilters (flowPathForStages row stages ctx) filters) rows)"

definition selectedNodeFiltersExceptKind ::
  "flow_node_filter list option \<Rightarrow> flow_node_kind \<Rightarrow> flow_node_filter list option" where
  "selectedNodeFiltersExceptKind selectedNodes kind =
     (let filtered = filter (\<lambda>f. nf_kind f \<noteq> kind) (case selectedNodes of Some fs \<Rightarrow> fs | None \<Rightarrow> []) in
      if length filtered > 0 then Some filtered else None)"

section \<open>Adding up\<close>

text \<open>What one path contributes to a node or a link.\<close>

record flow_contribution =
  c_metrics :: flow_metrics
  c_metric :: flow_metric
  c_color :: jstring
  c_colorKey :: jstring

definition node_init :: "flow_path_node \<times> flow_contribution \<Rightarrow> flow_node" where
  "node_init r =
     (case r of (pathNode, c) \<Rightarrow>
        \<lparr>fn_id = pn_id pathNode, fn_label = pn_label pathNode, fn_kind = pn_kind pathNode,
         fn_value = 0, fn_requests = 0, fn_quota = 0, fn_tokens = 0,
         fn_color = c_color c, fn_colorKey = c_colorKey c, fn_highlighted = None, fn_dimmed = None\<rparr>)"

definition node_add :: "flow_path_node \<times> flow_contribution \<Rightarrow> flow_node \<Rightarrow> flow_node" where
  "node_add r n =
     (case r of (_, c) \<Rightarrow>
        n\<lparr>fn_value := fn_value n + metricValue (c_metrics c) (c_metric c),
          fn_requests := fn_requests n + m_requests (c_metrics c),
          fn_quota := fn_quota n + m_quota (c_metrics c),
          fn_tokens := fn_tokens n + m_tokens (c_metrics c)\<rparr>)"

definition addNode ::
  "(jstring \<times> flow_node) list \<Rightarrow> flow_path_node \<times> flow_contribution \<Rightarrow> (jstring \<times> flow_node) list" where
  "addNode = tally (\<lambda>r. pn_id (fst r)) node_init node_add"

definition pathLinkKey :: "flow_path_node \<Rightarrow> flow_path_node \<Rightarrow> jstring" where
  "pathLinkKey source target = pn_id source @ [0] @ pn_id target"

definition link_init :: "(flow_path_node \<times> flow_path_node) \<times> flow_contribution \<Rightarrow> flow_link" where
  "link_init r =
     (case r of ((source, target), c) \<Rightarrow>
        \<lparr>fl_source = pn_id source, fl_target = pn_id target,
         fl_value = 0, fl_requests = 0, fl_quota = 0, fl_tokens = 0,
         fl_sourceLabel = pn_label source, fl_targetLabel = pn_label target,
         fl_color = c_color c, fl_linkColor = c_color c, fl_linkAlpha = 1, fl_hoverColor = c_color c,
         fl_colorKey = c_colorKey c, fl_share = 0, fl_highlighted = None, fl_dimmed = None\<rparr>)"

definition link_add :: "(flow_path_node \<times> flow_path_node) \<times> flow_contribution \<Rightarrow> flow_link \<Rightarrow> flow_link" where
  "link_add r l =
     (case r of (_, c) \<Rightarrow>
        l\<lparr>fl_value := fl_value l + metricValue (c_metrics c) (c_metric c),
          fl_requests := fl_requests l + m_requests (c_metrics c),
          fl_quota := fl_quota l + m_quota (c_metrics c),
          fl_tokens := fl_tokens l + m_tokens (c_metrics c)\<rparr>)"

definition addLink ::
  "(jstring \<times> flow_link) list \<Rightarrow> (flow_path_node \<times> flow_path_node) \<times> flow_contribution \<Rightarrow>
   (jstring \<times> flow_link) list" where
  "addLink = tally (\<lambda>r. pathLinkKey (fst (fst r)) (snd (fst r))) link_init link_add"

definition buildSummary :: "flow_row list \<Rightarrow> flow_metrics" where
  "buildSummary rows =
     foldl (\<lambda>summary row.
         let metrics = rowMetrics row in
         \<lparr>m_quota = m_quota summary + m_quota metrics, m_tokens = m_tokens summary + m_tokens metrics,
          m_requests = m_requests summary + m_requests metrics\<rparr>)
       \<lparr>m_quota = 0, m_tokens = 0, m_requests = 0\<rparr> rows"

section \<open>Order\<close>

text \<open>\<open>a || b\<close> on the results of comparisons.\<close>

definition then_cmp :: "int \<Rightarrow> int \<Rightarrow> int" where
  "then_cmp a b = (if a \<noteq> 0 then a else b)"

definition linkStableKey :: "flow_link \<Rightarrow> jstring" where
  "linkStableKey link = fl_source link @ [0] @ fl_target link"

definition byValueThenLabel :: "flow_host \<Rightarrow> flow_node \<Rightarrow> flow_node \<Rightarrow> int" where
  "byValueThenLabel h a b = then_cmp (fn_value b - fn_value a) (localeCompare h (fn_label a) (fn_label b))"

text \<open>\<open>Number(flag)\<close> of an optional flag is a number for a boolean and \<open>NaN\<close> for
  \<open>undefined\<close>; a comparison that is \<open>NaN\<close> falls through to the next one.\<close>

definition flag_cmp :: "bool option \<Rightarrow> bool option \<Rightarrow> int" where
  "flag_cmp a b = (case (a, b) of (Some x, Some y) \<Rightarrow> of_bool x - of_bool y | _ \<Rightarrow> 0)"

definition byLinkDrawPriority :: "flow_host \<Rightarrow> flow_link \<Rightarrow> flow_link \<Rightarrow> int" where
  "byLinkDrawPriority h a b =
     then_cmp (flag_cmp (fl_dimmed a) (fl_dimmed b))
       (then_cmp (flag_cmp (fl_highlighted b) (fl_highlighted a))
         (then_cmp (fl_value b - fl_value a) (localeCompare h (linkStableKey a) (linkStableKey b))))"

text \<open>
  The links are grouped by their source; \<open>i\<close> is the position of a link object in the list, so
  that the colours computed in a group are written to the same object.
\<close>

definition display_cmp :: "flow_host \<Rightarrow> nat \<times> flow_link \<Rightarrow> nat \<times> flow_link \<Rightarrow> int" where
  "display_cmp h a b =
     then_cmp (fl_value (snd b) - fl_value (snd a))
       (localeCompare h (linkStableKey (snd a)) (linkStableKey (snd b)))"

definition display_alpha :: "nat \<Rightarrow> nat \<Rightarrow> rat" where
  "display_alpha n index =
     (if n = 1 then 34 / 100 else 24 / 100 + (of_nat index / of_nat (max (n - 1) 1)) * (2 / 10))"

definition display_colors :: "flow_host \<Rightarrow> flow_link list \<Rightarrow> (nat \<times> (jstring \<times> rat)) list" where
  "display_colors h links =
     (let linksBySource = foldl (tally (\<lambda>p. fl_source (snd p)) (\<lambda>_. []) (\<lambda>p sourceLinks. sourceLinks @ [p]))
            [] (enumerate 0 links) in
      concat (map (\<lambda>(_, sourceLinks).
          let sortedLinks = js_sort (display_cmp h) sourceLinks in
          map (\<lambda>(index, (i, link)). (i, alphaColor (fl_color link) (display_alpha (length sortedLinks) index)))
            (enumerate 0 sortedLinks))
        linksBySource))"

definition assignLinkDisplayColors :: "flow_host \<Rightarrow> flow_link list \<Rightarrow> flow_link list" where
  "assignLinkDisplayColors h links =
     map (\<lambda>(i, link).
         case map_of (display_colors h links) i of
           None \<Rightarrow> link
         | Some (color, alpha) \<Rightarrow>
             link\<lparr>fl_linkColor := color, fl_linkAlpha := alpha, fl_hoverColor := fl_color link\<rparr>)
       (enumerate 0 links)"

section \<open>The limit on the nodes of a stage\<close>

definition normalizeTopNodeLimit :: "rat option \<Rightarrow> nat option" where
  "normalizeTopNodeLimit limit =
     (case limit of
        None \<Rightarrow> None
      | Some l \<Rightarrow> let parsed = \<lfloor>l\<rfloor> in if parsed > 0 then Some (nat parsed) else None)"

definition otherFlowNode :: "flow_node_kind \<Rightarrow> (flow_node_kind \<Rightarrow> jstring) option \<Rightarrow> flow_path_node" where
  "otherFlowNode kind labeler =
     \<lparr>pn_id = OTHER_FLOW_NODE_IDS kind,
      pn_label = (case labeler of Some f \<Rightarrow> f kind | None \<Rightarrow> DEFAULT_OTHER_FLOW_NODE_LABELS kind),
      pn_kind = kind\<rparr>"

type_synonym stage_totals = "(jstring \<times> flow_node_rank) list"

definition rank_step :: "int \<Rightarrow> (flow_node_kind \<times> stage_totals) list \<Rightarrow> flow_path_node \<Rightarrow> (flow_node_kind \<times> stage_totals) list" where
  "rank_step v totals node =
     (case map_of totals (pn_kind node) of
        None \<Rightarrow> totals
      | Some stageTotals \<Rightarrow>
          AList.update (pn_kind node)
            (tally pn_id (\<lambda>n. \<lparr>rank_node = n, rank_value = 0\<rparr>)
              (\<lambda>_ current. current\<lparr>rank_value := rank_value current + v\<rparr>) stageTotals node)
            totals)"

definition rank_cmp :: "flow_host \<Rightarrow> flow_node_rank \<Rightarrow> flow_node_rank \<Rightarrow> int" where
  "rank_cmp h a b =
     then_cmp (rank_value b - rank_value a)
       (then_cmp (localeCompare h (pn_label (rank_node a)) (pn_label (rank_node b)))
         (localeCompare h (pn_id (rank_node a)) (pn_id (rank_node b))))"

definition buildTopNodeSets ::
  "flow_host \<Rightarrow> flow_row list \<Rightarrow> flow_metric \<Rightarrow> flow_node_kind list \<Rightarrow> nat option \<Rightarrow> flow_path_context \<Rightarrow>
   (flow_node_kind \<times> jstring list) list option" where
  "buildTopNodeSets h rows metric stages limit ctx =
     (case limit of
        None \<Rightarrow> None
      | Some l \<Rightarrow>
          if l = 0 then None
          else
            let totals = foldl (\<lambda>totals row.
                    foldl (rank_step (metricValue (rowMetrics row) metric)) totals (flowPathForStages row stages ctx))
                  (foldl (\<lambda>m stage. AList.update stage [] m) [] stages) rows in
            Some (map (\<lambda>(kind, stageTotals).
                (kind, js_Set (map (\<lambda>r. pn_id (rank_node r)) (take l (js_sort (rank_cmp h) (map snd stageTotals))))))
              totals))"

definition isTopFlowNode :: "flow_path_node \<Rightarrow> (flow_node_kind \<times> jstring list) list option \<Rightarrow> bool" where
  "isTopFlowNode node topNodeSets =
     (case topNodeSets of
        None \<Rightarrow> True
      | Some sets \<Rightarrow> (case map_of sets (pn_kind node) of None \<Rightarrow> True | Some topNodes \<Rightarrow> pn_id node \<in> set topNodes))"

definition applyTopNodeLimit ::
  "flow_path_node list \<Rightarrow> (flow_node_kind \<times> jstring list) list option \<Rightarrow> flow_overflow_mode \<Rightarrow>
   (flow_node_kind \<Rightarrow> jstring) option \<Rightarrow> flow_path_node list option" where
  "applyTopNodeLimit path topNodeSets mode labeler =
     (if topNodeSets = None then Some path
      else if \<not> list_ex (\<lambda>node. \<not> isTopFlowNode node topNodeSets) path then Some path
      else if mode = Hide then None
      else Some (map (\<lambda>node. if isTopFlowNode node topNodeSets then node else otherFlowNode (pn_kind node) labeler) path))"

section \<open>Highlighting and masking\<close>

definition pathContainsFlowNode :: "flow_path_node list \<Rightarrow> flow_node_filter \<Rightarrow> bool" where
  "pathContainsFlowNode path f \<longleftrightarrow> list_ex (\<lambda>node. pn_kind node = nf_kind f \<and> pn_id node = nf_id f) path"

text \<open>The pairs \<open>path[i], path[i + 1]\<close> of the loops over a path.\<close>

definition path_links :: "'a list \<Rightarrow> ('a \<times> 'a) list" where
  "path_links path = zip path (tl path)"

definition pathContainsFlowLink :: "flow_path_node list \<Rightarrow> flow_link_selection \<Rightarrow> bool" where
  "pathContainsFlowLink path link \<longleftrightarrow>
     list_ex (\<lambda>(s, t). pn_id s = ls_source link \<and> pn_id t = ls_target link) (path_links path)"

definition buildFlowHighlightSets ::
  "prepared_path list \<Rightarrow> flow_node_filter option \<Rightarrow> flow_link_selection option \<Rightarrow> flow_node_kind list \<Rightarrow>
   (jstring list \<times> jstring list) option" where
  "buildFlowHighlightSets preparedPaths activeNode activeLink stages =
     (let nodeActive = (case activeNode of Some f \<Rightarrow> nf_kind f \<in> set stages | None \<Rightarrow> False) in
      if \<not> nodeActive \<and> activeLink = None then None
      else
        let matchesPath = (\<lambda>path.
              case activeLink of
                Some l \<Rightarrow> pathContainsFlowLink path l
              | None \<Rightarrow> (case activeNode of Some f \<Rightarrow> pathContainsFlowNode path f | None \<Rightarrow> False));
            matching = filter matchesPath (map pp_path preparedPaths);
            highlightedNodes = js_Set (concat (map (map pn_id) matching));
            highlightedLinks = js_Set (concat (map (\<lambda>path. map (\<lambda>(s, t). pathLinkKey s t) (path_links path)) matching)) in
        if highlightedNodes = [] then None else Some (highlightedNodes, highlightedLinks))"

definition maskFlowLabel :: "jstring \<Rightarrow> jstring" where
  "maskFlowLabel label = (if length label = 0 then label else FLOW_MASK_TEXT)"

definition masks :: "flow_node \<Rightarrow> bool" where
  "masks node \<longleftrightarrow> fn_kind node \<in> set SENSITIVE_FLOW_KINDS \<and> fn_id node \<notin> set OTHER_FLOW_NODE_ID_SET"

definition maskFlowGraphLabels ::
  "(jstring \<times> flow_node) list \<Rightarrow> (jstring \<times> flow_link) list \<Rightarrow>
   (jstring \<times> flow_node) list \<times> (jstring \<times> flow_link) list" where
  "maskFlowGraphLabels nodes links =
     (let nodes' = map (\<lambda>(k, node). (k, if masks node then node\<lparr>fn_label := maskFlowLabel (fn_label node)\<rparr> else node)) nodes;
          maskedById = foldl (\<lambda>m node. AList.update (fn_id node) (maskFlowLabel (fn_label node)) m) []
            (filter masks (map snd nodes)) in
      if maskedById = [] then (nodes', links)
      else
        (nodes',
         map (\<lambda>(k, link).
             let link1 = (case map_of maskedById (fl_source link) of Some m \<Rightarrow> link\<lparr>fl_sourceLabel := m\<rparr> | None \<Rightarrow> link) in
             (k, case map_of maskedById (fl_target link1) of Some m \<Rightarrow> link1\<lparr>fl_targetLabel := m\<rparr> | None \<Rightarrow> link1))
           links))"

definition applyFlowHighlights ::
  "(jstring \<times> flow_node) list \<Rightarrow> (jstring \<times> flow_link) list \<Rightarrow> (jstring list \<times> jstring list) option \<Rightarrow>
   (jstring \<times> flow_node) list \<times> (jstring \<times> flow_link) list" where
  "applyFlowHighlights nodes links highlightSets =
     (case highlightSets of
        None \<Rightarrow> (nodes, links)
      | Some (hn, hl) \<Rightarrow>
          (map (\<lambda>(k, node).
              let highlighted = fn_id node \<in> set hn in
              (k, node\<lparr>fn_highlighted := Some highlighted, fn_dimmed := Some (\<not> highlighted)\<rparr>)) nodes,
           map (\<lambda>(k, link).
              let highlighted = linkStableKey link \<in> set hl in
              (k, link\<lparr>fl_highlighted := Some highlighted, fl_dimmed := Some (\<not> highlighted)\<rparr>)) links))"

section \<open>The graph\<close>

definition preparePaths ::
  "flow_host \<Rightarrow> flow_row list \<Rightarrow> flow_metric \<Rightarrow> flow_node_kind list \<Rightarrow> flow_path_context \<Rightarrow> flow_graph_options \<Rightarrow>
   prepared_path list" where
  "preparePaths h rows metric stages ctx options =
     (let topNodeSets = buildTopNodeSets h rows metric stages (normalizeTopNodeLimit (opt_topNodeLimit options)) ctx;
          overflowMode = (case opt_overflowMode options of Some m \<Rightarrow> m | None \<Rightarrow> DEFAULT_FLOW_OVERFLOW_MODE) in
      List.map_filter (\<lambda>row.
          map_option (\<lambda>path. \<lparr>pp_path = path, pp_metrics = rowMetrics row\<rparr>)
            (applyTopNodeLimit (flowPathForStages row stages ctx) topNodeSets overflowMode (opt_otherNodeLabel options)))
        rows)"

text \<open>The ids of the first nodes of the paths; an empty id would be dropped by \<open>Boolean\<close>.\<close>

definition first_ids :: "prepared_path list \<Rightarrow> jstring list" where
  "first_ids paths =
     filter (\<lambda>id. id \<noteq> []) (List.map_filter (\<lambda>p. case pp_path p of [] \<Rightarrow> None | n # _ \<Rightarrow> Some (pn_id n)) paths)"

definition add_path ::
  "flow_host \<Rightarrow> flow_metric \<Rightarrow> jstring list option \<Rightarrow> (jstring \<times> jstring) list \<Rightarrow>
   (jstring \<times> flow_node) list \<times> (jstring \<times> flow_link) list \<Rightarrow> prepared_path \<Rightarrow>
   (jstring \<times> flow_node) list \<times> (jstring \<times> flow_link) list" where
  "add_path h metric palette colors maps p =
     (case pp_path p of
        [] \<Rightarrow> maps
      | root1 # _ \<Rightarrow>
          let c = \<lparr>c_metrics = pp_metrics p, c_metric = metric, c_color = color_of h palette colors (pn_id root1),
                   c_colorKey = pn_id root1\<rparr> in
          (foldl addNode (fst maps) (map (\<lambda>n. (n, c)) (pp_path p)),
           foldl addLink (snd maps) (map (\<lambda>l. (l, c)) (path_links (pp_path p)))))"

definition link_cmp :: "flow_host \<Rightarrow> flow_link \<Rightarrow> flow_link \<Rightarrow> int" where
  "link_cmp h a b = then_cmp (localeCompare h (fl_source a) (fl_source b)) (localeCompare h (fl_target a) (fl_target b))"

definition assign_shares :: "jstring list \<Rightarrow> flow_link list \<Rightarrow> flow_link list" where
  "assign_shares firstStepSources flowLinks =
     (let total = foldl (\<lambda>sum link. sum + fl_value link) 0 (filter (\<lambda>link. fl_source link \<in> set firstStepSources) flowLinks) in
      map (\<lambda>link. link\<lparr>fl_share := (if total > 0 then of_int (fl_value link) / of_int total else 0)\<rparr>) flowLinks)"

definition buildFlowGraph ::
  "flow_host \<Rightarrow> flow_row list \<Rightarrow> flow_metric \<Rightarrow> flow_role \<Rightarrow> jstring list option \<Rightarrow> flow_node_kind list option \<Rightarrow>
   flow_path_context \<Rightarrow> flow_graph_options \<Rightarrow> flow_graph" where
  "buildFlowGraph h rows metric role palette visibleStages ctx options =
     (let stages = resolveVisibleStages role visibleStages;
          preparedPaths = preparePaths h rows metric stages ctx options;
          colors = stableColorMap h (js_sort (localeCompare h) (first_ids preparedPaths)) palette;
          (nodes, links) = foldl (add_path h metric palette colors) ([], []) preparedPaths;
          (nodes, links) = (if opt_maskSensitive options then maskFlowGraphLabels nodes links else (nodes, links));
          (nodes, links) = applyFlowHighlights nodes links
            (buildFlowHighlightSets preparedPaths (opt_activeNode options) (opt_activeLink options) stages);
          flowLinks = assign_shares (js_Set (first_ids preparedPaths)) (js_sort (link_cmp h) (map snd links)) in
      \<lparr>g_nodes = js_sort (byValueThenLabel h) (map snd nodes),
       g_links = assignLinkDisplayColors h flowLinks\<rparr>)"

section \<open>Filter options\<close>

definition buildUserFilterOptions ::
  "flow_host \<Rightarrow> flow_row list \<Rightarrow> flow_metric \<Rightarrow> jstring list option \<Rightarrow> flow_user_option list" where
  "buildUserFilterOptions h rows metric palette =
     (let colors = stableColorMap h (js_sort (localeCompare h) (map (\<lambda>row. pn_id (userNode row)) rows)) palette;
          users = foldl (tally (\<lambda>row. pn_id (userNode row))
              (\<lambda>row. (pn_label (userNode row), 0, color_of h palette colors (pn_id (userNode row))))
              (\<lambda>row (label, v, color). (label, v + metricValue (rowMetrics row) metric, color)))
            [] (filter (\<lambda>row. \<not> ((row_user_id row = None \<or> row_user_id row = Some 0) \<and>
                                  (row_username row = None \<or> row_username row = Some []))) rows) in
      js_sort (\<lambda>a b. then_cmp (uo_valueRaw b - uo_valueRaw a) (localeCompare h (uo_label a) (uo_label b)))
        (map (\<lambda>(k, (label, v, color)).
            \<lparr>uo_value = k, uo_label = label, uo_valueLabel = number_format h v, uo_valueRaw = v, uo_color = color\<rparr>)
          users))"

text \<open>\<open>stageOrder.get(kind) ?? 0\<close>.\<close>

definition stage_order :: "flow_node_kind list \<Rightarrow> flow_node_kind \<Rightarrow> int" where
  "stage_order stages kind =
     (case map_of (map (\<lambda>(i, s). (s, int i)) (enumerate 0 stages)) kind of Some i \<Rightarrow> i | None \<Rightarrow> 0)"

definition stage_option_totals ::
  "flow_row list \<Rightarrow> flow_metric \<Rightarrow> flow_node_kind \<Rightarrow> flow_path_context \<Rightarrow> (jstring \<times> flow_node_rank) list" where
  "stage_option_totals rows metric stage ctx =
     foldl (tally (\<lambda>row. let node = NODE_BUILDERS stage row ctx in nodeFilterKey \<lparr>nf_kind = pn_kind node, nf_id = pn_id node\<rparr>)
         (\<lambda>row. \<lparr>rank_node = NODE_BUILDERS stage row ctx, rank_value = 0\<rparr>)
         (\<lambda>row current. current\<lparr>rank_value := rank_value current + metricValue (rowMetrics row) metric\<rparr>))
       [] rows"

definition option_cmp :: "flow_host \<Rightarrow> flow_node_kind list \<Rightarrow> flow_node_option \<Rightarrow> flow_node_option \<Rightarrow> int" where
  "option_cmp h stages a b =
     then_cmp (stage_order stages (no_kind a) - stage_order stages (no_kind b))
       (then_cmp (no_valueRaw b - no_valueRaw a)
         (then_cmp (localeCompare h (no_label a) (no_label b)) (localeCompare h (no_value a) (no_value b))))"

definition buildNodeFilterOptions ::
  "flow_host \<Rightarrow> flow_row list \<Rightarrow> flow_metric \<Rightarrow> flow_role \<Rightarrow> flow_node_kind list option \<Rightarrow> jstring list option \<Rightarrow>
   flow_path_context \<Rightarrow> flow_node_filter list option \<Rightarrow> flow_node_option list" where
  "buildNodeFilterOptions h rows metric role visibleStages palette ctx selectedNodes =
     (let stages = resolveVisibleStages role visibleStages;
          colorIds = js_Set (concat (map (\<lambda>row. map pn_id (flowPathForStages row stages ctx)) rows));
          colors = stableColorMap h (js_sort (localeCompare h) colorIds) palette;
          options = concat (map (\<lambda>stage.
            let candidateRows = filterRowsByNodes rows (selectedNodeFiltersExceptKind selectedNodes stage) stages ctx in
            map (\<lambda>(_, rank).
                \<lparr>no_kind = pn_kind (rank_node rank), no_value = pn_id (rank_node rank), no_label = pn_label (rank_node rank),
                 no_valueLabel = number_format h (rank_value rank), no_valueRaw = rank_value rank,
                 no_color = color_of h palette colors (pn_id (rank_node rank))\<rparr>)
              (stage_option_totals candidateRows metric stage ctx))
            stages) in
      js_sort (option_cmp h stages) options)"

definition buildFlowFilterOptions ::
  "flow_host \<Rightarrow> flow_row list \<Rightarrow> flow_metric \<Rightarrow> jstring list option \<Rightarrow> flow_role \<Rightarrow> flow_node_kind list option \<Rightarrow>
   flow_node_filter list option \<Rightarrow> flow_filter_options" where
  "buildFlowFilterOptions h rows metric palette role visibleStages selectedNodes =
     \<lparr>fo_users = buildUserFilterOptions h rows metric palette,
      fo_nodes = buildNodeFilterOptions h rows metric role visibleStages palette None selectedNodes\<rparr>"

definition buildDashboardFlowData ::
  "flow_host \<Rightarrow> flow_row list \<Rightarrow> flow_metric \<Rightarrow> flow_build_options \<Rightarrow> processed_flow_data" where
  "buildDashboardFlowData h rows metric options =
     (let role = (case bo_role options of Some r \<Rightarrow> r | None \<Rightarrow> DEFAULT_FLOW_ROLE);
          palette = bo_colorPalette options;
          ctx = bo_deletedTokenLabel options;
          stages = resolveVisibleStages role (bo_visibleStages options);
          userFilteredRows = filterRows (bo_selectedUsers options) rows;
          filteredRows = filterRowsByNodes userFilteredRows (bo_selectedNodes options) stages ctx in
      \<lparr>pf_summary = buildSummary filteredRows,
       pf_flow = buildFlowGraph h filteredRows metric role palette (bo_visibleStages options) ctx (bo_graph options),
       pf_filterOptions =
         \<lparr>fo_users = buildUserFilterOptions h rows metric palette,
          fo_nodes = buildNodeFilterOptions h userFilteredRows metric role (bo_visibleStages options) palette ctx
            (bo_selectedNodes options)\<rparr>\<rparr>)"

section \<open>The links as drawn\<close>

text \<open>The links of the specification of the chart, with the z-index of each.\<close>

definition link_zIndex :: "nat \<Rightarrow> flow_link \<Rightarrow> nat" where
  "link_zIndex index link =
     (if fl_highlighted link = Some True then 1000000 + index
      else if fl_dimmed link = Some True then index
      else 100000 + index)"

definition sankey_links :: "flow_host \<Rightarrow> flow_graph \<Rightarrow> (flow_link \<times> nat) list" where
  "sankey_links h flow =
     map (\<lambda>(index, link). (link, link_zIndex index link))
       (enumerate 0 (js_sort (byLinkDrawPriority h) (filter (\<lambda>link. fl_value link > 0) (g_links flow))))"

section \<open>The page around the diagram\<close>

datatype flow_display_state = Display_loading | Display_error | Display_empty | Display_chart

text \<open>\<open>Inl\<close> is the error thrown for an answer without success.\<close>

definition requireSuccessfulFlowRows ::
  "bool \<Rightarrow> flow_row list option \<Rightarrow> jstring option \<Rightarrow> jstring \<Rightarrow> jstring + flow_row list" where
  "requireSuccessfulFlowRows success data msg fallbackMessage =
     (if \<not> success then Inl (str_or msg fallbackMessage)
      else Inr (case data of Some rows \<Rightarrow> rows | None \<Rightarrow> []))"

definition flowDisplayState :: "bool \<Rightarrow> bool \<Rightarrow> nat \<Rightarrow> bool \<Rightarrow> flow_display_state" where
  "flowDisplayState isLoading isError linkCount themeReady =
     (if isLoading then Display_loading
      else if isError then Display_error
      else if linkCount = 0 then Display_empty
      else if \<not> themeReady then Display_loading
      else Display_chart)"

definition compactFlowSelectionLabel :: "nat \<Rightarrow> jstring" where
  "compactFlowSelectionLabel n = (if n > 0 then nat_str n else js ''*'')"

definition visibleFlowUsers :: "flow_user_option list \<Rightarrow> jstring list \<Rightarrow> flow_user_option list" where
  "visibleFlowUsers users selectedUsers =
     (if length selectedUsers = 0 then users
      else filter (\<lambda>user. uo_value user \<in> set selectedUsers) users)"

end
