(* ===== verification/Flow_Graph.thy ===== *)
theory Flow_Graph
  imports Flow
begin

text \<open>
  What the diagram of the dashboard shows. The maps that \<open>buildFlowGraph\<close> fills are related to
  sums over the paths of the rows (\<open>path_sum\<close>), which is the abstract description of the
  diagram: the quantities of nodes and links, conservation along the columns, totals of the
  columns and the limit on nodes.
\<close>

section \<open>The maps of nodes and links\<close>

definition contribution :: "flow_host \<Rightarrow> flow_metric \<Rightarrow> jstring list option \<Rightarrow> (jstring \<times> jstring) list \<Rightarrow>
    prepared_path \<Rightarrow> flow_contribution" where
  "contribution h metric palette colors p =
     \<lparr>c_metrics = pp_metrics p, c_metric = metric, c_color = color_of h palette colors (pn_id (hd (pp_path p))),
      c_colorKey = pn_id (hd (pp_path p))\<rparr>"

definition node_records where
  "node_records c paths = concat (map (\<lambda>p. map (\<lambda>n. (n, c p)) (pp_path p)) paths)"

definition link_records where
  "link_records c paths = concat (map (\<lambda>p. map (\<lambda>l. (l, c p)) (path_links (pp_path p))) paths)"

lemma foldl_add_path:
  "foldl (add_path h metric palette colors) (nodes, links) paths =
     (foldl addNode nodes (node_records (contribution h metric palette colors) paths),
      foldl addLink links (link_records (contribution h metric palette colors) paths))"
  by (induction paths arbitrary: nodes links)
    (auto simp: node_records_def link_records_def add_path_def contribution_def path_links_def Let_def split: list.split)

interpretation node_value: tallying "\<lambda>r. pn_id (fst r)" node_init node_add fn_value
    "\<lambda>r. metricValue (c_metrics (snd r)) (c_metric (snd r))"
  by unfold_locales (auto simp: node_init_def node_add_def)

interpretation node_quota: tallying "\<lambda>r. pn_id (fst r)" node_init node_add fn_quota "\<lambda>r. m_quota (c_metrics (snd r))"
  by unfold_locales (auto simp: node_init_def node_add_def)

interpretation node_tokens: tallying "\<lambda>r. pn_id (fst r)" node_init node_add fn_tokens "\<lambda>r. m_tokens (c_metrics (snd r))"
  by unfold_locales (auto simp: node_init_def node_add_def)

interpretation node_requests: tallying "\<lambda>r. pn_id (fst r)" node_init node_add fn_requests "\<lambda>r. m_requests (c_metrics (snd r))"
  by unfold_locales (auto simp: node_init_def node_add_def)

interpretation link_value: tallying "\<lambda>r. pathLinkKey (fst (fst r)) (snd (fst r))" link_init link_add fl_value
    "\<lambda>r. metricValue (c_metrics (snd r)) (c_metric (snd r))"
  by unfold_locales (auto simp: link_init_def link_add_def)

section \<open>Paths\<close>

text \<open>
  A path has one node for each stage; the id of a node starts with the name of its kind. So the
  id gives the kind away, and a path has no node twice.
\<close>

definition kind_prefix :: "flow_node_kind \<Rightarrow> jstring" where
  "kind_prefix k = kind_text k @ js '':''"

definition well_path :: "flow_node_kind list \<Rightarrow> flow_path_node list \<Rightarrow> bool" where
  "well_path stages path \<longleftrightarrow> map pn_kind path = stages \<and>
     list_all (\<lambda>n. prefix (kind_prefix (pn_kind n)) (pn_id n)) path"

lemma kind_prefix_unique:
  assumes "prefix (kind_prefix a) s" and "prefix (kind_prefix b) s"
  shows "a = b"
proof -
  have "prefix (kind_prefix a) (kind_prefix b) \<or> prefix (kind_prefix b) (kind_prefix a)"
    using assms by (rule prefix_same_cases)
  then show ?thesis
    by (cases a; cases b) (simp_all add: kind_prefix_def js_eval)
qed

lemma NODE_BUILDERS_kind [simp]: "pn_kind (NODE_BUILDERS stage row ctx) = stage"
  by (cases stage)
    (simp_all add: userNode_def nodeNameNode_def tokenNode_def groupNode_def modelNode_def channelNode_def Let_def)

lemma NODE_BUILDERS_prefix: "prefix (kind_prefix stage) (pn_id (NODE_BUILDERS stage row ctx))"
  by (cases stage)
    (simp_all add: userNode_def nodeNameNode_def tokenNode_def groupNode_def modelNode_def channelNode_def
      Let_def kind_prefix_def js_eval)

lemma other_prefix: "prefix (kind_prefix k) (OTHER_FLOW_NODE_IDS k)"
  by (cases k) (simp_all add: kind_prefix_def js_eval)

lemma well_path_row: "well_path stages (flowPathForStages row stages ctx)"
  by (simp add: well_path_def flowPathForStages_def list_all_iff NODE_BUILDERS_prefix comp_def)

lemma well_path_limit:
  assumes "well_path stages p" and "applyTopNodeLimit p sets mode labeler = Some q"
  shows "well_path stages q"
  using assms
  by (auto simp: well_path_def applyTopNodeLimit_def otherFlowNode_def list_all_iff other_prefix split: if_splits)

lemma prepared_well:
  "p \<in> set (preparePaths h rows metric stages ctx options) \<Longrightarrow> well_path stages (pp_path p)"
  by (auto simp: preparePaths_def Let_def intro: well_path_limit [OF well_path_row])

lemma stages_distinct: "distinct (resolveVisibleStages role visibleStages)"
proof -
  have "distinct (getFlowStages role)" by (cases role) (simp_all add: getFlowStages_def)
  then show ?thesis by (simp add: resolveVisibleStages_def Let_def split: option.split)
qed

lemma stages_two: "length (resolveVisibleStages role visibleStages) \<ge> 2"
proof -
  have "length (getFlowStages role) \<ge> 2" by (cases role) (simp_all add: getFlowStages_def)
  then show ?thesis by (simp add: resolveVisibleStages_def MIN_FLOW_STAGES_def Let_def split: option.split)
qed

lemma well_path_nth:
  assumes "well_path stages p" and "i < length stages"
  shows "i < length p" "pn_kind (p ! i) = stages ! i" "prefix (kind_prefix (stages ! i)) (pn_id (p ! i))"
proof -
  have m: "map pn_kind p = stages" using assms(1) by (simp add: well_path_def)
  then show i: "i < length p" using assms(2) by (metis length_map)
  then show k: "pn_kind (p ! i) = stages ! i" using m by (metis nth_map)
  show "prefix (kind_prefix (stages ! i)) (pn_id (p ! i))"
    using assms(1) i k by (metis list_all_length well_path_def)
qed

lemma well_path_position:
  assumes "well_path stages p" and "distinct stages" and "i < length stages" and "j < length p"
    and "prefix (kind_prefix (stages ! i)) (pn_id (p ! j))"
  shows "j = i"
proof -
  have j: "j < length stages" using assms(1,4) by (metis length_map well_path_def)
  then have "stages ! j = stages ! i"
    using well_path_nth [OF assms(1) j] assms(5) kind_prefix_unique by blast
  then show ?thesis using assms(2,3) j nth_eq_iff_index_eq by blast
qed

text \<open>The node, and the links to its left and right, that a path has at the stage of an id.\<close>

lemma well_path_node:
  assumes "well_path stages p" and "distinct stages" and "i < length stages" and "prefix (kind_prefix (stages ! i)) x"
  shows "filter (\<lambda>n. pn_id n = x) p = (if pn_id (p ! i) = x then [p ! i] else [])"
  by (rule filter_unique) (use assms well_path_nth well_path_position in blast)+

lemma well_path_out:
  assumes "well_path stages p" and "distinct stages" and "Suc i < length stages" and "prefix (kind_prefix (stages ! i)) x"
  shows "filter (\<lambda>l. pn_id (fst l) = x) (path_links p) = (if pn_id (p ! i) = x then [(p ! i, p ! Suc i)] else [])"
proof -
  have n: "length p = length stages" using assms(1) by (metis length_map well_path_def)
  have "filter (\<lambda>l. pn_id (fst l) = x) (path_links p) =
      (if pn_id (fst (path_links p ! i)) = x then [path_links p ! i] else [])"
  proof (rule filter_unique)
    show "i < length (path_links p)" using assms(3) n by (simp add: path_links_def)
    fix j assume "j < length (path_links p)" "pn_id (fst (path_links p ! j)) = x"
    then show "j = i" using well_path_position [OF assms(1,2), of i j] assms(3,4) by (simp add: path_links_def)
  qed
  then show ?thesis using assms(3) n by (simp add: path_links_def nth_tl)
qed

lemma well_path_in:
  assumes "well_path stages p" and "distinct stages" and "Suc i < length stages" and "prefix (kind_prefix (stages ! Suc i)) x"
  shows "filter (\<lambda>l. pn_id (snd l) = x) (path_links p) = (if pn_id (p ! Suc i) = x then [(p ! i, p ! Suc i)] else [])"
proof -
  have n: "length p = length stages" using assms(1) by (metis length_map well_path_def)
  have "filter (\<lambda>l. pn_id (snd l) = x) (path_links p) =
      (if pn_id (snd (path_links p ! i)) = x then [path_links p ! i] else [])"
  proof (rule filter_unique)
    show "i < length (path_links p)" using assms(3) n by (simp add: path_links_def)
    fix j assume j: "j < length (path_links p)" "pn_id (snd (path_links p ! j)) = x"
    then have "Suc j = Suc i"
      using well_path_position [OF assms(1,2), of "Suc i" "Suc j"] assms(3,4) by (simp add: path_links_def nth_tl)
    then show "j = i" by simp
  qed
  then show ?thesis using assms(3) n by (simp add: path_links_def nth_tl)
qed

section \<open>What later steps keep\<close>

text \<open>
  Masking, highlighting, sorting and the display colours keep the ends and the quantities of
  nodes and links.
\<close>

definition node_core :: "flow_node \<Rightarrow> jstring \<times> flow_node_kind \<times> int \<times> int \<times> int \<times> int" where
  "node_core n = (fn_id n, fn_kind n, fn_value n, fn_requests n, fn_quota n, fn_tokens n)"

definition link_core :: "flow_link \<Rightarrow> jstring \<times> jstring \<times> int \<times> int \<times> int \<times> int" where
  "link_core l = (fl_source l, fl_target l, fl_value l, fl_requests l, fl_quota l, fl_tokens l)"

lemma cores_of_mask:
  "map node_core (map snd (fst (maskFlowGraphLabels nodes links))) = map node_core (map snd nodes)"
  "map link_core (map snd (snd (maskFlowGraphLabels nodes links))) = map link_core (map snd links)"
  by (auto simp: maskFlowGraphLabels_def node_core_def link_core_def Let_def split: option.split)

lemma cores_of_highlights:
  "map node_core (map snd (fst (applyFlowHighlights nodes links sets))) = map node_core (map snd nodes)"
  "map link_core (map snd (snd (applyFlowHighlights nodes links sets))) = map link_core (map snd links)"
  by (auto simp: applyFlowHighlights_def node_core_def link_core_def Let_def split: option.split)

lemma core_of_shares: "map link_core (assign_shares sources links) = map link_core links"
  by (simp add: assign_shares_def link_core_def Let_def comp_def)

lemma core_of_colors: "map link_core (assignLinkDisplayColors h links) = map link_core links"
  by (intro nth_equalityI)
    (auto simp: assignLinkDisplayColors_def link_core_def nth_enumerate_eq split: option.split)

definition graph_paths where
  "graph_paths h rows metric role visibleStages ctx options =
     preparePaths h rows metric (resolveVisibleStages role visibleStages) ctx options"

definition graph_contribution where
  "graph_contribution h rows metric role palette visibleStages ctx options =
     contribution h metric palette
       (stableColorMap h (js_sort (localeCompare h) (first_ids (graph_paths h rows metric role visibleStages ctx options))) palette)"

text \<open>The graph in terms of the two maps, with the functions that change labels and flags left open.\<close>

lemma buildFlowGraph_cores:
  assumes paths_def: "paths = graph_paths h rows metric role visibleStages ctx options"
    and c_def: "c = graph_contribution h rows metric role palette visibleStages ctx options"
    and g_def: "g = buildFlowGraph h rows metric role palette visibleStages ctx options"
  shows "mset (map node_core (g_nodes g)) = mset (map node_core (map snd (foldl addNode [] (node_records c paths))))"
    and "mset (map link_core (g_links g)) = mset (map link_core (map snd (foldl addLink [] (link_records c paths))))"
proof -
  let ?N = "foldl addNode [] (node_records c paths)" and ?L = "foldl addLink [] (link_records c paths)"
  let ?M = "if opt_maskSensitive options then maskFlowGraphLabels ?N ?L else (?N, ?L)"
  let ?H = "applyFlowHighlights (fst ?M) (snd ?M) (buildFlowHighlightSets paths (opt_activeNode options)
      (opt_activeLink options) (resolveVisibleStages role visibleStages))"
  have g: "g = \<lparr>g_nodes = js_sort (byValueThenLabel h) (map snd (fst ?H)),
      g_links = assignLinkDisplayColors h (assign_shares (js_Set (first_ids paths)) (js_sort (link_cmp h) (map snd (snd ?H))))\<rparr>"
    by (simp add: g_def buildFlowGraph_def paths_def graph_paths_def c_def graph_contribution_def foldl_add_path
        Let_def case_prod_unfold)
  have M: "map node_core (map snd (fst ?M)) = map node_core (map snd ?N)"
    "map link_core (map snd (snd ?M)) = map link_core (map snd ?L)"
    using cores_of_mask by simp_all
  show "mset (map node_core (g_nodes g)) = mset (map node_core (map snd ?N))"
    unfolding g flow_graph.simps mset_map mset_js_sort
    unfolding mset_map [symmetric] cores_of_highlights M ..
  show "mset (map link_core (g_links g)) = mset (map link_core (map snd ?L))"
    unfolding g flow_graph.simps core_of_colors core_of_shares mset_map mset_js_sort
    unfolding mset_map [symmetric] cores_of_highlights M ..
qed

section \<open>Sums over paths\<close>

text \<open>
  The abstract diagram: the paths through a node, and along a link; the quantity of either is
  the sum over these paths.
\<close>

definition passes :: "jstring \<Rightarrow> prepared_path \<Rightarrow> bool" where
  "passes x p \<longleftrightarrow> x \<in> pn_id ` set (pp_path p)"

definition follows :: "jstring \<Rightarrow> jstring \<Rightarrow> prepared_path \<Rightarrow> bool" where
  "follows s t p \<longleftrightarrow> (s, t) \<in> (\<lambda>(a, b). (pn_id a, pn_id b)) ` set (path_links (pp_path p))"

definition path_sum :: "(flow_metrics \<Rightarrow> int) \<Rightarrow> (prepared_path \<Rightarrow> bool) \<Rightarrow> prepared_path list \<Rightarrow> int" where
  "path_sum q P paths = (\<Sum>p\<leftarrow>filter P paths. q (pp_metrics p))"

definition well_paths :: "flow_node_kind list \<Rightarrow> prepared_path list \<Rightarrow> bool" where
  "well_paths stages paths \<longleftrightarrow> distinct stages \<and> (\<forall>p \<in> set paths. well_path stages (pp_path p))"

lemma graph_paths_well:
  "well_paths (resolveVisibleStages role visibleStages) (graph_paths h rows metric role visibleStages ctx options)"
  by (simp add: well_paths_def stages_distinct graph_paths_def prepared_well)

lemma passes_iff:
  assumes "well_path stages (pp_path p)" and "distinct stages" and "i < length stages" and "prefix (kind_prefix (stages ! i)) x"
  shows "passes x p \<longleftrightarrow> pn_id (pp_path p ! i) = x"
proof -
  have "passes x p \<longleftrightarrow> filter (\<lambda>n. pn_id n = x) (pp_path p) \<noteq> []"
    by (auto simp: passes_def filter_empty_conv)
  then show ?thesis by (simp add: well_path_node [OF assms])
qed

lemma sum_records:
  assumes "\<And>p. p \<in> set paths \<Longrightarrow> (\<Sum>r\<leftarrow>filter P (f p). q r) = (if Q p then w p else 0)"
  shows "(\<Sum>r\<leftarrow>filter P (concat (map f paths)). q r) = (\<Sum>p\<leftarrow>filter Q paths. w p)"
  using assms by (induction paths) simp_all

lemma sum_node_records:
  assumes "well_paths stages paths" and "i < length stages" and "prefix (kind_prefix (stages ! i)) x"
  shows "(\<Sum>r\<leftarrow>filter (\<lambda>r. pn_id (fst r) = x) (node_records c paths). q (snd r)) = (\<Sum>p\<leftarrow>filter (passes x) paths. q (c p))"
  unfolding node_records_def
proof (rule sum_records)
  fix p assume "p \<in> set paths"
  then have p: "well_path stages (pp_path p)" "distinct stages" using assms(1) by (auto simp: well_paths_def)
  show "(\<Sum>r\<leftarrow>filter (\<lambda>r. pn_id (fst r) = x) (map (\<lambda>n. (n, c p)) (pp_path p)). q (snd r)) = (if passes x p then q (c p) else 0)"
    by (simp add: filter_map comp_def well_path_node [OF p assms(2,3)] passes_iff [OF p assms(2,3)])
qed

lemma sum_out_records:
  assumes "well_paths stages paths" and "Suc i < length stages" and "prefix (kind_prefix (stages ! i)) x"
  shows "(\<Sum>r\<leftarrow>filter (\<lambda>r. pn_id (fst (fst r)) = x) (link_records c paths). q (snd r)) = (\<Sum>p\<leftarrow>filter (passes x) paths. q (c p))"
  unfolding link_records_def
proof (rule sum_records)
  fix p assume "p \<in> set paths"
  then have p: "well_path stages (pp_path p)" "distinct stages" using assms(1) by (auto simp: well_paths_def)
  have i: "i < length stages" using assms(2) by simp
  show "(\<Sum>r\<leftarrow>filter (\<lambda>r. pn_id (fst (fst r)) = x) (map (\<lambda>l. (l, c p)) (path_links (pp_path p))). q (snd r)) =
      (if passes x p then q (c p) else 0)"
    by (simp add: filter_map comp_def well_path_out [OF p assms(2,3)] passes_iff [OF p i assms(3)])
qed

lemma sum_in_records:
  assumes "well_paths stages paths" and "Suc i < length stages" and "prefix (kind_prefix (stages ! Suc i)) x"
  shows "(\<Sum>r\<leftarrow>filter (\<lambda>r. pn_id (snd (fst r)) = x) (link_records c paths). q (snd r)) = (\<Sum>p\<leftarrow>filter (passes x) paths. q (c p))"
  unfolding link_records_def
proof (rule sum_records)
  fix p assume "p \<in> set paths"
  then have p: "well_path stages (pp_path p)" "distinct stages" using assms(1) by (auto simp: well_paths_def)
  show "(\<Sum>r\<leftarrow>filter (\<lambda>r. pn_id (snd (fst r)) = x) (map (\<lambda>l. (l, c p)) (path_links (pp_path p))). q (snd r)) =
      (if passes x p then q (c p) else 0)"
    by (simp add: filter_map comp_def well_path_in [OF p assms(2,3)] passes_iff [OF p assms(2,3)])
qed

lemma follows_iff:
  assumes "well_path stages (pp_path p)" and "distinct stages" and "Suc i < length stages" and "prefix (kind_prefix (stages ! i)) s"
  shows "follows s t p \<longleftrightarrow> pn_id (pp_path p ! i) = s \<and> pn_id (pp_path p ! Suc i) = t"
proof -
  have "follows s t p \<longleftrightarrow> (\<exists>l \<in> set (filter (\<lambda>l. pn_id (fst l) = s) (path_links (pp_path p))). pn_id (snd l) = t)"
    by (force simp: follows_def)
  then show ?thesis by (simp add: well_path_out [OF assms])
qed

lemma sum_link_records:
  assumes "well_paths stages paths" and "Suc i < length stages" and "prefix (kind_prefix (stages ! i)) s"
  shows "(\<Sum>r\<leftarrow>filter (\<lambda>r. pn_id (fst (fst r)) = s \<and> pn_id (snd (fst r)) = t) (link_records c paths). q (snd r)) =
    (\<Sum>p\<leftarrow>filter (follows s t) paths. q (c p))"
  unfolding link_records_def
proof (rule sum_records)
  fix p assume "p \<in> set paths"
  then have p: "well_path stages (pp_path p)" "distinct stages" using assms(1) by (auto simp: well_paths_def)
  have "filter (\<lambda>l. pn_id (fst l) = s \<and> pn_id (snd l) = t) (path_links (pp_path p)) =
      filter (\<lambda>l. pn_id (snd l) = t) (filter (\<lambda>l. pn_id (fst l) = s) (path_links (pp_path p)))"
    by (simp add: conj_commute)
  then show "(\<Sum>r\<leftarrow>filter (\<lambda>r. pn_id (fst (fst r)) = s \<and> pn_id (snd (fst r)) = t)
      (map (\<lambda>l. (l, c p)) (path_links (pp_path p))). q (snd r)) = (if follows s t p then q (c p) else 0)"
    by (simp add: filter_map comp_def well_path_out [OF p assms(2,3)] follows_iff [OF p assms(2,3)])
qed

section \<open>Keys of links\<close>

text \<open>
  A link is stored under its two ids with the character \<open>U+0000\<close> between them. The key gives the
  ids back if no name of a row contains this character.
\<close>

definition clean :: "jstring \<Rightarrow> bool" where
  "clean s \<longleftrightarrow> 0 \<notin> set s"

definition clean_row :: "flow_row \<Rightarrow> bool" where
  "clean_row row \<longleftrightarrow> list_all (\<lambda>v. case v of Some s \<Rightarrow> clean s | None \<Rightarrow> True)
     [row_username row, row_node_name row, row_use_group row, row_token_name row, row_channel_name row, row_model_name row]"

definition clean_path :: "flow_path_node list \<Rightarrow> bool" where
  "clean_path path \<longleftrightarrow> list_all (\<lambda>n. clean (pn_id n)) path"

lemma clean_append [simp]: "clean (a @ b) \<longleftrightarrow> clean a \<and> clean b"
  by (simp add: clean_def)

lemma clean_int_str [simp]: "clean (int_str i)"
  using nat_str_digits by (force simp: clean_def int_str_def is_digit_def)

lemma clean_str_or: "case v of Some s \<Rightarrow> clean s | None \<Rightarrow> True \<Longrightarrow> clean d \<Longrightarrow> clean (str_or v d)"
  by (auto simp: str_or_def split: option.splits list.splits)

lemma clean_builders: "clean_row row \<Longrightarrow> clean (pn_id (NODE_BUILDERS stage row ctx))"
proof -
  have lit: "clean (js ''user:'')" "clean (js ''node:'')" "clean (js ''token:'')" "clean (js ''group:'')"
    "clean (js ''model:'')" "clean (js ''channel:'')" "clean (js ''unknown'')" "clean (js ''default-node'')"
    by (simp_all add: clean_def js_eval)
  assume "clean_row row"
  then show ?thesis
    by (cases stage)
      (simp_all add: userNode_def nodeNameNode_def tokenNode_def groupNode_def modelNode_def channelNode_def
        Let_def lit clean_str_or clean_row_def)
qed

lemma clean_other: "clean (OTHER_FLOW_NODE_IDS k)"
  by (cases k) (simp_all add: clean_def js_eval)

lemma clean_path_row: "clean_row row \<Longrightarrow> clean_path (flowPathForStages row stages ctx)"
  by (simp add: clean_path_def flowPathForStages_def list_all_iff clean_builders)

lemma clean_path_limit:
  "clean_path p \<Longrightarrow> applyTopNodeLimit p sets mode labeler = Some q \<Longrightarrow> clean_path q"
  by (auto simp: clean_path_def applyTopNodeLimit_def otherFlowNode_def list_all_iff clean_other split: if_splits)

lemma graph_paths_clean:
  "\<forall>row \<in> set rows. clean_row row \<Longrightarrow> p \<in> set (graph_paths h rows metric role visibleStages ctx options) \<Longrightarrow>
   clean_path (pp_path p)"
  by (auto simp: graph_paths_def preparePaths_def Let_def intro: clean_path_limit [OF clean_path_row])

lemma key_inject: "clean a \<Longrightarrow> clean s \<Longrightarrow> a @ [0] @ b = s @ [0] @ t \<longleftrightarrow> a = s \<and> b = t"
proof (induction a arbitrary: s)
  case Nil
  then show ?case by (cases s) (auto simp: clean_def)
next
  case (Cons c a)
  then show ?case by (cases s) (auto simp: clean_def)
qed

definition key_parts :: "jstring \<Rightarrow> jstring \<times> jstring" where
  "key_parts k = (takeWhile (\<lambda>c. c \<noteq> 0) k, drop 1 (dropWhile (\<lambda>c. c \<noteq> 0) k))"

lemma key_parts: "clean a \<Longrightarrow> key_parts (a @ [0] @ b) = (a, b)"
  by (induction a) (auto simp: key_parts_def clean_def)

text \<open>The entry under a key has the ends of a link of some path, and the key is made of them.\<close>

lemma link_entry:
  assumes "(k, l) \<in> set (foldl addLink [] (link_records c paths))"
  shows "k = linkStableKey l \<and>
    (\<exists>p \<in> set paths. (fl_source l, fl_target l) \<in> (\<lambda>(a, b). (pn_id a, pn_id b)) ` set (path_links (pp_path p)))"
proof (rule tally_invariant [where P = "\<lambda>k l. k = linkStableKey l \<and>
    (\<exists>p \<in> set paths. (fl_source l, fl_target l) \<in> (\<lambda>(a, b). (pn_id a, pn_id b)) ` set (path_links (pp_path p)))"])
  show "(k, l) \<in> set (foldl (tally (\<lambda>r. pathLinkKey (fst (fst r)) (snd (fst r))) link_init link_add) [] (link_records c paths))"
    using assms by (simp add: addLink_def)
  show "pathLinkKey (fst (fst r)) (snd (fst r)) = linkStableKey (link_init r) \<and>
      (\<exists>p \<in> set paths. (fl_source (link_init r), fl_target (link_init r)) \<in>
        (\<lambda>(a, b). (pn_id a, pn_id b)) ` set (path_links (pp_path p)))"
    if "r \<in> set (link_records c paths)" for r
    using that by (force simp: link_records_def link_init_def linkStableKey_def pathLinkKey_def)
qed (simp_all add: link_add_def linkStableKey_def case_prod_unfold)

lemma node_entry:
  assumes "(k, n) \<in> set (foldl addNode [] (node_records c paths))"
  shows "k = fn_id n \<and> (\<exists>p \<in> set paths. \<exists>m \<in> set (pp_path p). fn_id n = pn_id m \<and> fn_kind n = pn_kind m \<and> fn_label n = pn_label m)"
proof (rule tally_invariant [where P = "\<lambda>k n. k = fn_id n \<and>
    (\<exists>p \<in> set paths. \<exists>m \<in> set (pp_path p). fn_id n = pn_id m \<and> fn_kind n = pn_kind m \<and> fn_label n = pn_label m)"])
  show "(k, n) \<in> set (foldl (tally (\<lambda>r. pn_id (fst r)) node_init node_add) [] (node_records c paths))"
    using assms by (simp add: addNode_def)
  show "pn_id (fst r) = fn_id (node_init r) \<and> (\<exists>p \<in> set paths. \<exists>m \<in> set (pp_path p).
      fn_id (node_init r) = pn_id m \<and> fn_kind (node_init r) = pn_kind m \<and> fn_label (node_init r) = pn_label m)"
    if r: "r \<in> set (node_records c paths)" for r
  proof -
    obtain p m where "p \<in> set paths" "m \<in> set (pp_path p)" "r = (m, c p)" using r by (auto simp: node_records_def)
    then show ?thesis by (auto simp: node_init_def intro!: bexI [of _ p] bexI [of _ m])
  qed
qed (simp_all add: node_add_def case_prod_unfold)

lemma path_links_clean:
  assumes "clean_path path" and "(a, b) \<in> set (path_links path)"
  shows "clean (pn_id a) \<and> clean (pn_id b)"
proof -
  have "a \<in> set path" "b \<in> set (tl path)" using assms(2) by (auto simp: path_links_def dest: set_zip_leftD set_zip_rightD)
  then show ?thesis using assms(1) by (cases path) (auto simp: clean_path_def list_all_iff)
qed

lemma link_ends_clean:
  assumes "\<forall>p \<in> set paths. clean_path (pp_path p)" and "(k, l) \<in> set (foldl addLink [] (link_records c paths))"
  shows "clean (fl_source l)" "clean (fl_target l)"
  using link_entry [OF assms(2)] assms(1) path_links_clean by fastforce+

section \<open>The quantities of nodes and links\<close>

lemma contribution_metrics [simp]:
  "c_metrics (contribution h metric palette colors p) = pp_metrics p"
  "c_metric (contribution h metric palette colors p) = metric"
  by (simp_all add: contribution_def)

lemma graph_contribution_metrics [simp]:
  "c_metrics (graph_contribution h rows metric role palette visibleStages ctx options p) = pp_metrics p"
  "c_metric (graph_contribution h rows metric role palette visibleStages ctx options p) = metric"
  by (simp_all add: graph_contribution_def)

lemma stage_of_node:
  assumes "well_paths stages paths" and "p \<in> set paths" and "m \<in> set (pp_path p)"
  obtains i where "i < length stages" "pn_kind m = stages ! i" "prefix (kind_prefix (stages ! i)) (pn_id m)"
proof -
  have p: "well_path stages (pp_path p)" using assms(1,2) by (simp add: well_paths_def)
  then have len: "length (pp_path p) = length stages" by (metis length_map well_path_def)
  obtain i where i: "i < length stages" "m = pp_path p ! i" using assms(3) len by (metis in_set_conv_nth)
  show thesis using that [OF i(1)] well_path_nth(2,3) [OF p i(1)] i(2) by simp
qed

lemma stage_of_link:
  assumes "well_paths stages paths" and "p \<in> set paths" and "(a, b) \<in> set (path_links (pp_path p))"
  obtains i where "Suc i < length stages" "prefix (kind_prefix (stages ! i)) (pn_id a)"
    "prefix (kind_prefix (stages ! Suc i)) (pn_id b)"
proof -
  have p: "well_path stages (pp_path p)" using assms(1,2) by (simp add: well_paths_def)
  then have len: "length (pp_path p) = length stages" by (metis length_map well_path_def)
  obtain i where i: "i < length (path_links (pp_path p))" "(a, b) = path_links (pp_path p) ! i"
    using assms(3) by (metis in_set_conv_nth)
  then have "Suc i < length stages" "a = pp_path p ! i" "b = pp_path p ! Suc i"
    using len by (auto simp: path_links_def nth_tl)
  then show thesis using that well_path_nth(3) [OF p] by (metis Suc_lessD)
qed

lemma node_map_of: "(k, n) \<in> set (foldl addNode [] rs) \<Longrightarrow> map_of (foldl addNode [] rs) k = Some n"
  unfolding addNode_def by (intro map_of_is_SomeI distinct_keys_tally)

lemma link_map_of: "(k, l) \<in> set (foldl addLink [] rs) \<Longrightarrow> map_of (foldl addLink [] rs) k = Some l"
  unfolding addLink_def by (intro map_of_is_SomeI distinct_keys_tally)

lemma node_map_values:
  assumes "well_paths stages paths" and "(k, n) \<in> set (foldl addNode [] (node_records c paths))"
    and c: "\<And>p. c_metrics (c p) = pp_metrics p" "\<And>p. c_metric (c p) = metric"
  shows "fn_value n = path_sum (\<lambda>m. metricValue m metric) (passes k) paths"
    and "fn_quota n = path_sum m_quota (passes k) paths"
    and "fn_tokens n = path_sum m_tokens (passes k) paths"
    and "fn_requests n = path_sum m_requests (passes k) paths"
proof -
  obtain p m where "p \<in> set paths" "m \<in> set (pp_path p)" "pn_id m = k" using node_entry [OF assms(2)] by auto
  with stage_of_node [OF assms(1)] obtain i where i: "i < length stages" "prefix (kind_prefix (stages ! i)) k" by metis
  note sums = sum_node_records [OF assms(1) i, where c = c]
  note mo = node_map_of [OF assms(2), unfolded addNode_def]
  show "fn_value n = path_sum (\<lambda>m. metricValue m metric) (passes k) paths"
    using node_value.entry_value [OF mo] sums [of "\<lambda>c. metricValue (c_metrics c) (c_metric c)"]
    by (simp add: path_sum_def c)
  show "fn_quota n = path_sum m_quota (passes k) paths"
    using node_quota.entry_value [OF mo] sums [of "\<lambda>c. m_quota (c_metrics c)"] by (simp add: path_sum_def c)
  show "fn_tokens n = path_sum m_tokens (passes k) paths"
    using node_tokens.entry_value [OF mo] sums [of "\<lambda>c. m_tokens (c_metrics c)"] by (simp add: path_sum_def c)
  show "fn_requests n = path_sum m_requests (passes k) paths"
    using node_requests.entry_value [OF mo] sums [of "\<lambda>c. m_requests (c_metrics c)"] by (simp add: path_sum_def c)
qed

lemma link_map_value:
  assumes "well_paths stages paths" and "\<forall>p \<in> set paths. clean_path (pp_path p)"
    and "(k, l) \<in> set (foldl addLink [] (link_records c paths))"
    and c: "\<And>p. c_metrics (c p) = pp_metrics p" "\<And>p. c_metric (c p) = metric"
  shows "fl_value l = path_sum (\<lambda>m. metricValue m metric) (follows (fl_source l) (fl_target l)) paths"
proof -
  obtain p a b where p: "p \<in> set paths" and ab: "(a, b) \<in> set (path_links (pp_path p))"
    "fl_source l = pn_id a" "fl_target l = pn_id b" and k: "k = linkStableKey l"
    using link_entry [OF assms(3)] by auto
  obtain i where i: "Suc i < length stages" "prefix (kind_prefix (stages ! i)) (fl_source l)"
    using stage_of_link [OF assms(1) p ab(1)] ab(2) by metis
  have "filter (\<lambda>r. pathLinkKey (fst (fst r)) (snd (fst r)) = k) (link_records c paths) =
      filter (\<lambda>r. pn_id (fst (fst r)) = fl_source l \<and> pn_id (snd (fst r)) = fl_target l) (link_records c paths)"
  proof (rule filter_cong [OF refl])
    fix r assume "r \<in> set (link_records c paths)"
    then have "clean (pn_id (fst (fst r)))"
      using assms(2) path_links_clean by (fastforce simp: link_records_def)
    then show "(pathLinkKey (fst (fst r)) (snd (fst r)) = k) \<longleftrightarrow>
        (pn_id (fst (fst r)) = fl_source l \<and> pn_id (snd (fst r)) = fl_target l)"
      using key_inject link_ends_clean(1) [OF assms(2,3)] unfolding k linkStableKey_def pathLinkKey_def by blast
  qed
  then show ?thesis
    using link_value.entry_value [OF link_map_of [OF assms(3), unfolded addLink_def]]
      sum_link_records [OF assms(1) i, where c = c and q = "\<lambda>c. metricValue (c_metrics c) (c_metric c)"]
    by (simp add: path_sum_def c)
qed

lemma core_in_map:
  assumes "mset (map core xs) = mset (map core (map snd m))" and "x \<in> set xs"
  obtains k y where "(k, y) \<in> set m" "core x = core y"
proof -
  have "core x \<in> set (map core (map snd m))"
    using assms by (metis image_eqI list.set_map mset_eq_setD)
  then show thesis using that by auto
qed

lemma map_in_core:
  assumes "mset (map core xs) = mset (map core (map snd m))" and "(k, y) \<in> set m"
  obtains x where "x \<in> set xs" "core x = core y"
proof -
  have "core y \<in> set (map core xs)"
    using assms mset_eq_setD [OF assms(1)] by force
  then show thesis using that by auto
qed

lemma distinct_cores:
  assumes "mset (map core xs) = mset (map core (map snd m))" and "\<And>x. f x = g (core x)"
    and "\<And>k y. (k, y) \<in> set m \<Longrightarrow> key k = f y" and "inj_on key (fst ` set m)" and "distinct (map fst m)"
  shows "distinct (map f xs)"
proof -
  have f: "f = (\<lambda>x. g (core x))" using assms(2) by blast
  have "mset (map f xs) = image_mset g (mset (map core xs))" by (simp add: f image_mset.compositionality comp_def)
  also have "\<dots> = mset (map f (map snd m))" unfolding assms(1) by (simp add: f image_mset.compositionality comp_def)
  also have "map f (map snd m) = map key (map fst m)" using assms(3) by auto
  finally have "mset (map f xs) = mset (map key (map fst m))" .
  moreover have "distinct (map key (map fst m))" using assms(4,5) by (metis distinct_map list.set_map)
  ultimately show ?thesis by (metis mset_eq_imp_distinct_iff)
qed

lemma graph_node_values:
  assumes "n \<in> set (g_nodes (buildFlowGraph h rows metric role palette visibleStages ctx options))"
    and paths: "paths = graph_paths h rows metric role visibleStages ctx options"
  shows "fn_value n = path_sum (\<lambda>m. metricValue m metric) (passes (fn_id n)) paths"
    and "fn_quota n = path_sum m_quota (passes (fn_id n)) paths"
    and "fn_tokens n = path_sum m_tokens (passes (fn_id n)) paths"
    and "fn_requests n = path_sum m_requests (passes (fn_id n)) paths"
    and "\<exists>p \<in> set paths. \<exists>m \<in> set (pp_path p). fn_id n = pn_id m \<and> fn_kind n = pn_kind m"
proof -
  let ?c = "graph_contribution h rows metric role palette visibleStages ctx options"
  obtain k n' where n': "(k, n') \<in> set (foldl addNode [] (node_records ?c paths))" "node_core n = node_core n'"
    using core_in_map [OF buildFlowGraph_cores(1) [OF paths refl refl] assms(1)] .
  have k: "k = fn_id n" using node_entry [OF n'(1)] n'(2) by (simp add: node_core_def)
  have well: "well_paths (resolveVisibleStages role visibleStages) paths" unfolding paths by (rule graph_paths_well)
  note sums = node_map_values [OF well n'(1), where metric = metric, simplified]
  show "fn_value n = path_sum (\<lambda>m. metricValue m metric) (passes (fn_id n)) paths"
    "fn_quota n = path_sum m_quota (passes (fn_id n)) paths"
    "fn_tokens n = path_sum m_tokens (passes (fn_id n)) paths"
    "fn_requests n = path_sum m_requests (passes (fn_id n)) paths"
    using sums n'(2) k by (simp_all add: node_core_def)
  show "\<exists>p \<in> set paths. \<exists>m \<in> set (pp_path p). fn_id n = pn_id m \<and> fn_kind n = pn_kind m"
    using node_entry [OF n'(1)] n'(2) by (auto simp: node_core_def)
qed

lemma graph_node_ids:
  assumes "paths = graph_paths h rows metric role visibleStages ctx options"
    and "g = buildFlowGraph h rows metric role palette visibleStages ctx options"
  shows "distinct (map fn_id (g_nodes g))" and "fn_id ` set (g_nodes g) = {x. \<exists>p \<in> set paths. passes x p}"
proof -
  let ?c = "graph_contribution h rows metric role palette visibleStages ctx options"
  let ?N = "foldl addNode [] (node_records ?c paths)"
  note core = buildFlowGraph_cores(1) [OF assms(1) refl assms(2)]
  show "distinct (map fn_id (g_nodes g))"
  proof (rule distinct_cores [OF core, where g = fst and key = "\<lambda>k. k"])
    show "distinct (map fst ?N)" unfolding addNode_def by (rule distinct_keys_tally)
  qed (auto simp: node_core_def dest: node_entry)
  have "fn_id ` set (g_nodes g) = fst ` set (map node_core (g_nodes g))" by (force simp: node_core_def)
  also have "\<dots> = fst ` set (map node_core (map snd ?N))" by (metis core mset_eq_setD)
  also have "\<dots> = fst ` set ?N" by (force simp: node_core_def image_iff dest: node_entry)
  also have "\<dots> = set (map (\<lambda>r. pn_id (fst r)) (node_records ?c paths))"
    by (metis addNode_def keys_tally_Nil list.set_map set_js_Set)
  also have "\<dots> = {x. \<exists>p \<in> set paths. passes x p}"
    by (auto simp: node_records_def passes_def image_image image_UN)
  finally show "fn_id ` set (g_nodes g) = {x. \<exists>p \<in> set paths. passes x p}" .
qed

lemma graph_link_value:
  assumes "\<forall>row \<in> set rows. clean_row row"
    and "l \<in> set (g_links (buildFlowGraph h rows metric role palette visibleStages ctx options))"
    and paths: "paths = graph_paths h rows metric role visibleStages ctx options"
  shows "fl_value l = path_sum (\<lambda>m. metricValue m metric) (follows (fl_source l) (fl_target l)) paths"
proof -
  let ?c = "graph_contribution h rows metric role palette visibleStages ctx options"
  obtain k l' where l': "(k, l') \<in> set (foldl addLink [] (link_records ?c paths))" "link_core l = link_core l'"
    using core_in_map [OF buildFlowGraph_cores(2) [OF paths refl refl] assms(2)] .
  have "\<forall>p \<in> set paths. clean_path (pp_path p)" using graph_paths_clean [OF assms(1)] paths by blast
  moreover have "well_paths (resolveVisibleStages role visibleStages) paths" unfolding paths by (rule graph_paths_well)
  ultimately show ?thesis
    using link_map_value [OF _ _ l'(1), where metric = metric, simplified] l'(2) by (simp add: link_core_def)
qed

lemma graph_link_ends:
  assumes "\<forall>row \<in> set rows. clean_row row"
    and paths: "paths = graph_paths h rows metric role visibleStages ctx options"
    and g: "g = buildFlowGraph h rows metric role palette visibleStages ctx options"
  shows "distinct (map (\<lambda>l. (fl_source l, fl_target l)) (g_links g))"
    and "(\<lambda>l. (fl_source l, fl_target l)) ` set (g_links g) = {(s, t). \<exists>p \<in> set paths. follows s t p}"
proof -
  let ?c = "graph_contribution h rows metric role palette visibleStages ctx options"
  let ?L = "foldl addLink [] (link_records ?c paths)"
  let ?ends = "\<lambda>l. (fl_source l, fl_target l)"
  have clean: "\<forall>p \<in> set paths. clean_path (pp_path p)" using graph_paths_clean [OF assms(1)] paths by blast
  have key: "key_parts k = ?ends l" if "(k, l) \<in> set ?L" for k l
    using link_entry [OF that] key_parts [OF link_ends_clean(1) [OF clean that]] by (simp add: linkStableKey_def)
  note core = buildFlowGraph_cores(2) [OF paths refl g]
  show "distinct (map ?ends (g_links g))"
  proof (rule distinct_cores [OF core, where g = "\<lambda>c. (fst c, fst (snd c))" and key = key_parts])
    show "distinct (map fst ?L)" unfolding addLink_def by (rule distinct_keys_tally)
    show "inj_on key_parts (fst ` set ?L)"
      by (rule inj_on_inverseI [where g = "\<lambda>(a, b). a @ [0] @ b"])
        (use key link_entry in \<open>fastforce simp: linkStableKey_def\<close>)
  qed (use key in \<open>auto simp: link_core_def\<close>)
  have "?ends ` set (g_links g) = (\<lambda>c. (fst c, fst (snd c))) ` set (map link_core (g_links g))"
    by (simp add: link_core_def image_image)
  also have "\<dots> = (\<lambda>c. (fst c, fst (snd c))) ` set (map link_core (map snd ?L))"
    by (simp only: mset_eq_setD [OF core])
  also have "\<dots> = key_parts ` set (map fst ?L)"
    unfolding set_map image_image using key [symmetric] by (intro image_cong) (auto simp: link_core_def)
  also have "set (map fst ?L) = set (map (\<lambda>r. pathLinkKey (fst (fst r)) (snd (fst r))) (link_records ?c paths))"
    by (simp only: addLink_def keys_tally_Nil set_js_Set)
  also have "key_parts ` \<dots> = (\<lambda>r. (pn_id (fst (fst r)), pn_id (snd (fst r)))) ` set (link_records ?c paths)"
    unfolding set_map image_image
  proof (rule image_cong [OF refl])
    fix r assume "r \<in> set (link_records ?c paths)"
    then have "clean (pn_id (fst (fst r)))" using clean path_links_clean by (fastforce simp: link_records_def)
    then show "key_parts (pathLinkKey (fst (fst r)) (snd (fst r))) = (pn_id (fst (fst r)), pn_id (snd (fst r)))"
      using key_parts by (simp add: pathLinkKey_def)
  qed
  also have "\<dots> = {(s, t). \<exists>p \<in> set paths. follows s t p}"
    by (auto simp: link_records_def follows_def image_UN image_image case_prod_unfold)
  finally show "?ends ` set (g_links g) = {(s, t). \<exists>p \<in> set paths. follows s t p}" .
qed

text \<open>
  C3: the diagram shows the usage rows. Its nodes are the nodes of the paths, each once, and each
  carries the value, quota, tokens and requests of exactly the rows whose path passes it; its
  links are the steps of the paths, each once, with the value of the rows that take it. This
  holds with any limit, filter, mask and highlight, if no name contains the character
  \<open>U+0000\<close>.
\<close>

theorem flow_graph_refines:
  assumes "\<forall>row \<in> set rows. clean_row row"
    and "paths = graph_paths h rows metric role visibleStages ctx options"
    and "g = buildFlowGraph h rows metric role palette visibleStages ctx options"
  shows "distinct (map fn_id (g_nodes g)) \<and> fn_id ` set (g_nodes g) = {x. \<exists>p \<in> set paths. passes x p} \<and>
    (\<forall>n \<in> set (g_nodes g).
       fn_value n = path_sum (\<lambda>m. metricValue m metric) (passes (fn_id n)) paths \<and>
       fn_quota n = path_sum m_quota (passes (fn_id n)) paths \<and>
       fn_tokens n = path_sum m_tokens (passes (fn_id n)) paths \<and>
       fn_requests n = path_sum m_requests (passes (fn_id n)) paths) \<and>
    distinct (map (\<lambda>l. (fl_source l, fl_target l)) (g_links g)) \<and>
    (\<lambda>l. (fl_source l, fl_target l)) ` set (g_links g) = {(s, t). \<exists>p \<in> set paths. follows s t p} \<and>
    (\<forall>l \<in> set (g_links g).
       fl_value l = path_sum (\<lambda>m. metricValue m metric) (follows (fl_source l) (fl_target l)) paths)"
  unfolding assms(3)
  by (intro conjI ballI)
    (assumption | rule graph_node_ids [OF assms(2) refl] graph_node_values [OF _ assms(2)]
      graph_link_ends [OF assms(1,2) refl] graph_link_value [OF assms(1) _ assms(2)])+

section \<open>Conservation\<close>

lemma sum_filter_core:
  assumes "mset (map core xs) = mset (map core ys)" and "\<And>x. P x = P' (core x)" and "\<And>x. f x = f' (core x)"
  shows "(\<Sum>x\<leftarrow>filter P xs. f x) = (\<Sum>x\<leftarrow>filter P ys. (f x :: int))"
proof -
  have "(\<Sum>x\<leftarrow>filter P zs. f x) = sum_mset (image_mset f' (filter_mset P' (mset (map core zs))))" for zs
    by (induction zs) (simp_all add: assms(2,3))
  then show ?thesis by (simp only: assms(1))
qed

lemma link_record_key:
  assumes "\<forall>p \<in> set paths. clean_path (pp_path p)" and "r \<in> set (link_records c paths)"
  shows "key_parts (pathLinkKey (fst (fst r)) (snd (fst r))) = (pn_id (fst (fst r)), pn_id (snd (fst r)))"
proof -
  have "clean (pn_id (fst (fst r)))" using assms path_links_clean by (fastforce simp: link_records_def)
  then show ?thesis using key_parts by (simp add: pathLinkKey_def)
qed

lemma link_entry_key:
  assumes "\<forall>p \<in> set paths. clean_path (pp_path p)" and "(k, l) \<in> set (foldl addLink [] (link_records c paths))"
  shows "key_parts k = (fl_source l, fl_target l)"
  using link_entry [OF assms(2)] key_parts [OF link_ends_clean(1) [OF assms]] by (simp add: linkStableKey_def)

text \<open>Summing the links that satisfy a condition on their ends.\<close>

lemma link_map_sum:
  assumes "\<forall>p \<in> set paths. clean_path (pp_path p)"
  shows "(\<Sum>l\<leftarrow>filter (\<lambda>l. Q (fl_source l, fl_target l)) (map snd (foldl addLink [] (link_records c paths))). fl_value l) =
    (\<Sum>r\<leftarrow>filter (\<lambda>r. Q (pn_id (fst (fst r)), pn_id (snd (fst r)))) (link_records c paths).
       metricValue (c_metrics (snd r)) (c_metric (snd r)))"
proof -
  let ?L = "foldl addLink [] (link_records c paths)"
  have "filter (\<lambda>l. Q (fl_source l, fl_target l)) (map snd ?L) = map snd (filter (\<lambda>p. Q (fl_source (snd p), fl_target (snd p))) ?L)"
    by (simp add: filter_map comp_def)
  also have "filter (\<lambda>p. Q (fl_source (snd p), fl_target (snd p))) ?L = filter (\<lambda>p. Q (key_parts (fst p))) ?L"
    using link_entry_key [OF assms] by (intro filter_cong) auto
  also have "\<dots> = foldl addLink [] (filter (\<lambda>r. Q (key_parts (pathLinkKey (fst (fst r)) (snd (fst r))))) (link_records c paths))"
    unfolding addLink_def by (simp add: filter_tally [where Q = "\<lambda>k. Q (key_parts k)"])
  also have "filter (\<lambda>r. Q (key_parts (pathLinkKey (fst (fst r)) (snd (fst r))))) (link_records c paths) =
      filter (\<lambda>r. Q (pn_id (fst (fst r)), pn_id (snd (fst r)))) (link_records c paths)"
    by (rule filter_cong) (simp_all only: link_record_key [OF assms])
  finally have e: "filter (\<lambda>l. Q (fl_source l, fl_target l)) (map snd ?L) =
      map snd (foldl addLink [] (filter (\<lambda>r. Q (pn_id (fst (fst r)), pn_id (snd (fst r)))) (link_records c paths)))" .
  show ?thesis
    using link_value.total [of "filter (\<lambda>r. Q (pn_id (fst (fst r)), pn_id (snd (fst r)))) (link_records c paths)"]
    unfolding e map_map by (simp add: addLink_def comp_def)
qed

lemma graph_link_sum:
  assumes "\<forall>row \<in> set rows. clean_row row"
    and paths: "paths = graph_paths h rows metric role visibleStages ctx options"
    and c: "c = graph_contribution h rows metric role palette visibleStages ctx options"
    and g: "g = buildFlowGraph h rows metric role palette visibleStages ctx options"
  shows "(\<Sum>l\<leftarrow>filter (\<lambda>l. Q (fl_source l, fl_target l)) (g_links g). fl_value l) =
    (\<Sum>r\<leftarrow>filter (\<lambda>r. Q (pn_id (fst (fst r)), pn_id (snd (fst r)))) (link_records c paths). metricValue (c_metrics (snd r)) metric)"
proof -
  have clean: "\<forall>p \<in> set paths. clean_path (pp_path p)" using graph_paths_clean [OF assms(1)] paths by blast
  have "(\<Sum>l\<leftarrow>filter (\<lambda>l. Q (fl_source l, fl_target l)) (g_links g). fl_value l) =
      (\<Sum>l\<leftarrow>filter (\<lambda>l. Q (fl_source l, fl_target l)) (map snd (foldl addLink [] (link_records c paths))). fl_value l)"
    by (rule sum_filter_core [OF buildFlowGraph_cores(2) [OF paths c g],
        where P' = "\<lambda>k. Q (fst k, fst (snd k))" and f' = "\<lambda>k. fst (snd (snd k))"]) (simp_all add: link_core_def)
  also have "\<dots> = (\<Sum>r\<leftarrow>filter (\<lambda>r. Q (pn_id (fst (fst r)), pn_id (snd (fst r)))) (link_records c paths).
      metricValue (c_metrics (snd r)) (c_metric (snd r)))"
    by (rule link_map_sum [OF clean])
  also have "map (\<lambda>r. metricValue (c_metrics (snd r)) (c_metric (snd r))) (filter R (link_records c paths)) =
      map (\<lambda>r. metricValue (c_metrics (snd r)) metric) (filter R (link_records c paths))" for R
    by (rule map_cong) (auto simp: link_records_def c)
  finally show ?thesis .
qed

text \<open>
  C4: the flow is conserved. What flows out of a node is its value unless it stands in the last
  column, and what flows into it is its value unless it stands in the first: with a limit on the
  nodes, hidden stages, filters or a mask as well.
\<close>

theorem flow_conserved:
  assumes "\<forall>row \<in> set rows. clean_row row"
    and "g = buildFlowGraph h rows metric role palette visibleStages ctx options"
    and "stages = resolveVisibleStages role visibleStages" and "n \<in> set (g_nodes g)"
  shows "(fn_kind n \<noteq> last stages \<longrightarrow>
      (\<Sum>l\<leftarrow>filter (\<lambda>l. fl_source l = fn_id n) (g_links g). fl_value l) = fn_value n) \<and>
    (fn_kind n \<noteq> hd stages \<longrightarrow>
      (\<Sum>l\<leftarrow>filter (\<lambda>l. fl_target l = fn_id n) (g_links g). fl_value l) = fn_value n)"
proof -
  let ?paths = "graph_paths h rows metric role visibleStages ctx options"
  let ?c = "graph_contribution h rows metric role palette visibleStages ctx options"
  let ?q = "\<lambda>c. metricValue (c_metrics c) metric"
  have well: "well_paths stages ?paths" unfolding assms(3) by (rule graph_paths_well)
  obtain p m where m: "p \<in> set ?paths" "m \<in> set (pp_path p)" "fn_id n = pn_id m" "fn_kind n = pn_kind m"
    using graph_node_values(5) [OF assms(4) [unfolded assms(2)] refl] by blast
  obtain i where i: "i < length stages" "fn_kind n = stages ! i" "prefix (kind_prefix (stages ! i)) (fn_id n)"
    using stage_of_node [OF well m(1,2)] m(3,4) by metis
  have v: "fn_value n = (\<Sum>p\<leftarrow>filter (passes (fn_id n)) ?paths. ?q (?c p))"
    using graph_node_values(1) [OF assms(4) [unfolded assms(2)] refl] by (simp add: path_sum_def)
  note sum = graph_link_sum [OF assms(1) refl refl assms(2)]
  show ?thesis
  proof (intro conjI impI)
    assume "fn_kind n \<noteq> last stages"
    then have "Suc i < length stages" using i by (metis Suc_lessI diff_Suc_1 last_conv_nth length_0_conv nat.distinct(1))
    from sum_out_records [OF well this i(3), where c = ?c and q = ?q]
    show "(\<Sum>l\<leftarrow>filter (\<lambda>l. fl_source l = fn_id n) (g_links g). fl_value l) = fn_value n"
      using sum [of "\<lambda>e. fst e = fn_id n"] v by simp
  next
    assume "fn_kind n \<noteq> hd stages"
    then obtain j where j: "i = Suc j" using i by (cases i) (auto simp: hd_conv_nth)
    from sum_in_records [OF well i(1) [unfolded j] i(3) [unfolded j], where c = ?c and q = ?q]
    show "(\<Sum>l\<leftarrow>filter (\<lambda>l. fl_target l = fn_id n) (g_links g). fl_value l) = fn_value n"
      using sum [of "\<lambda>e. snd e = fn_id n"] v by simp
  qed
qed

section \<open>Totals of the columns\<close>

lemma well_path_column:
  assumes "well_path stages p" and "distinct stages" and "i < length stages"
  shows "filter (\<lambda>n. prefix (kind_prefix (stages ! i)) (pn_id n)) p = [p ! i]"
proof -
  have "filter (\<lambda>n. prefix (kind_prefix (stages ! i)) (pn_id n)) p =
      (if prefix (kind_prefix (stages ! i)) (pn_id (p ! i)) then [p ! i] else [])"
    by (rule filter_unique) (use assms well_path_nth well_path_position in blast)+
  then show ?thesis using well_path_nth(3) [OF assms(1,3)] by simp
qed

lemma node_map_sum:
  "(\<Sum>n\<leftarrow>filter (\<lambda>n. Q (fn_id n)) (map snd (foldl addNode [] (node_records c paths))). fn_value n) =
   (\<Sum>r\<leftarrow>filter (\<lambda>r. Q (pn_id (fst r))) (node_records c paths). metricValue (c_metrics (snd r)) (c_metric (snd r)))"
proof -
  let ?N = "foldl addNode [] (node_records c paths)"
  have "filter (\<lambda>n. Q (fn_id n)) (map snd ?N) = map snd (filter (\<lambda>p. Q (fn_id (snd p))) ?N)"
    by (simp add: filter_map comp_def)
  also have "filter (\<lambda>p. Q (fn_id (snd p))) ?N = filter (\<lambda>p. Q (fst p)) ?N"
    by (intro filter_cong refl) (metis node_entry prod.collapse)
  also have "\<dots> = foldl addNode [] (filter (\<lambda>r. Q (pn_id (fst r))) (node_records c paths))"
    unfolding addNode_def by (simp add: filter_tally)
  finally have e: "filter (\<lambda>n. Q (fn_id n)) (map snd ?N) =
      map snd (foldl addNode [] (filter (\<lambda>r. Q (pn_id (fst r))) (node_records c paths)))" .
  show ?thesis
    using node_value.total [of "filter (\<lambda>r. Q (pn_id (fst r))) (node_records c paths)"]
    unfolding e map_map by (simp add: addNode_def comp_def)
qed

lemma graph_column_sum:
  assumes g: "g = buildFlowGraph h rows metric role palette visibleStages ctx options"
    and stages: "stages = resolveVisibleStages role visibleStages" and k: "k \<in> set stages"
    and paths: "paths = graph_paths h rows metric role visibleStages ctx options"
  shows "(\<Sum>n\<leftarrow>filter (\<lambda>n. fn_kind n = k) (g_nodes g). fn_value n) = (\<Sum>p\<leftarrow>paths. metricValue (pp_metrics p) metric)"
proof -
  let ?c = "graph_contribution h rows metric role palette visibleStages ctx options"
  have well: "well_paths stages paths" unfolding stages paths by (rule graph_paths_well)
  obtain i where i: "i < length stages" "k = stages ! i" using k by (metis in_set_conv_nth)
  have kind: "fn_kind n = k \<longleftrightarrow> prefix (kind_prefix k) (fn_id n)" if n: "n \<in> set (g_nodes g)" for n
  proof -
    obtain p m where m: "p \<in> set paths" "m \<in> set (pp_path p)" "fn_id n = pn_id m" "fn_kind n = pn_kind m"
      using graph_node_values(5) [OF n [unfolded g] paths] by blast
    then have "prefix (kind_prefix (fn_kind n)) (fn_id n)" using stage_of_node [OF well m(1,2)] by metis
    then show ?thesis using kind_prefix_unique by blast
  qed
  have "(\<Sum>n\<leftarrow>filter (\<lambda>n. fn_kind n = k) (g_nodes g). fn_value n) =
      (\<Sum>n\<leftarrow>filter (\<lambda>n. prefix (kind_prefix k) (fn_id n)) (g_nodes g). fn_value n)"
    using kind by (metis (mono_tags, lifting) filter_cong)
  also have "\<dots> = (\<Sum>n\<leftarrow>filter (\<lambda>n. prefix (kind_prefix k) (fn_id n)) (map snd (foldl addNode [] (node_records ?c paths))). fn_value n)"
    by (rule sum_filter_core [OF buildFlowGraph_cores(1) [OF paths refl g],
        where P' = "\<lambda>k'. prefix (kind_prefix k) (fst k')" and f' = "\<lambda>k. fst (snd (snd k))"]) (simp_all add: node_core_def)
  also have "\<dots> = (\<Sum>r\<leftarrow>filter (\<lambda>r. prefix (kind_prefix k) (pn_id (fst r))) (node_records ?c paths).
      metricValue (c_metrics (snd r)) (c_metric (snd r)))"
    by (rule node_map_sum)
  also have "\<dots> = (\<Sum>p\<leftarrow>filter (\<lambda>_. True) paths. metricValue (pp_metrics p) metric)"
    unfolding node_records_def
  proof (rule sum_records)
    fix p assume "p \<in> set paths"
    then have p: "well_path stages (pp_path p)" "distinct stages" using well by (auto simp: well_paths_def)
    show "(\<Sum>r\<leftarrow>filter (\<lambda>r. prefix (kind_prefix k) (pn_id (fst r))) (map (\<lambda>n. (n, ?c p)) (pp_path p)).
        metricValue (c_metrics (snd r)) (c_metric (snd r))) = (if True then metricValue (pp_metrics p) metric else 0)"
      using well_path_column [OF p i(1)] by (simp add: filter_map comp_def i(2))
  qed
  finally show ?thesis by simp
qed

text \<open>No row is lost unless overflowing nodes are hidden.\<close>

definition keeps_rows :: "flow_graph_options \<Rightarrow> bool" where
  "keeps_rows options \<longleftrightarrow> opt_overflowMode options \<noteq> Some Hide \<or> normalizeTopNodeLimit (opt_topNodeLimit options) = None"

lemma applyTopNodeLimit_kept:
  assumes "keeps_rows options"
  shows "applyTopNodeLimit p (buildTopNodeSets h rows metric stages (normalizeTopNodeLimit (opt_topNodeLimit options)) ctx)
    (case opt_overflowMode options of Some m \<Rightarrow> m | None \<Rightarrow> DEFAULT_FLOW_OVERFLOW_MODE) labeler \<noteq> None"
proof -
  have "(case opt_overflowMode options of Some m \<Rightarrow> m | None \<Rightarrow> DEFAULT_FLOW_OVERFLOW_MODE) \<noteq> Hide \<or>
      buildTopNodeSets h rows metric stages (normalizeTopNodeLimit (opt_topNodeLimit options)) ctx = None"
    using assms by (auto simp: keeps_rows_def buildTopNodeSets_def DEFAULT_FLOW_OVERFLOW_MODE_def split: option.split)
  then show ?thesis by (auto simp: applyTopNodeLimit_def)
qed

lemma map_filter_total: "(\<And>x. x \<in> set xs \<Longrightarrow> f x \<noteq> None) \<Longrightarrow> map g (List.map_filter f xs) = map (\<lambda>x. g (the (f x))) xs"
  by (induction xs) (auto simp: List.map_filter_def)

lemma prepared_metrics:
  assumes "keeps_rows options"
  shows "map pp_metrics (preparePaths h rows metric stages ctx options) = map rowMetrics rows"
  unfolding preparePaths_def Let_def
proof (subst map_filter_total)
  show "map_option (\<lambda>path. \<lparr>pp_path = path, pp_metrics = rowMetrics row\<rparr>)
      (applyTopNodeLimit (flowPathForStages row stages ctx)
        (buildTopNodeSets h rows metric stages (normalizeTopNodeLimit (opt_topNodeLimit options)) ctx)
        (case opt_overflowMode options of None \<Rightarrow> DEFAULT_FLOW_OVERFLOW_MODE | Some m \<Rightarrow> m)
        (opt_otherNodeLabel options)) \<noteq> None" for row
    using applyTopNodeLimit_kept [OF assms] by simp
  show "map (\<lambda>x. pp_metrics (the (map_option (\<lambda>path. \<lparr>pp_path = path, pp_metrics = rowMetrics x\<rparr>)
      (applyTopNodeLimit (flowPathForStages x stages ctx)
        (buildTopNodeSets h rows metric stages (normalizeTopNodeLimit (opt_topNodeLimit options)) ctx)
        (case opt_overflowMode options of None \<Rightarrow> DEFAULT_FLOW_OVERFLOW_MODE | Some m \<Rightarrow> m)
        (opt_otherNodeLabel options))))) rows = map rowMetrics rows"
    using applyTopNodeLimit_kept [OF assms] by (auto simp: option.map_sel)
qed

lemma buildSummary_sums:
  "metricValue (buildSummary rows) metric = (\<Sum>row\<leftarrow>rows. metricValue (rowMetrics row) metric)"
proof -
  have "metricValue (foldl (\<lambda>summary row. let metrics = rowMetrics row in
         \<lparr>m_quota = m_quota summary + m_quota metrics, m_tokens = m_tokens summary + m_tokens metrics,
          m_requests = m_requests summary + m_requests metrics\<rparr>) s rows) metric =
      metricValue s metric + (\<Sum>row\<leftarrow>rows. metricValue (rowMetrics row) metric)" for s
    by (induction rows arbitrary: s) (simp_all add: metricValue_def Let_def split: flow_metric.split)
  then show ?thesis by (simp add: buildSummary_def metricValue_def split: flow_metric.split)
qed

lemma sum_map_filter_le:
  assumes "\<And>x y. x \<in> set xs \<Longrightarrow> f x = Some y \<Longrightarrow> g y = w x" and "\<And>x. x \<in> set xs \<Longrightarrow> (0 :: int) \<le> w x"
  shows "(\<Sum>y\<leftarrow>List.map_filter f xs. g y) \<le> (\<Sum>x\<leftarrow>xs. w x)"
  using assms
proof (induction xs)
  case (Cons x xs)
  have "(\<Sum>y\<leftarrow>List.map_filter f xs. g y) \<le> (\<Sum>x\<leftarrow>xs. w x)" using Cons by simp
  then show ?case using Cons.prems [of x] by (cases "f x") (auto simp: List.map_filter_simps)
qed (simp add: List.map_filter_simps)

lemma path_sum_le:
  assumes "\<forall>row \<in> set rows. 0 \<le> metricValue (rowMetrics row) metric"
  shows "(\<Sum>p\<leftarrow>graph_paths h rows metric role visibleStages ctx options. metricValue (pp_metrics p) metric) \<le>
    (\<Sum>row\<leftarrow>rows. metricValue (rowMetrics row) metric)"
  unfolding graph_paths_def preparePaths_def Let_def using assms by (intro sum_map_filter_le) auto

lemma filtered_rows_subset: "set (filterRowsByNodes (filterRows users rows) nodes stages ctx) \<subseteq> set rows"
  by (auto simp: filterRowsByNodes_def filterRows_def Let_def split: option.split if_splits)

text \<open>
  C5: all columns of the diagram have the same total, with any user and node filter, any stages hidden and
  any limit. The total is that of the summary above the diagram unless a limit is set to hide the rest;
  then it is at most that of the summary, where no row has a negative quantity.
\<close>

theorem columns_match_summary:
  assumes "k \<in> set (resolveVisibleStages (case bo_role options of Some r \<Rightarrow> r | None \<Rightarrow> DEFAULT_FLOW_ROLE) (bo_visibleStages options))"
    and "k' \<in> set (resolveVisibleStages (case bo_role options of Some r \<Rightarrow> r | None \<Rightarrow> DEFAULT_FLOW_ROLE) (bo_visibleStages options))"
  shows "let result = buildDashboardFlowData h rows metric options;
      total = (\<lambda>k. \<Sum>n\<leftarrow>filter (\<lambda>n. fn_kind n = k) (g_nodes (pf_flow result)). fn_value n);
      summary = metricValue (pf_summary result) metric in
    total k = total k' \<and>
    (opt_overflowMode (bo_graph options) \<noteq> Some Hide \<or> normalizeTopNodeLimit (opt_topNodeLimit (bo_graph options)) = None \<longrightarrow>
       total k = summary) \<and>
    ((\<forall>row \<in> set rows. 0 \<le> metricValue (rowMetrics row) metric) \<longrightarrow> total k \<le> summary)"
proof -
  let ?role = "case bo_role options of Some r \<Rightarrow> r | None \<Rightarrow> DEFAULT_FLOW_ROLE"
  let ?rows = "filterRowsByNodes (filterRows (bo_selectedUsers options) rows) (bo_selectedNodes options)
    (resolveVisibleStages ?role (bo_visibleStages options)) (bo_deletedTokenLabel options)"
  let ?paths = "graph_paths h ?rows metric ?role (bo_visibleStages options) (bo_deletedTokenLabel options) (bo_graph options)"
  have "(\<Sum>p\<leftarrow>?paths. metricValue (pp_metrics p) metric) = (\<Sum>row\<leftarrow>?rows. metricValue (rowMetrics row) metric)"
    if "keeps_rows (bo_graph options)"
    using arg_cong [OF prepared_metrics [OF that, where rows = ?rows], of "\<lambda>ms. \<Sum>m\<leftarrow>ms. metricValue m metric"]
    by (simp add: graph_paths_def comp_def)
  moreover have "(\<Sum>p\<leftarrow>?paths. metricValue (pp_metrics p) metric) \<le> (\<Sum>row\<leftarrow>?rows. metricValue (rowMetrics row) metric)"
    if "\<forall>row \<in> set rows. 0 \<le> metricValue (rowMetrics row) metric"
    using that filtered_rows_subset by (intro path_sum_le) blast
  ultimately show ?thesis
    using graph_column_sum [OF refl refl assms(1) refl] graph_column_sum [OF refl refl assms(2) refl]
    by (simp add: buildDashboardFlowData_def buildSummary_sums keeps_rows_def Let_def)
qed

section \<open>The largest nodes of a stage\<close>

definition rank_tally :: "stage_totals \<Rightarrow> flow_path_node \<times> int \<Rightarrow> stage_totals" where
  "rank_tally = tally (\<lambda>r. pn_id (fst r)) (\<lambda>r. \<lparr>rank_node = fst r, rank_value = 0\<rparr>)
     (\<lambda>r current. current\<lparr>rank_value := rank_value current + snd r\<rparr>)"

interpretation rank: tallying "\<lambda>r. pn_id (fst r)" "\<lambda>r. \<lparr>rank_node = fst r, rank_value = 0\<rparr>"
    "\<lambda>r current. current\<lparr>rank_value := rank_value current + snd r\<rparr>" rank_value snd
  by unfold_locales simp_all

definition stage_ranks :: "flow_row list \<Rightarrow> flow_metric \<Rightarrow> flow_path_context \<Rightarrow> flow_node_kind \<Rightarrow> stage_totals" where
  "stage_ranks rows metric ctx k =
     foldl rank_tally [] (map (\<lambda>row. (NODE_BUILDERS k row ctx, metricValue (rowMetrics row) metric)) rows)"

lemma rank_step_eq:
  "rank_step v totals node =
     (case map_of totals (pn_kind node) of None \<Rightarrow> totals
      | Some st \<Rightarrow> AList.update (pn_kind node) (rank_tally st (node, v)) totals)"
  by (simp add: rank_step_def rank_tally_def tally_def split: option.split)

lemma update_table:
  "k \<in> set ks \<Longrightarrow> distinct ks \<Longrightarrow> AList.update k v (map (\<lambda>k. (k, T k)) ks) = map (\<lambda>k'. (k', if k' = k then v else T k')) ks"
proof (induction ks)
  case (Cons a ks)
  have "map (\<lambda>k'. (k', if k' = a then v else T k')) ks = map (\<lambda>k. (k, T k)) ks" if "a \<notin> set ks"
    using that by auto
  with Cons show ?case by auto
qed simp

lemma rank_row:
  assumes "distinct stages"
  shows "set ks \<subseteq> set stages \<Longrightarrow> distinct ks \<Longrightarrow>
    foldl (rank_step v) (map (\<lambda>k. (k, T k)) stages) (map (\<lambda>k. NODE_BUILDERS k row ctx) ks) =
    map (\<lambda>k. (k, if k \<in> set ks then rank_tally (T k) (NODE_BUILDERS k row ctx, v) else T k)) stages"
proof (induction ks arbitrary: T)
  case (Cons a ks)
  let ?T = "\<lambda>k. if k = a then rank_tally (T a) (NODE_BUILDERS a row ctx, v) else T k"
  have "rank_step v (map (\<lambda>k. (k, T k)) stages) (NODE_BUILDERS a row ctx) = map (\<lambda>k. (k, ?T k)) stages"
    using Cons.prems assms by (simp add: rank_step_eq map_of_map_restrict update_table)
  then show ?case using Cons.IH [of ?T] Cons.prems by (auto intro!: map_cong)
qed simp

lemma rank_rows:
  assumes "distinct stages"
  shows "foldl (\<lambda>totals row. foldl (rank_step (metricValue (rowMetrics row) metric)) totals (flowPathForStages row stages ctx))
      (map (\<lambda>k. (k, T k)) stages) rows =
    map (\<lambda>k. (k, foldl rank_tally (T k) (map (\<lambda>row. (NODE_BUILDERS k row ctx, metricValue (rowMetrics row) metric)) rows))) stages"
  using assms
  by (induction rows arbitrary: T) (simp_all add: flowPathForStages_def rank_row [OF assms] cong: map_cong)

lemma update_new: "k \<notin> fst ` set m \<Longrightarrow> AList.update k v m = m @ [(k, v)]"
  by (induction m) auto

lemma update_all_new:
  "distinct (map fst m @ ks) \<Longrightarrow> foldl (\<lambda>m k. AList.update k v m) m ks = m @ map (\<lambda>k. (k, v)) ks"
  by (induction ks arbitrary: m) (auto simp: update_new)

lemma empty_table: "distinct ks \<Longrightarrow> foldl (\<lambda>m k. AList.update k [] m) [] ks = map (\<lambda>k. (k, [])) ks"
  using update_all_new [of "[]" ks "[]"] by simp

definition top_ids :: "flow_host \<Rightarrow> flow_row list \<Rightarrow> flow_metric \<Rightarrow> flow_path_context \<Rightarrow> nat \<Rightarrow> flow_node_kind \<Rightarrow> jstring list" where
  "top_ids h rows metric ctx l k =
     js_Set (map (\<lambda>r. pn_id (rank_node r)) (take l (js_sort (rank_cmp h) (map snd (stage_ranks rows metric ctx k)))))"

lemma buildTopNodeSets_eq:
  assumes "distinct stages" and "0 < l"
  shows "buildTopNodeSets h rows metric stages (Some l) ctx = Some (map (\<lambda>k. (k, top_ids h rows metric ctx l k)) stages)"
  using assms rank_rows [OF assms(1), where T = "\<lambda>_. []"]
  by (simp add: buildTopNodeSets_def empty_table stage_ranks_def top_ids_def comp_def)

lemma length_js_Set: "length (js_Set xs) \<le> length xs"
  using subseq_js_Set list_emb_length by blast

lemma top_ids_length: "length (top_ids h rows metric ctx l k) \<le> l"
  unfolding top_ids_def by (rule order_trans [OF length_js_Set]) simp

lemma sorted_by_value:
  assumes "\<And>x y. cmp x y \<le> 0 \<Longrightarrow> v y \<le> v x" and "\<And>x y. cmp x y > 0 \<Longrightarrow> v x \<le> v y"
  shows "sorted_wrt (\<lambda>x y. v y \<le> (v x :: int)) (js_sort cmp xs)"
proof -
  have "sorted_wrt (\<lambda>x y. v y \<le> v x) ys \<Longrightarrow> sorted_wrt (\<lambda>x y. v y \<le> v x) (sort_insert cmp x ys)" for x ys
  proof (induction ys)
    case (Cons y ys)
    have set: "set (sort_insert cmp x zs) = insert x (set zs)" for zs
      by (metis mset_sort_insert set_mset_add_mset_insert set_mset_mset)
    show ?case
      using Cons assms [of x y] by (fastforce simp: set)
  qed simp
  then show ?thesis by (induction xs) simp_all
qed

lemma stage_rank_entry:
  assumes "(x, r) \<in> set (stage_ranks rows metric ctx k)"
  shows "pn_id (rank_node r) = x"
    and "rank_value r = (\<Sum>row\<leftarrow>filter (\<lambda>row. pn_id (NODE_BUILDERS k row ctx) = x) rows. metricValue (rowMetrics row) metric)"
proof -
  show "pn_id (rank_node r) = x"
    by (rule tally_invariant [where P = "\<lambda>x r. pn_id (rank_node r) = x", OF _ _ assms [unfolded stage_ranks_def rank_tally_def]])
      simp_all
  have "map_of (stage_ranks rows metric ctx k) x = Some r"
    using assms unfolding stage_ranks_def rank_tally_def by (intro map_of_is_SomeI distinct_keys_tally)
  then show "rank_value r = (\<Sum>row\<leftarrow>filter (\<lambda>row. pn_id (NODE_BUILDERS k row ctx) = x) rows. metricValue (rowMetrics row) metric)"
    using rank.entry_value [of "map (\<lambda>row. (NODE_BUILDERS k row ctx, metricValue (rowMetrics row) metric)) rows" x r]
    unfolding stage_ranks_def rank_tally_def by (simp add: filter_map comp_def)
qed

lemma stage_ranks_keys: "fst ` set (stage_ranks rows metric ctx k) = (\<lambda>row. pn_id (NODE_BUILDERS k row ctx)) ` set rows"
proof -
  have "fst ` set (stage_ranks rows metric ctx k) = set (map fst (stage_ranks rows metric ctx k))" by simp
  then show ?thesis unfolding stage_ranks_def rank_tally_def keys_tally_Nil by (simp add: image_image)
qed

text \<open>A node that is kept has at least the total of one that is not.\<close>

lemma top_ids_largest:
  assumes "x \<in> set (top_ids h rows metric ctx l k)" and "row \<in> set rows"
    and y: "pn_id (NODE_BUILDERS k row ctx) = y" and "y \<notin> set (top_ids h rows metric ctx l k)"
  shows "(\<Sum>row\<leftarrow>filter (\<lambda>row. pn_id (NODE_BUILDERS k row ctx) = y) rows. metricValue (rowMetrics row) metric) \<le>
    (\<Sum>row\<leftarrow>filter (\<lambda>row. pn_id (NODE_BUILDERS k row ctx) = x) rows. metricValue (rowMetrics row) metric)"
proof -
  let ?S = "stage_ranks rows metric ctx k"
  let ?R = "js_sort (rank_cmp h) (map snd ?S)"
  have sorted: "sorted_wrt (\<lambda>a b. rank_value b \<le> rank_value a) ?R"
    by (rule sorted_by_value) (auto simp: rank_cmp_def then_cmp_def split: if_splits)
  obtain a where a: "a \<in> set (take l ?R)" "x = pn_id (rank_node a)" using assms(1) by (auto simp: top_ids_def)
  have "a \<in> set ?R" using a(1) by (rule in_set_takeD)
  then obtain x' where "(x', a) \<in> set ?S" by auto
  then have xa: "(x, a) \<in> set ?S" using stage_rank_entry(1) a(2) by metis
  obtain b where yb: "(y, b) \<in> set ?S" using assms(2) y stage_ranks_keys by fastforce
  have b: "pn_id (rank_node b) = y" using stage_rank_entry(1) [OF yb] .
  have "b \<in> set ?R" using yb by force
  moreover have "b \<notin> set (take l ?R)" using assms(4) b by (auto simp: top_ids_def)
  ultimately have "b \<in> set (drop l ?R)" by (metis Un_iff append_take_drop_id set_append)
  then have "rank_value b \<le> rank_value a"
    using sorted a(1) by (metis append_take_drop_id sorted_wrt_append)
  then show ?thesis using stage_rank_entry(2) [OF xa] stage_rank_entry(2) [OF yb] by simp
qed

lemma isTop_table:
  assumes "pn_kind n \<in> set stages"
  shows "isTopFlowNode n (Some (map (\<lambda>k. (k, T k)) stages)) \<longleftrightarrow> pn_id n \<in> set (T (pn_kind n))"
  using assms by (simp add: isTopFlowNode_def map_of_map_restrict)

lemma limited_node:
  assumes "applyTopNodeLimit (flowPathForStages row stages ctx) (Some (map (\<lambda>k. (k, T k)) stages)) mode labeler = Some q"
    and "m \<in> set q"
  shows "pn_id m \<in> set (T (pn_kind m)) \<or> mode \<noteq> Hide \<and> pn_id m = OTHER_FLOW_NODE_IDS (pn_kind m)"
proof -
  have kinds: "pn_kind n \<in> set stages" if "n \<in> set (flowPathForStages row stages ctx)" for n
    using that by (auto simp: flowPathForStages_def)
  show ?thesis
    using assms kinds
    by (auto simp: applyTopNodeLimit_def isTop_table list_ex_iff otherFlowNode_def split: if_splits)
qed

lemma limited_keeps:
  assumes "mode \<noteq> Hide" and "k \<in> set stages" and "pn_id (NODE_BUILDERS k row ctx) \<in> set (T k)"
  obtains q where "applyTopNodeLimit (flowPathForStages row stages ctx) (Some (map (\<lambda>k. (k, T k)) stages)) mode labeler = Some q"
    "NODE_BUILDERS k row ctx \<in> set q"
proof -
  let ?n = "NODE_BUILDERS k row ctx" and ?path = "flowPathForStages row stages ctx" and ?S = "Some (map (\<lambda>k. (k, T k)) stages)"
  have n: "?n \<in> set ?path" using assms(2) by (simp add: flowPathForStages_def)
  have top: "isTopFlowNode ?n ?S" using assms(2,3) by (simp add: isTop_table)
  have "?n \<in> set (map (\<lambda>node. if isTopFlowNode node ?S then node else otherFlowNode (pn_kind node) labeler) ?path)"
    using n top by force
  then show thesis
    using that n assms(1) by (cases "list_ex (\<lambda>node. \<not> isTopFlowNode node ?S) ?path") (auto simp: applyTopNodeLimit_def)
qed

definition overflow_mode :: "flow_graph_options \<Rightarrow> flow_overflow_mode" where
  "overflow_mode options = (case opt_overflowMode options of Some m \<Rightarrow> m | None \<Rightarrow> DEFAULT_FLOW_OVERFLOW_MODE)"

lemma graph_paths_limited:
  assumes "normalizeTopNodeLimit (opt_topNodeLimit options) = Some l" and "stages = resolveVisibleStages role visibleStages"
  shows "graph_paths h rows metric role visibleStages ctx options = List.map_filter (\<lambda>row.
      map_option (\<lambda>path. \<lparr>pp_path = path, pp_metrics = rowMetrics row\<rparr>)
        (applyTopNodeLimit (flowPathForStages row stages ctx) (Some (map (\<lambda>k. (k, top_ids h rows metric ctx l k)) stages))
          (overflow_mode options) (opt_otherNodeLabel options))) rows"
proof -
  have "0 < l" using assms(1) by (auto simp: normalizeTopNodeLimit_def Let_def split: option.splits if_splits)
  then have "buildTopNodeSets h rows metric stages (Some l) ctx = Some (map (\<lambda>k. (k, top_ids h rows metric ctx l k)) stages)"
    using stages_distinct assms(2) by (intro buildTopNodeSets_eq) simp_all
  then show ?thesis
    by (simp add: graph_paths_def preparePaths_def Let_def assms overflow_mode_def)
qed

lemma graph_node_limited:
  assumes "normalizeTopNodeLimit (opt_topNodeLimit options) = Some l"
    and "n \<in> set (g_nodes (buildFlowGraph h rows metric role palette visibleStages ctx options))"
  shows "fn_id n \<in> set (top_ids h rows metric ctx l (fn_kind n)) \<or>
    overflow_mode options \<noteq> Hide \<and> fn_id n = OTHER_FLOW_NODE_IDS (fn_kind n)"
proof -
  let ?stages = "resolveVisibleStages role visibleStages"
  obtain p m where m: "p \<in> set (graph_paths h rows metric role visibleStages ctx options)" "m \<in> set (pp_path p)"
    "fn_id n = pn_id m" "fn_kind n = pn_kind m"
    using graph_node_values(5) [OF assms(2) refl] by blast
  obtain row where "applyTopNodeLimit (flowPathForStages row ?stages ctx)
      (Some (map (\<lambda>k. (k, top_ids h rows metric ctx l k)) ?stages)) (overflow_mode options) (opt_otherNodeLabel options) =
      Some (pp_path p)"
    using m(1) by (auto simp: graph_paths_limited [OF assms(1) refl])
  from limited_node [OF this m(2)] show ?thesis using m(3,4) by simp
qed

lemma graph_keeps_top:
  assumes "normalizeTopNodeLimit (opt_topNodeLimit options) = Some l" and mode: "overflow_mode options \<noteq> Hide"
    and k: "k \<in> set (resolveVisibleStages role visibleStages)" and row: "row \<in> set rows"
    and "pn_id (NODE_BUILDERS k row ctx) \<in> set (top_ids h rows metric ctx l k)"
  shows "pn_id (NODE_BUILDERS k row ctx) \<in> fn_id ` set (g_nodes (buildFlowGraph h rows metric role palette visibleStages ctx options))"
proof -
  let ?stages = "resolveVisibleStages role visibleStages"
  obtain q where "applyTopNodeLimit (flowPathForStages row ?stages ctx)
      (Some (map (\<lambda>k. (k, top_ids h rows metric ctx l k)) ?stages)) (overflow_mode options) (opt_otherNodeLabel options) =
      Some q" "NODE_BUILDERS k row ctx \<in> set q"
    using limited_keeps [where T = "top_ids h rows metric ctx l", OF mode k assms(5)] by blast
  then have "\<exists>p \<in> set (graph_paths h rows metric role visibleStages ctx options). passes (pn_id (NODE_BUILDERS k row ctx)) p"
    using row by (force simp: graph_paths_limited [OF assms(1) refl] passes_def)
  then show ?thesis using graph_node_ids(2) [OF refl refl] by blast
qed

text \<open>
  C6: the limit on nodes. With a limit \<open>l\<close>, a column has at most \<open>l\<close> nodes, and one more that
  collects the rest unless the rest is hidden. The nodes that stay are the largest: one that
  was collected has at most the total of one that is shown.
\<close>

theorem top_nodes_limit:
  assumes "normalizeTopNodeLimit (opt_topNodeLimit options) = Some l"
    and "stages = resolveVisibleStages role visibleStages" and "k \<in> set stages"
    and "g = buildFlowGraph h rows metric role palette visibleStages ctx options"
  shows "length (filter (\<lambda>n. fn_kind n = k) (g_nodes g)) \<le> (if overflow_mode options = Hide then l else l + 1) \<and>
    (overflow_mode options \<noteq> Hide \<longrightarrow> (\<forall>n \<in> set (g_nodes g). \<forall>row \<in> set rows.
       fn_kind n = k \<and> fn_id n \<noteq> OTHER_FLOW_NODE_IDS k \<and> pn_id (NODE_BUILDERS k row ctx) \<notin> fn_id ` set (g_nodes g) \<longrightarrow>
       (\<Sum>r\<leftarrow>filter (\<lambda>r. pn_id (NODE_BUILDERS k r ctx) = pn_id (NODE_BUILDERS k row ctx)) rows. metricValue (rowMetrics r) metric) \<le>
       (\<Sum>r\<leftarrow>filter (\<lambda>r. pn_id (NODE_BUILDERS k r ctx) = fn_id n) rows. metricValue (rowMetrics r) metric)))"
proof (intro conjI impI ballI)
  let ?top = "top_ids h rows metric ctx l" and ?N = "filter (\<lambda>n. fn_kind n = k) (g_nodes g)"
  let ?others = "if overflow_mode options = Hide then {} else {OTHER_FLOW_NODE_IDS k}"
  have shown: "fn_id n \<in> set (?top (fn_kind n)) \<or> overflow_mode options \<noteq> Hide \<and> fn_id n = OTHER_FLOW_NODE_IDS (fn_kind n)"
    if "n \<in> set (g_nodes g)" for n
    using graph_node_limited [OF assms(1)] that unfolding assms(4) by blast
  then have "card (set (map fn_id ?N)) \<le> card (set (?top k) \<union> ?others)"
    by (intro card_mono) auto
  also have "\<dots> \<le> (if overflow_mode options = Hide then l else l + 1)"
    using order_trans [OF card_length top_ids_length] card_Un_le by (auto intro: order_trans [OF card_insert_le_m1])
  finally have "card (set (map fn_id ?N)) \<le> (if overflow_mode options = Hide then l else l + 1)" .
  moreover have "distinct (map fn_id ?N)"
    using graph_node_ids(1) [OF refl assms(4)] by (rule distinct_map_filter)
  ultimately show "length ?N \<le> (if overflow_mode options = Hide then l else l + 1)"
    by (metis distinct_card length_map)
  fix n row
  assume mode: "overflow_mode options \<noteq> Hide" and n: "n \<in> set (g_nodes g)" and row: "row \<in> set rows"
    and *: "fn_kind n = k \<and> fn_id n \<noteq> OTHER_FLOW_NODE_IDS k \<and> pn_id (NODE_BUILDERS k row ctx) \<notin> fn_id ` set (g_nodes g)"
  have "pn_id (NODE_BUILDERS k row ctx) \<notin> set (?top k)"
    using graph_keeps_top [OF assms(1) mode assms(3) [unfolded assms(2)] row] * unfolding assms(4) by blast
  then show "(\<Sum>r\<leftarrow>filter (\<lambda>r. pn_id (NODE_BUILDERS k r ctx) = pn_id (NODE_BUILDERS k row ctx)) rows. metricValue (rowMetrics r) metric) \<le>
       (\<Sum>r\<leftarrow>filter (\<lambda>r. pn_id (NODE_BUILDERS k r ctx) = fn_id n) rows. metricValue (rowMetrics r) metric)"
    using top_ids_largest [OF _ row refl] shown [OF n] * by metis
qed

end
