(* ===== verification/Flow_View.thy ===== *)
theory Flow_View
  imports Flow_Graph
begin

text \<open>
  How the diagram of the dashboard is presented: masking of names, highlighting of the paths
  through a selected node or link, shares of the total, the options of the filters, and the
  order in which links are drawn.
\<close>

section \<open>Masking\<close>

text \<open>A link without its labels; a node without its label.\<close>

definition link_shape :: "flow_link \<Rightarrow> flow_link" where
  "link_shape l = l\<lparr>fl_sourceLabel := [], fl_targetLabel := []\<rparr>"

definition node_shape :: "flow_node \<Rightarrow> flow_node" where
  "node_shape n = n\<lparr>fn_label := []\<rparr>"

lemma shapes_of_mask:
  "map node_shape (map snd (fst (maskFlowGraphLabels nodes links))) = map node_shape (map snd nodes)"
  "map link_shape (map snd (snd (maskFlowGraphLabels nodes links))) = map link_shape (map snd links)"
  by (auto simp: maskFlowGraphLabels_def node_shape_def link_shape_def Let_def split: option.split)

lemma map_shape_apply:
  assumes "map shape xs = map shape ys" and "\<And>x. shape (f x) = f' (shape x)"
  shows "map shape (map f xs) = map shape (map f ys)"
proof -
  have "map shape (map f zs) = map f' (map shape zs)" for zs using assms(2) by (induction zs) simp_all
  from this [of xs] this [of ys] show ?thesis unfolding assms(1) by (rule trans [OF _ sym])
qed

lemma shapes_of_highlights:
  assumes "map node_shape (map snd nodes) = map node_shape (map snd nodes')"
    and "map link_shape (map snd links) = map link_shape (map snd links')"
  shows "map node_shape (map snd (fst (applyFlowHighlights nodes links sets))) =
      map node_shape (map snd (fst (applyFlowHighlights nodes' links' sets)))"
    and "map link_shape (map snd (snd (applyFlowHighlights nodes links sets))) =
      map link_shape (map snd (snd (applyFlowHighlights nodes' links' sets)))"
proof -
  let ?fn = "\<lambda>hn n. n\<lparr>fn_highlighted := Some (fn_id n \<in> set hn), fn_dimmed := Some (fn_id n \<notin> set hn)\<rparr>"
  let ?fl = "\<lambda>hl l. l\<lparr>fl_highlighted := Some (linkStableKey l \<in> set hl), fl_dimmed := Some (linkStableKey l \<notin> set hl)\<rparr>"
  have n: "map snd (fst (applyFlowHighlights ns ls (Some (hn, hl)))) = map (?fn hn) (map snd ns)" for ns ls hn hl
    by (auto simp: applyFlowHighlights_def Let_def)
  have l: "map snd (snd (applyFlowHighlights ns ls (Some (hn, hl)))) = map (?fl hl) (map snd ls)" for ns ls hn hl
    by (auto simp: applyFlowHighlights_def Let_def)
  show "map node_shape (map snd (fst (applyFlowHighlights nodes links sets))) =
      map node_shape (map snd (fst (applyFlowHighlights nodes' links' sets)))"
  proof (cases sets)
    case None
    then show ?thesis using assms(1) by (simp add: applyFlowHighlights_def)
  next
    case (Some s)
    then show ?thesis
      by (cases s) (simp only: n, rule map_shape_apply [OF assms(1), where f' = "?fn (fst s)"], simp add: node_shape_def)
  qed
  show "map link_shape (map snd (snd (applyFlowHighlights nodes links sets))) =
      map link_shape (map snd (snd (applyFlowHighlights nodes' links' sets)))"
  proof (cases sets)
    case None
    then show ?thesis using assms(2) by (simp add: applyFlowHighlights_def)
  next
    case (Some s)
    then show ?thesis
      by (cases s) (simp only: l, rule map_shape_apply [OF assms(2), where f' = "?fl (snd s)"],
        simp add: link_shape_def linkStableKey_def)
  qed
qed

text \<open>Sorting by a comparison that does not look at the labels.\<close>

lemma sort_shape:
  assumes "\<And>a b. cmp a b = cmp (shape a) (shape b)" and "map shape xs = map shape ys"
  shows "map shape (js_sort cmp xs) = map shape (js_sort cmp ys)"
proof -
  have ins: "map shape (sort_insert cmp x zs) = sort_insert cmp (shape x) (map shape zs)" for x zs
  proof (induction zs)
    case (Cons z zs)
    then show ?case using assms(1) [of x z] by simp
  qed simp
  have "map shape (js_sort cmp zs) = js_sort cmp (map shape zs)" for zs
    by (induction zs) (simp_all add: ins)
  then show ?thesis using assms(2) by simp
qed

lemma shape_of_shares:
  assumes "map link_shape xs = map link_shape ys"
  shows "map link_shape (assign_shares sources xs) = map link_shape (assign_shares sources ys)"
proof -
  let ?total = "\<lambda>zs. foldl (\<lambda>sum link. sum + fl_value link) 0 (filter (\<lambda>link. fl_source link \<in> set sources) zs)"
  have "foldl (\<lambda>sum link. sum + fl_value link) a (filter (\<lambda>link. fl_source link \<in> set sources) (map link_shape zs)) =
      foldl (\<lambda>sum link. sum + fl_value link) a (filter (\<lambda>link. fl_source link \<in> set sources) zs)" for a zs
    by (induction zs arbitrary: a) (simp_all add: link_shape_def)
  then have total: "?total xs = ?total ys" using assms by metis
  show ?thesis
    unfolding assign_shares_def Let_def total
    by (rule map_shape_apply [OF assms,
        where f' = "\<lambda>l. l\<lparr>fl_share := (if ?total ys > 0 then of_int (fl_value l) / of_int (?total ys) else 0)\<rparr>"])
      (simp add: link_shape_def)
qed

lemma group_map:
  assumes "\<And>x. key (f x) = key x"
  shows "foldl (tally key (\<lambda>_. []) (\<lambda>p ls. ls @ [p])) (map (\<lambda>(k, ls). (k, map f ls)) m) (map f xs) =
    map (\<lambda>(k, ls). (k, map f ls)) (foldl (tally key (\<lambda>_. []) (\<lambda>p ls. ls @ [p])) m xs)"
proof (induction xs arbitrary: m)
  case (Cons x xs)
  have "AList.update_with_aux [] (key x) (\<lambda>ls. ls @ [f x]) (map (\<lambda>(k, ls). (k, map f ls)) m) =
      map (\<lambda>(k, ls). (k, map f ls)) (AList.update_with_aux [] (key x) (\<lambda>ls. ls @ [x]) m)"
    by (induction m) auto
  then show ?case using Cons by (simp add: tally_def assms)
qed simp

lemma display_colors_shape: "display_colors h (map link_shape links) = display_colors h links"
proof -
  let ?f = "\<lambda>p. (fst p, link_shape (snd p))"
  let ?grp = "foldl (tally (\<lambda>p. fl_source (snd p)) (\<lambda>_. []) (\<lambda>p ls. ls @ [p])) []"
  define G where "G = (\<lambda>sourceLinks. let sortedLinks = js_sort (display_cmp h) sourceLinks in
      map (\<lambda>(index, (i, link)). (i, alphaColor (fl_color link) (display_alpha (length sortedLinks) index))) (enumerate 0 sortedLinks))"
  have "enumerate 0 (map link_shape links) = map ?f (enumerate 0 links)"
    by (intro nth_equalityI) (simp_all add: nth_enumerate_eq)
  then have grp: "?grp (enumerate 0 (map link_shape links)) = map (\<lambda>(k, ls). (k, map ?f ls)) (?grp (enumerate 0 links))"
    using group_map [where f = ?f and key = "\<lambda>p. fl_source (snd p)" and m = "[]"] by (simp add: link_shape_def)
  have sort: "js_sort (display_cmp h) (map ?f ls) = map ?f (js_sort (display_cmp h) ls)" for ls
  proof -
    have "sort_insert (display_cmp h) (?f x) (map ?f zs) = map ?f (sort_insert (display_cmp h) x zs)" for x zs
      by (induction zs) (simp_all add: display_cmp_def link_shape_def linkStableKey_def)
    then show ?thesis by (induction ls) simp_all
  qed
  have G: "G (map ?f ls) = G ls" for ls
    unfolding G_def sort Let_def length_map
    by (intro nth_equalityI) (auto simp: nth_enumerate_eq link_shape_def split: prod.split)
  have colors: "display_colors h ls = concat (map (\<lambda>(_, ls). G ls) (?grp (enumerate 0 ls)))" for ls
    by (simp add: display_colors_def G_def)
  show ?thesis
    unfolding colors grp by (simp add: comp_def case_prod_unfold G)
qed

lemma shape_of_colors:
  assumes "map link_shape xs = map link_shape ys"
  shows "map link_shape (assignLinkDisplayColors h xs) = map link_shape (assignLinkDisplayColors h ys)"
proof -
  have colors: "display_colors h xs = display_colors h ys" using display_colors_shape assms by metis
  define f where "f = (\<lambda>i (link :: flow_link). case map_of (display_colors h ys) i of None \<Rightarrow> link
      | Some (color, alpha) \<Rightarrow> link\<lparr>fl_linkColor := color, fl_linkAlpha := alpha, fl_hoverColor := fl_color link\<rparr>)"
  have "link_shape (f i l) = f i (link_shape l)" for i l
    by (simp add: f_def link_shape_def split: option.split)
  then have "map link_shape (map (\<lambda>(i, l). f i l) (enumerate 0 zs)) = map (\<lambda>(i, l). f i l) (enumerate 0 (map link_shape zs))" for zs
    by (intro nth_equalityI) (simp_all add: nth_enumerate_eq)
  then show ?thesis
    unfolding assignLinkDisplayColors_def colors f_def [symmetric] using assms by simp
qed

text \<open>The steps of \<open>buildFlowGraph\<close> on the two maps.\<close>

lemma buildFlowGraph_form:
  assumes paths: "paths = graph_paths h rows metric role visibleStages ctx options"
    and c: "c = graph_contribution h rows metric role palette visibleStages ctx options"
    and maps: "maps = (foldl addNode [] (node_records c paths), foldl addLink [] (link_records c paths))"
    and masked: "masked = (if opt_maskSensitive options then maskFlowGraphLabels (fst maps) (snd maps) else maps)"
    and marked: "marked = applyFlowHighlights (fst masked) (snd masked) (buildFlowHighlightSets paths (opt_activeNode options)
      (opt_activeLink options) (resolveVisibleStages role visibleStages))"
  shows "buildFlowGraph h rows metric role palette visibleStages ctx options =
    \<lparr>g_nodes = js_sort (byValueThenLabel h) (map snd (fst marked)),
     g_links = assignLinkDisplayColors h (assign_shares (js_Set (first_ids paths)) (js_sort (link_cmp h) (map snd (snd marked))))\<rparr>"
  unfolding marked masked maps
  by (simp add: buildFlowGraph_def paths graph_paths_def c graph_contribution_def foldl_add_path Let_def case_prod_unfold)

definition node_text :: "flow_node \<Rightarrow> jstring \<times> flow_node_kind \<times> jstring" where
  "node_text n = (fn_id n, fn_kind n, fn_label n)"

definition link_text :: "flow_link \<Rightarrow> jstring \<times> jstring \<times> jstring \<times> jstring" where
  "link_text l = (fl_source l, fl_target l, fl_sourceLabel l, fl_targetLabel l)"

lemma texts_of_highlights:
  "map node_text (map snd (fst (applyFlowHighlights nodes links sets))) = map node_text (map snd nodes)"
  "map link_text (map snd (snd (applyFlowHighlights nodes links sets))) = map link_text (map snd links)"
  by (auto simp: applyFlowHighlights_def node_text_def link_text_def Let_def split: option.split)

lemma text_of_shares: "map link_text (assign_shares sources links) = map link_text links"
  by (simp add: assign_shares_def link_text_def Let_def comp_def)

lemma text_of_colors: "map link_text (assignLinkDisplayColors h links) = map link_text links"
  by (intro nth_equalityI)
    (auto simp: assignLinkDisplayColors_def link_text_def nth_enumerate_eq split: option.split)

lemma graph_texts:
  assumes "maps = (foldl addNode [] (node_records c paths), foldl addLink [] (link_records c paths))"
    and "paths = graph_paths h rows metric role visibleStages ctx options"
    and "c = graph_contribution h rows metric role palette visibleStages ctx options"
    and "g = buildFlowGraph h rows metric role palette visibleStages ctx options"
    and "masked = (if opt_maskSensitive options then maskFlowGraphLabels (fst maps) (snd maps) else maps)"
  shows "node_text ` set (g_nodes g) = node_text ` set (map snd (fst masked))"
    and "link_text ` set (g_links g) = link_text ` set (map snd (snd masked))"
proof -
  let ?H = "applyFlowHighlights (fst masked) (snd masked) (buildFlowHighlightSets paths (opt_activeNode options)
      (opt_activeLink options) (resolveVisibleStages role visibleStages))"
  note g = assms(4) [unfolded buildFlowGraph_form [OF assms(2,3,1,5) refl]]
  have "set (map node_text (g_nodes g)) = set (map node_text (map snd (fst ?H)))" unfolding g by (simp add: image_image)
  then show "node_text ` set (g_nodes g) = node_text ` set (map snd (fst masked))"
    unfolding texts_of_highlights by (simp add: image_image)
  have "set (map link_text (g_links g)) = set (map link_text (map snd (snd ?H)))"
    unfolding g flow_graph.simps text_of_colors text_of_shares by (simp add: image_image)
  then show "link_text ` set (g_links g) = link_text ` set (map snd (snd masked))"
    unfolding texts_of_highlights by (simp add: image_image)
qed

lemma maskedById_lookup:
  assumes "x \<in> fn_id ` set ns"
  obtains m where "map_of (foldl (\<lambda>m node. AList.update (fn_id node) (maskFlowLabel (fn_label node)) m) m0 ns) x = Some m"
    "m \<in> {[], FLOW_MASK_TEXT}"
proof -
  have "map_of (foldl (\<lambda>m node. AList.update (fn_id node) (maskFlowLabel (fn_label node)) m) m0 ns) x \<in> Some ` {[], FLOW_MASK_TEXT}"
    if "x \<in> fn_id ` set ns \<or> map_of m0 x \<in> Some ` {[], FLOW_MASK_TEXT}" for m0
    using that
  proof (induction ns arbitrary: m0)
    case (Cons n ns)
    show ?case unfolding foldl.simps
      by (rule Cons.IH) (use Cons.prems in \<open>auto simp: update_conv maskFlowLabel_def\<close>)
  qed simp
  then show thesis using that assms by blast
qed

lemma masked_texts:
  assumes "M = maskFlowGraphLabels nodes links"
  shows "n \<in> set (map snd (fst M)) \<Longrightarrow> masks n \<Longrightarrow> fn_label n \<in> {[], FLOW_MASK_TEXT}"
    and "l \<in> set (map snd (snd M)) \<Longrightarrow> n \<in> set (map snd (fst M)) \<Longrightarrow> masks n \<Longrightarrow>
      (fl_source l = fn_id n \<longrightarrow> fl_sourceLabel l \<in> {[], FLOW_MASK_TEXT}) \<and>
      (fl_target l = fn_id n \<longrightarrow> fl_targetLabel l \<in> {[], FLOW_MASK_TEXT})"
proof -
  let ?ids = "foldl (\<lambda>m node. AList.update (fn_id node) (maskFlowLabel (fn_label node)) m) [] (filter masks (map snd nodes))"
  have node: "\<exists>n'. n' \<in> set (map snd nodes) \<and> fn_id n' = fn_id n \<and> masks n' = masks n \<and>
      fn_label n = (if masks n' then maskFlowLabel (fn_label n') else fn_label n')"
    if n: "n \<in> set (map snd (fst M))" for n
  proof -
    obtain n' where "n' \<in> set (map snd nodes)" "n = (if masks n' then n'\<lparr>fn_label := maskFlowLabel (fn_label n')\<rparr> else n')"
      using n by (force simp: assms maskFlowGraphLabels_def Let_def split: if_splits)
    then show ?thesis by (intro exI [of _ n']) (simp add: masks_def)
  qed
  show "n \<in> set (map snd (fst M)) \<Longrightarrow> masks n \<Longrightarrow> fn_label n \<in> {[], FLOW_MASK_TEXT}"
    using node [of n] by (auto simp: maskFlowLabel_def)
  assume l: "l \<in> set (map snd (snd M))" and n: "n \<in> set (map snd (fst M))" "masks n"
  have "fn_id n \<in> fn_id ` set (filter masks (map snd nodes))"
  proof -
    obtain n' where "n' \<in> set (map snd nodes)" "fn_id n' = fn_id n" "masks n'" using node [OF n(1)] n(2) by blast
    then show ?thesis using imageI [of n' "set (filter masks (map snd nodes))" fn_id] by simp
  qed
  then obtain m where m: "map_of ?ids (fn_id n) = Some m" "m \<in> {[], FLOW_MASK_TEXT}" by (rule maskedById_lookup)
  then have "?ids \<noteq> []" by auto
  then obtain l' where "l = (let link1 = (case map_of ?ids (fl_source l') of Some m \<Rightarrow> l'\<lparr>fl_sourceLabel := m\<rparr> | None \<Rightarrow> l') in
      case map_of ?ids (fl_target link1) of Some m \<Rightarrow> link1\<lparr>fl_targetLabel := m\<rparr> | None \<Rightarrow> link1)"
    using l by (auto simp: assms maskFlowGraphLabels_def Let_def)
  then show "(fl_source l = fn_id n \<longrightarrow> fl_sourceLabel l \<in> {[], FLOW_MASK_TEXT}) \<and>
      (fl_target l = fn_id n \<longrightarrow> fl_targetLabel l \<in> {[], FLOW_MASK_TEXT})"
    using m by (auto simp: Let_def split: option.splits)
qed

lemma masked_names:
  assumes "opt_maskSensitive options" and "g = buildFlowGraph h rows metric role palette visibleStages ctx options"
    and n: "n \<in> set (g_nodes g)" "masks n"
  shows "fn_label n \<in> {[], FLOW_MASK_TEXT}"
    and "l \<in> set (g_links g) \<Longrightarrow> (fl_source l = fn_id n \<longrightarrow> fl_sourceLabel l \<in> {[], FLOW_MASK_TEXT}) \<and>
      (fl_target l = fn_id n \<longrightarrow> fl_targetLabel l \<in> {[], FLOW_MASK_TEXT})"
proof -
  define paths where paths: "paths = graph_paths h rows metric role visibleStages ctx options"
  define c where c: "c = graph_contribution h rows metric role palette visibleStages ctx options"
  define maps where maps: "maps = (foldl addNode [] (node_records c paths), foldl addLink [] (link_records c paths))"
  let ?M = "maskFlowGraphLabels (fst maps) (snd maps)"
  have M: "?M = (if opt_maskSensitive options then ?M else maps)" using assms(1) by simp
  note texts = graph_texts [OF maps paths c assms(2) M]
  obtain n' where n': "n' \<in> set (map snd (fst ?M))" "node_text n = node_text n'"
    using imageI [OF n(1), of node_text, unfolded texts(1)] by (rule imageE)
  have m: "masks n'" using n(2) n'(2) by (simp add: masks_def node_text_def)
  show "fn_label n \<in> {[], FLOW_MASK_TEXT}"
    using masked_texts(1) [OF refl n'(1) m] n'(2) by (simp add: node_text_def)
  assume l: "l \<in> set (g_links g)"
  obtain l' where l': "l' \<in> set (map snd (snd ?M))" "link_text l = link_text l'"
    using imageI [OF l, of link_text, unfolded texts(2)] by (rule imageE)
  show "(fl_source l = fn_id n \<longrightarrow> fl_sourceLabel l \<in> {[], FLOW_MASK_TEXT}) \<and>
      (fl_target l = fn_id n \<longrightarrow> fl_targetLabel l \<in> {[], FLOW_MASK_TEXT})"
    using masked_texts(2) [OF refl l'(1) n'(1) m] n'(2) l'(2) by (simp add: node_text_def link_text_def)
qed

lemma masked_shapes:
  assumes "opt_maskSensitive options"
    and "g = buildFlowGraph h rows metric role palette visibleStages ctx options"
    and "plain = buildFlowGraph h rows metric role palette visibleStages ctx (options\<lparr>opt_maskSensitive := False\<rparr>)"
  shows "map link_shape (g_links g) = map link_shape (g_links plain)"
    and "mset (map node_shape (g_nodes g)) = mset (map node_shape (g_nodes plain))"
proof -
  let ?o = "options\<lparr>opt_maskSensitive := False\<rparr>"
  define paths where paths: "paths = graph_paths h rows metric role visibleStages ctx options"
  define c where c: "c = graph_contribution h rows metric role palette visibleStages ctx options"
  define maps where maps: "maps = (foldl addNode [] (node_records c paths), foldl addLink [] (link_records c paths))"
  have paths': "paths = graph_paths h rows metric role visibleStages ctx ?o"
    by (simp add: paths graph_paths_def preparePaths_def)
  have c': "c = graph_contribution h rows metric role palette visibleStages ctx ?o"
    unfolding c graph_contribution_def by (simp only: paths [symmetric] paths' [symmetric])
  let ?sets = "buildFlowHighlightSets paths (opt_activeNode options) (opt_activeLink options) (resolveVisibleStages role visibleStages)"
  let ?M = "maskFlowGraphLabels (fst maps) (snd maps)"
  have g: "g = \<lparr>g_nodes = js_sort (byValueThenLabel h) (map snd (fst (applyFlowHighlights (fst ?M) (snd ?M) ?sets))),
      g_links = assignLinkDisplayColors h (assign_shares (js_Set (first_ids paths))
        (js_sort (link_cmp h) (map snd (snd (applyFlowHighlights (fst ?M) (snd ?M) ?sets)))))\<rparr>"
    unfolding assms(2) buildFlowGraph_form [OF paths c maps refl refl] using assms(1) by simp
  have p: "plain = \<lparr>g_nodes = js_sort (byValueThenLabel h) (map snd (fst (applyFlowHighlights (fst maps) (snd maps) ?sets))),
      g_links = assignLinkDisplayColors h (assign_shares (js_Set (first_ids paths))
        (js_sort (link_cmp h) (map snd (snd (applyFlowHighlights (fst maps) (snd maps) ?sets)))))\<rparr>"
    unfolding assms(3) buildFlowGraph_form [OF paths' c' maps refl refl] by simp
  note shapes = shapes_of_highlights [OF shapes_of_mask]
  show "map link_shape (g_links g) = map link_shape (g_links plain)"
    unfolding g p flow_graph.simps
    by (intro shape_of_colors shape_of_shares sort_shape shapes) (simp add: link_cmp_def link_shape_def)
  show "mset (map node_shape (g_nodes g)) = mset (map node_shape (g_nodes plain))"
    unfolding g p flow_graph.simps mset_map mset_js_sort unfolding mset_map [symmetric] shapes ..
qed


section \<open>Highlighting\<close>

definition selected_path :: "flow_graph_options \<Rightarrow> flow_path_node list \<Rightarrow> bool" where
  "selected_path options path =
     (case opt_activeLink options of
        Some l \<Rightarrow> pathContainsFlowLink path l
      | None \<Rightarrow> (case opt_activeNode options of Some f \<Rightarrow> pathContainsFlowNode path f | None \<Rightarrow> False))"

definition selection_active :: "flow_graph_options \<Rightarrow> flow_node_kind list \<Rightarrow> bool" where
  "selection_active options stages \<longleftrightarrow> opt_activeLink options \<noteq> None \<or>
     (case opt_activeNode options of Some f \<Rightarrow> nf_kind f \<in> set stages | None \<Rightarrow> False)"

lemma highlight_sets:
  assumes "selection_active options stages" and "p \<in> set paths" and "selected_path options (pp_path p)"
  obtains hn hl where "buildFlowHighlightSets paths (opt_activeNode options) (opt_activeLink options) stages = Some (hn, hl)"
    "set hn = {x. \<exists>p \<in> set paths. selected_path options (pp_path p) \<and> passes x p}"
    "set hl = {pathLinkKey a b | a b. \<exists>p \<in> set paths. selected_path options (pp_path p) \<and> (a, b) \<in> set (path_links (pp_path p))}"
proof -
  let ?m = "filter (selected_path options) (map pp_path paths)"
  let ?hn = "js_Set (concat (map (map pn_id) ?m))"
  let ?hl = "js_Set (concat (map (\<lambda>path. map (\<lambda>(s, t). pathLinkKey s t) (path_links path)) ?m))"
  have sel: "(\<lambda>path. case opt_activeLink options of Some l \<Rightarrow> pathContainsFlowLink path l
      | None \<Rightarrow> (case opt_activeNode options of Some f \<Rightarrow> pathContainsFlowNode path f | None \<Rightarrow> False)) = selected_path options"
    by (simp add: fun_eq_iff selected_path_def)
  have "pp_path p \<noteq> []"
    using assms(3) by (auto simp: selected_path_def pathContainsFlowLink_def pathContainsFlowNode_def path_links_def
        split: option.splits)
  then have "?hn \<noteq> []" using assms(2,3) by (force simp: filter_empty_conv)
  moreover have "\<not> (\<not> (case opt_activeNode options of Some f \<Rightarrow> nf_kind f \<in> set stages | None \<Rightarrow> False) \<and> opt_activeLink options = None)"
    using assms(1) by (auto simp: selection_active_def)
  ultimately have "buildFlowHighlightSets paths (opt_activeNode options) (opt_activeLink options) stages = Some (?hn, ?hl)"
    unfolding buildFlowHighlightSets_def Let_def sel by simp
  moreover have "set ?hn = {x. \<exists>p \<in> set paths. selected_path options (pp_path p) \<and> passes x p}"
    by (auto simp: passes_def)
  moreover have "k \<in> set ?hl \<longleftrightarrow> (\<exists>p \<in> set paths. selected_path options (pp_path p) \<and>
      (\<exists>e \<in> set (path_links (pp_path p)). k = pathLinkKey (fst e) (snd e)))" for k
    by (auto simp: case_prod_unfold)
  then have "set ?hl = {pathLinkKey a b | a b. \<exists>p \<in> set paths. selected_path options (pp_path p) \<and> (a, b) \<in> set (path_links (pp_path p))}"
    by fastforce
  ultimately show thesis by (rule that)
qed

definition link_flags :: "flow_link \<Rightarrow> jstring \<times> jstring \<times> bool option \<times> bool option" where
  "link_flags l = (fl_source l, fl_target l, fl_highlighted l, fl_dimmed l)"

lemma flags_of_shares: "map link_flags (assign_shares sources links) = map link_flags links"
  by (simp add: assign_shares_def link_flags_def Let_def comp_def)

lemma flags_of_colors: "map link_flags (assignLinkDisplayColors h links) = map link_flags links"
  by (intro nth_equalityI)
    (auto simp: assignLinkDisplayColors_def link_flags_def nth_enumerate_eq split: option.split)

lemma link_key_follows:
  assumes clean: "\<forall>row \<in> set rows. clean_row row"
    and paths: "paths = graph_paths h rows metric role visibleStages ctx options"
    and g: "g = buildFlowGraph h rows metric role palette visibleStages ctx options"
    and l: "l \<in> set (g_links g)" and p: "p \<in> set paths"
  shows "(\<exists>a b. linkStableKey l = pathLinkKey a b \<and> (a, b) \<in> set (path_links (pp_path p))) \<longleftrightarrow> follows (fl_source l) (fl_target l) p"
proof -
  have cp: "clean_path (pp_path q)" if "q \<in> set paths" for q using graph_paths_clean [OF clean] that paths by blast
  obtain q where "q \<in> set paths" "follows (fl_source l) (fl_target l) q"
    using imageI [OF l, of "\<lambda>l. (fl_source l, fl_target l)"] graph_link_ends(2) [OF clean paths g] by auto
  then have s: "clean (fl_source l)" using path_links_clean [OF cp] by (auto simp: follows_def)
  have "linkStableKey l = pathLinkKey a b \<longleftrightarrow> fl_source l = pn_id a \<and> fl_target l = pn_id b"
    if "(a, b) \<in> set (path_links (pp_path p))" for a b
    using key_inject [OF s] path_links_clean [OF cp [OF p] that] by (simp add: linkStableKey_def pathLinkKey_def)
  then show ?thesis by (force simp: follows_def)
qed

text \<open>
  C33: a selection lights up whole paths. With a node or a link selected that some path contains, a
  node or link of the diagram is highlighted exactly if it lies on such a path, and dimmed
  otherwise.
\<close>

theorem selection_highlights_paths:
  assumes clean: "\<forall>row \<in> set rows. clean_row row"
    and g: "g = buildFlowGraph h rows metric role palette visibleStages ctx options"
    and paths: "paths = graph_paths h rows metric role visibleStages ctx options"
    and active: "selection_active options (resolveVisibleStages role visibleStages)"
    and "p \<in> set paths" and "selected_path options (pp_path p)"
  shows "(\<forall>n \<in> set (g_nodes g).
      fn_highlighted n = Some (\<exists>p \<in> set paths. selected_path options (pp_path p) \<and> passes (fn_id n) p) \<and>
      fn_dimmed n = map_option Not (fn_highlighted n)) \<and>
    (\<forall>l \<in> set (g_links g).
      fl_highlighted l = Some (\<exists>p \<in> set paths. selected_path options (pp_path p) \<and> follows (fl_source l) (fl_target l) p) \<and>
      fl_dimmed l = map_option Not (fl_highlighted l))"
proof -
  define c where c: "c = graph_contribution h rows metric role palette visibleStages ctx options"
  define maps where maps: "maps = (foldl addNode [] (node_records c paths), foldl addLink [] (link_records c paths))"
  define masked where masked: "masked = (if opt_maskSensitive options then maskFlowGraphLabels (fst maps) (snd maps) else maps)"
  obtain hn hl where sets: "buildFlowHighlightSets paths (opt_activeNode options) (opt_activeLink options)
      (resolveVisibleStages role visibleStages) = Some (hn, hl)"
    and hn: "set hn = {x. \<exists>p \<in> set paths. selected_path options (pp_path p) \<and> passes x p}"
    and hl: "set hl = {pathLinkKey a b | a b. \<exists>p \<in> set paths. selected_path options (pp_path p) \<and> (a, b) \<in> set (path_links (pp_path p))}"
    using highlight_sets [OF active assms(5,6)] .
  note form = g [unfolded buildFlowGraph_form [OF paths c maps masked refl] sets]
  have "fn_highlighted n = Some (fn_id n \<in> set hn) \<and> fn_dimmed n = map_option Not (fn_highlighted n)" if "n \<in> set (g_nodes g)" for n
    using that by (auto simp: form applyFlowHighlights_def Let_def)
  moreover have "fl_highlighted l = Some (linkStableKey l \<in> set hl) \<and> fl_dimmed l = map_option Not (fl_highlighted l)"
    if l: "l \<in> set (g_links g)" for l
  proof -
    have "link_flags l \<in> set (map link_flags (g_links g))" using l by simp
    then have "link_flags l \<in> link_flags ` snd ` set (snd (applyFlowHighlights (fst masked) (snd masked) (Some (hn, hl))))"
      unfolding form flow_graph.simps flags_of_colors flags_of_shares by simp
    then show ?thesis by (auto simp: applyFlowHighlights_def Let_def link_flags_def linkStableKey_def)
  qed
  moreover have "linkStableKey l \<in> set hl \<longleftrightarrow>
      (\<exists>p \<in> set paths. selected_path options (pp_path p) \<and> follows (fl_source l) (fl_target l) p)" if l: "l \<in> set (g_links g)" for l
    unfolding hl mem_Collect_eq using link_key_follows [OF clean paths g l] by metis
  ultimately show ?thesis unfolding hn by simp
qed

section \<open>Shares\<close>

definition path_total :: "flow_metric \<Rightarrow> prepared_path list \<Rightarrow> int" where
  "path_total metric paths = (\<Sum>p\<leftarrow>paths. metricValue (pp_metrics p) metric)"

lemma first_ids_well:
  assumes "well_paths stages paths" and "0 < length stages"
  shows "set (first_ids paths) = (\<lambda>p. pn_id (pp_path p ! 0)) ` set paths"
proof -
  have p: "pp_path p \<noteq> [] \<and> pn_id (pp_path p ! 0) \<noteq> []" if "p \<in> set paths" for p
  proof -
    have w: "well_path stages (pp_path p)" using assms(1) that by (simp add: well_paths_def)
    have "kind_prefix k \<noteq> []" for k by (simp add: kind_prefix_def)
    then show ?thesis using well_path_nth [OF w assms(2)] by fastforce
  qed
  have "(case path of [] \<Rightarrow> None | n # _ \<Rightarrow> Some (pn_id n)) = Some x \<longleftrightarrow> path \<noteq> [] \<and> pn_id (path ! 0) = x" for path x
    by (cases path) auto
  then have "set (first_ids paths) = {x. \<exists>p \<in> set paths. pp_path p \<noteq> [] \<and> pn_id (pp_path p ! 0) = x} - {[]}"
    by (auto simp: first_ids_def)
  then show ?thesis using p by auto
qed

lemma first_source_iff:
  assumes "well_paths stages paths" and "0 < length stages" and "p \<in> set paths" and "(a, b) \<in> set (path_links (pp_path p))"
  shows "pn_id a \<in> set (first_ids paths) \<longleftrightarrow> prefix (kind_prefix (stages ! 0)) (pn_id a)"
proof
  assume "pn_id a \<in> set (first_ids paths)"
  then obtain q where q: "q \<in> set paths" "pn_id a = pn_id (pp_path q ! 0)" using first_ids_well [OF assms(1,2)] by auto
  then have "well_path stages (pp_path q)" using assms(1) by (simp add: well_paths_def)
  then show "prefix (kind_prefix (stages ! 0)) (pn_id a)" using well_path_nth(3) assms(2) q(2) by metis
next
  assume pre: "prefix (kind_prefix (stages ! 0)) (pn_id a)"
  obtain j where j: "j < length (path_links (pp_path p))" "path_links (pp_path p) ! j = (a, b)"
    using assms(4) by (metis in_set_conv_nth)
  then have "j < length (pp_path p)" "pp_path p ! j = a" by (auto simp: path_links_def)
  then have "j = 0" using well_path_position [of stages "pp_path p" 0 j] assms(1-3) pre by (simp add: well_paths_def)
  then show "pn_id a \<in> set (first_ids paths)" using \<open>pp_path p ! j = a\<close> first_ids_well [OF assms(1,2)] assms(3) by auto
qed

lemma first_links_total:
  assumes "well_paths stages paths" and "2 \<le> length stages"
  shows "(\<Sum>r\<leftarrow>filter (\<lambda>r. pn_id (fst (fst r)) \<in> set (first_ids paths)) (link_records c paths). q (snd r)) = (\<Sum>p\<leftarrow>paths. q (c p))"
proof -
  let ?P = "\<lambda>x. prefix (kind_prefix (stages ! 0)) x"
  have "filter (\<lambda>r. pn_id (fst (fst r)) \<in> set (first_ids paths)) (link_records c paths) =
      filter (\<lambda>r. ?P (pn_id (fst (fst r)))) (link_records c paths)"
    using first_source_iff [OF assms(1)] assms(2) by (intro filter_cong refl) (fastforce simp: link_records_def)
  moreover have "(\<Sum>r\<leftarrow>filter (\<lambda>r. ?P (pn_id (fst (fst r)))) (link_records c paths). q (snd r)) = (\<Sum>p\<leftarrow>filter (\<lambda>_. True) paths. q (c p))"
    unfolding link_records_def
  proof (rule sum_records)
    fix p assume "p \<in> set paths"
    then have p: "well_path stages (pp_path p)" "distinct stages" using assms(1) by (auto simp: well_paths_def)
    have i: "Suc 0 < length stages" "0 < length stages" using assms(2) by auto
    have "length (pp_path p) = length stages" using p(1) by (metis length_map well_path_def)
    then have "filter (\<lambda>l. ?P (pn_id (fst l))) (path_links (pp_path p)) =
        (if ?P (pn_id (fst (path_links (pp_path p) ! 0))) then [path_links (pp_path p) ! 0] else [])"
      using i well_path_position [OF p, of 0] by (intro filter_unique) (auto simp: path_links_def)
    moreover have "?P (pn_id (fst (path_links (pp_path p) ! 0)))"
      using well_path_nth(3) [OF p(1) i(2)] \<open>length (pp_path p) = length stages\<close> i by (simp add: path_links_def)
    ultimately show "(\<Sum>r\<leftarrow>filter (\<lambda>r. ?P (pn_id (fst (fst r)))) (map (\<lambda>l. (l, c p)) (path_links (pp_path p))). q (snd r)) =
        (if True then q (c p) else 0)"
      by (simp add: filter_map comp_def)
  qed
  ultimately show ?thesis by simp
qed

definition link_share :: "flow_link \<Rightarrow> jstring \<times> int \<times> rat" where
  "link_share l = (fl_source l, fl_value l, fl_share l)"

lemma share_of_colors: "map link_share (assignLinkDisplayColors h links) = map link_share links"
  by (intro nth_equalityI)
    (auto simp: assignLinkDisplayColors_def link_share_def nth_enumerate_eq split: option.split)

lemma foldl_sum: "foldl (\<lambda>sum x. sum + f x) a xs = a + (\<Sum>x\<leftarrow>xs. f x :: int)"
  by (induction xs arbitrary: a) simp_all

lemma assign_shares_value:
  assumes "l \<in> set (assign_shares sources links)"
    and "T = (\<Sum>l\<leftarrow>filter (\<lambda>l. fl_source l \<in> set sources) (assign_shares sources links). fl_value l)"
  shows "fl_share l = (if T > 0 then of_int (fl_value l) / of_int T else 0)"
proof -
  have "T = (\<Sum>l\<leftarrow>filter (\<lambda>l. fl_source l \<in> set sources) links. fl_value l)"
    unfolding assms(2) by (rule sum_filter_core [where core = link_core and P' = "\<lambda>k. fst k \<in> set sources" and f' = "\<lambda>k. fst (snd (snd k))"])
      (simp_all only: core_of_shares, simp_all add: link_core_def)
  then show ?thesis using assms(1) by (auto simp: assign_shares_def Let_def foldl_sum)
qed

lemma graph_share:
  assumes clean: "\<forall>row \<in> set rows. clean_row row"
    and g: "g = buildFlowGraph h rows metric role palette visibleStages ctx options"
    and paths: "paths = graph_paths h rows metric role visibleStages ctx options"
    and l: "l \<in> set (g_links g)"
  shows "fl_share l = (if path_total metric paths > 0 then of_int (fl_value l) / of_int (path_total metric paths) else 0)"
proof -
  let ?c = "graph_contribution h rows metric role palette visibleStages ctx options"
  let ?F = "js_Set (first_ids paths)"
  obtain links where links: "g_links g = assignLinkDisplayColors h (assign_shares ?F links)"
    using g unfolding buildFlowGraph_form [OF paths refl refl refl refl] by simp
  let ?A = "assign_shares ?F links"
  have "link_share l \<in> set (map link_share (g_links g))" using l by simp
  then obtain l' where l': "l' \<in> set ?A" "link_share l = link_share l'" unfolding links share_of_colors by auto
  have "(\<Sum>l\<leftarrow>filter (\<lambda>l. fl_source l \<in> set ?F) ?A. fl_value l) = (\<Sum>l\<leftarrow>filter (\<lambda>l. fl_source l \<in> set ?F) (g_links g). fl_value l)"
    unfolding links by (rule sum_filter_core [where core = link_core and P' = "\<lambda>k. fst k \<in> set ?F" and f' = "\<lambda>k. fst (snd (snd k))"])
      (simp_all only: core_of_colors, simp_all add: link_core_def)
  also have "\<dots> = (\<Sum>r\<leftarrow>filter (\<lambda>r. pn_id (fst (fst r)) \<in> set (first_ids paths)) (link_records ?c paths). metricValue (c_metrics (snd r)) metric)"
    using graph_link_sum [OF clean paths refl g, of "\<lambda>e. fst e \<in> set (first_ids paths)"] by simp
  also have "\<dots> = path_total metric paths"
    using first_links_total [OF graph_paths_well stages_two, where c = ?c and q = "\<lambda>c. metricValue (c_metrics c) metric"]
    unfolding paths [symmetric] by (simp add: path_total_def paths)
  finally show ?thesis using assign_shares_value [OF l'(1) refl] l'(2) by (simp add: link_share_def)
qed

lemma first_column:
  assumes g: "g = buildFlowGraph h rows metric role palette visibleStages ctx options"
    and paths: "paths = graph_paths h rows metric role visibleStages ctx options"
    and stages: "stages = resolveVisibleStages role visibleStages"
  shows "fn_id ` {n \<in> set (g_nodes g). fn_kind n = hd stages} = set (first_ids paths)"
proof -
  have well: "well_paths stages paths" unfolding paths stages by (rule graph_paths_well)
  have len: "0 < length stages" using stages_two [of role visibleStages] unfolding stages by linarith
  then have hd: "hd stages = stages ! 0" by (simp add: hd_conv_nth)
  show ?thesis
  proof (intro equalityI subsetI)
    fix x assume "x \<in> fn_id ` {n \<in> set (g_nodes g). fn_kind n = hd stages}"
    then obtain n where n: "n \<in> set (g_nodes g)" "fn_kind n = hd stages" "x = fn_id n" by auto
    obtain p m where m: "p \<in> set paths" "m \<in> set (pp_path p)" "x = pn_id m" "pn_kind m = stages ! 0"
      using graph_node_values(5) [OF n(1) [unfolded g] paths] n(2,3) hd by auto
    have w: "well_path stages (pp_path p)" "distinct stages" using well m(1) by (auto simp: well_paths_def)
    obtain i where "i < length stages" "pn_kind m = stages ! i" "prefix (kind_prefix (stages ! i)) (pn_id m)"
      using stage_of_node [OF well m(1,2)] .
    then have "prefix (kind_prefix (stages ! 0)) x" using m(3,4) by simp
    then have "pn_id (pp_path p ! 0) = x"
      using passes_iff [OF w len] m(2,3) by (auto simp: passes_def)
    then show "x \<in> set (first_ids paths)" using first_ids_well [OF well len] m(1) by auto
  next
    fix x assume "x \<in> set (first_ids paths)"
    then obtain p where p: "p \<in> set paths" "x = pn_id (pp_path p ! 0)" using first_ids_well [OF well len] by auto
    then have w: "well_path stages (pp_path p)" using well by (auto simp: well_paths_def)
    have "passes x p" using p(2) well_path_nth(1) [OF w len] by (auto simp: passes_def)
    then have "x \<in> fn_id ` set (g_nodes g)" using graph_node_ids(2) [OF paths g] p(1) by blast
    then obtain n where n: "n \<in> set (g_nodes g)" "fn_id n = x" by auto
    obtain q m where m: "q \<in> set paths" "m \<in> set (pp_path q)" "x = pn_id m" "fn_kind n = pn_kind m"
      using graph_node_values(5) [OF n(1) [unfolded g] paths] n(2) by auto
    have "fn_kind n = stages ! 0"
      using stage_of_node [OF well m(1,2)] m(3,4) well_path_nth(3) [OF w len] p(2) kind_prefix_unique by metis
    then show "x \<in> fn_id ` {n \<in> set (g_nodes g). fn_kind n = hd stages}" using n hd by auto
  qed
qed

lemma path_sum_bounds:
  assumes "\<forall>p \<in> set paths. 0 \<le> q (pp_metrics p)"
  shows "0 \<le> path_sum q P paths \<and> path_sum q P paths \<le> (\<Sum>p\<leftarrow>paths. q (pp_metrics p))"
  using assms by (induction paths) (auto simp: path_sum_def)

lemma graph_paths_metrics:
  assumes "\<forall>row \<in> set rows. Q (rowMetrics row)" and "p \<in> set (graph_paths h rows metric role visibleStages ctx options)"
  shows "Q (pp_metrics p)"
  using assms by (auto simp: graph_paths_def preparePaths_def Let_def)

text \<open>
  C34: shares. With quantities that are not negative and some flow, the share of every link lies
  between 0 and 1, and the shares of the links that leave the first column add up to 1.
\<close>

theorem shares_add_up:
  assumes clean: "\<forall>row \<in> set rows. clean_row row"
    and g: "g = buildFlowGraph h rows metric role palette visibleStages ctx options"
    and paths: "paths = graph_paths h rows metric role visibleStages ctx options"
    and nonneg: "\<forall>row \<in> set rows. 0 \<le> metricValue (rowMetrics row) metric"
    and pos: "0 < path_total metric paths"
  shows "(\<forall>l \<in> set (g_links g). 0 \<le> fl_share l \<and> fl_share l \<le> 1) \<and>
    (\<Sum>l\<leftarrow>filter (\<lambda>l. fl_source l \<in> fn_id ` {n \<in> set (g_nodes g). fn_kind n = hd (resolveVisibleStages role visibleStages)})
       (g_links g). fl_share l) = 1"
proof
  let ?c = "graph_contribution h rows metric role palette visibleStages ctx options"
  let ?T = "path_total metric paths"
  have share: "fl_share l = of_int (fl_value l) / of_int ?T" if "l \<in> set (g_links g)" for l
    using graph_share [OF clean g paths that] pos by simp
  show "\<forall>l \<in> set (g_links g). 0 \<le> fl_share l \<and> fl_share l \<le> 1"
  proof
    fix l assume l: "l \<in> set (g_links g)"
    have "\<forall>p \<in> set paths. 0 \<le> metricValue (pp_metrics p) metric"
      using graph_paths_metrics [where Q = "\<lambda>m. 0 \<le> metricValue m metric", OF nonneg] paths by blast
    from path_sum_bounds [where q = "\<lambda>m. metricValue m metric", OF this]
    have "0 \<le> fl_value l \<and> fl_value l \<le> ?T"
      using graph_link_value [OF clean l [unfolded g] paths] by (simp add: path_total_def)
    then show "0 \<le> fl_share l \<and> fl_share l \<le> 1" using share [OF l] pos by simp
  qed
  let ?F = "set (first_ids paths)"
  have "(\<Sum>l\<leftarrow>filter (\<lambda>l. fl_source l \<in> ?F) (g_links g). fl_value l) = ?T"
    using graph_link_sum [OF clean paths refl g, of "\<lambda>e. fst e \<in> ?F"]
      first_links_total [OF graph_paths_well stages_two, where c = ?c and q = "\<lambda>c. metricValue (c_metrics c) metric"]
    unfolding paths [symmetric] by (simp add: path_total_def paths)
  moreover have "(\<Sum>l\<leftarrow>ls. fl_share l) = of_int (\<Sum>l\<leftarrow>ls. fl_value l) / of_int ?T" if "set ls \<subseteq> set (g_links g)" for ls
    using that by (induction ls) (simp_all add: share add_divide_distrib)
  ultimately show "(\<Sum>l\<leftarrow>filter (\<lambda>l. fl_source l \<in> fn_id ` {n \<in> set (g_nodes g). fn_kind n = hd (resolveVisibleStages role visibleStages)})
       (g_links g). fl_share l) = 1"
    unfolding first_column [OF g paths refl] using pos by simp
qed

section \<open>Filters and their options\<close>

lemma group_set:
  "(case map_of (foldl (tally key (\<lambda>_. []) (\<lambda>r ids. set_add ids (v r))) [] rs) k of None \<Rightarrow> {} | Some ids \<Rightarrow> set ids) =
   v ` {r \<in> set rs. key r = k}"
proof (induction rs rule: rev_induct)
  case (snoc r rs)
  let ?m = "foldl (tally key (\<lambda>_. []) (\<lambda>r ids. set_add ids (v r))) [] rs"
  show ?case
  proof (cases "key r = k")
    case True
    then have "(case map_of (tally key (\<lambda>_. []) (\<lambda>r ids. set_add ids (v r)) ?m r) k of None \<Rightarrow> {} | Some ids \<Rightarrow> set ids) =
        insert (v r) (case map_of ?m k of None \<Rightarrow> {} | Some ids \<Rightarrow> set ids)"
      by (auto simp: tally_def map_of_update_with_aux set_add_def split: option.split)
    with True snoc show ?thesis by auto
  next
    case False
    then have "map_of (tally key (\<lambda>_. []) (\<lambda>r ids. set_add ids (v r)) ?m r) k = map_of ?m k"
      by (simp add: tally_def map_of_update_with_aux)
    with False snoc show ?thesis by (auto cong: conj_cong)
  qed
qed simp

lemma foldl_skip: "foldl (\<lambda>m x. if P x then m else f m x) m xs = foldl f m (filter (\<lambda>x. \<not> P x) xs)"
  by (induction xs arbitrary: m) simp_all

definition selected_nodes :: "flow_node_filter list option \<Rightarrow> flow_node_filter list" where
  "selected_nodes sel = (case sel of Some fs \<Rightarrow> fs | None \<Rightarrow> [])"

text \<open>
  What the filters mean: for every visible kind of which some node is selected, the node of the
  row is one of the selected ones.
\<close>

definition accepts :: "flow_node_filter list \<Rightarrow> flow_node_kind list \<Rightarrow> flow_path_context \<Rightarrow> flow_row \<Rightarrow> bool" where
  "accepts fs stages ctx row \<longleftrightarrow>
     (\<forall>f \<in> set fs. nf_kind f \<in> set stages \<longrightarrow>
        (\<exists>f' \<in> set fs. nf_kind f' = nf_kind f \<and> nf_id f' = pn_id (NODE_BUILDERS (nf_kind f) row ctx)))"

lemma path_ids_of_kind:
  assumes "k \<in> set stages"
  shows "pn_id ` {n \<in> set (flowPathForStages row stages ctx). pn_kind n = k} = {pn_id (NODE_BUILDERS k row ctx)}"
  using assms by (auto simp: flowPathForStages_def)

lemma pathMatches_accepts:
  assumes "filters = normalizeSelectedNodeFilters sel stages"
  shows "pathMatchesNodeFilters (flowPathForStages row stages ctx) filters \<longleftrightarrow> accepts (selected_nodes sel) stages ctx row"
proof -
  let ?fs = "filter (\<lambda>f. nf_kind f \<in> set stages) (selected_nodes sel)"
  let ?F = "foldl (tally nf_kind (\<lambda>_. []) (\<lambda>f ids. set_add ids (nf_id f))) [] ?fs"
  let ?P = "foldl (tally pn_kind (\<lambda>_. []) (\<lambda>node ids. set_add ids (pn_id node))) [] (flowPathForStages row stages ctx)"
  have F: "filters = ?F"
    unfolding assms normalizeSelectedNodeFilters_def foldl_skip selected_nodes_def by simp
  have dist: "distinct (map fst ?F)" by (rule distinct_keys_tally)
  have keys: "fst ` set ?F = nf_kind ` set ?fs"
    by (metis keys_tally_Nil list.set_map set_js_Set)
  have entry: "set ids = nf_id ` {f \<in> set ?fs. nf_kind f = k}" if "(k, ids) \<in> set ?F" for k ids
    using group_set [of nf_kind nf_id ?fs k] map_of_is_SomeI [OF dist that] by simp
  have path: "(case map_of ?P k of None \<Rightarrow> False | Some pathIds \<Rightarrow> list_ex (\<lambda>id. id \<in> set pathIds) ids) \<longleftrightarrow>
      pn_id (NODE_BUILDERS k row ctx) \<in> set ids" if "k \<in> set stages" for k ids
    using group_set [of pn_kind pn_id "flowPathForStages row stages ctx" k] path_ids_of_kind [OF that, of row ctx]
    by (auto simp: list_ex_iff split: option.splits)
  have "pathMatchesNodeFilters (flowPathForStages row stages ctx) filters \<longleftrightarrow>
      (\<forall>(k, ids) \<in> set ?F. pn_id (NODE_BUILDERS k row ctx) \<in> set ids)"
  proof -
    have k: "fst e \<in> set stages" if "e \<in> set ?F" for e using imageI [OF that, of fst] unfolding keys by auto
    have "list_all (\<lambda>(kind, selectedIds). case map_of ?P kind of None \<Rightarrow> False
        | Some pathIds \<Rightarrow> list_ex (\<lambda>id. id \<in> set pathIds) selectedIds) ?F \<longleftrightarrow>
        (\<forall>(k, ids) \<in> set ?F. pn_id (NODE_BUILDERS k row ctx) \<in> set ids)"
      unfolding list_all_iff by (intro ball_cong refl) (simp only: case_prod_unfold path [OF k])
    then show ?thesis unfolding F pathMatchesNodeFilters_def Let_def by simp
  qed
  also have "\<dots> \<longleftrightarrow> (\<forall>k \<in> fst ` set ?F. pn_id (NODE_BUILDERS k row ctx) \<in> nf_id ` {f \<in> set ?fs. nf_kind f = k})"
    using entry by fastforce
  also have "\<dots> \<longleftrightarrow> accepts (selected_nodes sel) stages ctx row"
    unfolding keys accepts_def by (auto simp: image_iff) metis+
  finally show ?thesis .
qed

lemma filterRowsByNodes_accepts:
  "filterRowsByNodes rows sel stages ctx = filter (accepts (selected_nodes sel) stages ctx) rows"
proof (cases "normalizeSelectedNodeFilters sel stages = []")
  case True
  then have "pathMatchesNodeFilters (flowPathForStages row stages ctx) (normalizeSelectedNodeFilters sel stages)" for row
    by (simp add: pathMatchesNodeFilters_def)
  then have "accepts (selected_nodes sel) stages ctx row" for row using pathMatches_accepts [OF refl] by blast
  with True show ?thesis by (simp add: filterRowsByNodes_def)
next
  case False
  then show ?thesis by (simp add: filterRowsByNodes_def pathMatches_accepts [OF refl])
qed

interpretation option_total: tallying
    "\<lambda>row. let node = NODE_BUILDERS stage row ctx in nodeFilterKey \<lparr>nf_kind = pn_kind node, nf_id = pn_id node\<rparr>"
    "\<lambda>row. \<lparr>rank_node = NODE_BUILDERS stage row ctx, rank_value = 0\<rparr>"
    "\<lambda>row current. current\<lparr>rank_value := rank_value current + metricValue (rowMetrics row) metric\<rparr>"
    rank_value "\<lambda>row. metricValue (rowMetrics row) metric" for stage ctx metric
  by unfold_locales simp_all

lemma option_total_entry:
  assumes "(k, r) \<in> set (stage_option_totals rows metric stage ctx)"
  shows "\<exists>row \<in> set rows. rank_node r = NODE_BUILDERS stage row ctx"
    and "rank_value r = (\<Sum>row\<leftarrow>filter (\<lambda>row. pn_id (NODE_BUILDERS stage row ctx) = pn_id (rank_node r)) rows. metricValue (rowMetrics row) metric)"
proof -
  have e: "k = nodeFilterKey \<lparr>nf_kind = stage, nf_id = pn_id (rank_node r)\<rparr> \<and> (\<exists>row \<in> set rows. rank_node r = NODE_BUILDERS stage row ctx)"
    by (rule tally_invariant [where P = "\<lambda>k r. k = nodeFilterKey \<lparr>nf_kind = stage, nf_id = pn_id (rank_node r)\<rparr> \<and>
        (\<exists>row \<in> set rows. rank_node r = NODE_BUILDERS stage row ctx)", OF _ _ assms [unfolded stage_option_totals_def]])
      (auto simp: Let_def)
  then show "\<exists>row \<in> set rows. rank_node r = NODE_BUILDERS stage row ctx" by simp
  have "map_of (stage_option_totals rows metric stage ctx) k = Some r"
    using assms unfolding stage_option_totals_def by (intro map_of_is_SomeI distinct_keys_tally)
  from option_total.entry_value [OF this [unfolded stage_option_totals_def]]
  show "rank_value r = (\<Sum>row\<leftarrow>filter (\<lambda>row. pn_id (NODE_BUILDERS stage row ctx) = pn_id (rank_node r)) rows. metricValue (rowMetrics row) metric)"
    using e by (simp add: nodeFilterKey_def Let_def)
qed

text \<open>Selecting one more node of a kind none is selected of.\<close>

lemma accepts_Cons:
  assumes "nf_kind f \<in> set stages" and "\<forall>f' \<in> set fs. nf_kind f' \<noteq> nf_kind f"
  shows "accepts (f # fs) stages ctx row \<longleftrightarrow> accepts fs stages ctx row \<and> pn_id (NODE_BUILDERS (nf_kind f) row ctx) = nf_id f"
  using assms unfolding accepts_def by (auto; metis)

text \<open>
  C35: the options of the filters. Every option offered for a stage would leave something to show:
  with this node selected in the place of those of its own stage, the total of the rows that
  remain is the number shown beside the option, and there are such rows.
\<close>

theorem filter_options_exact:
  assumes "opt \<in> set (buildNodeFilterOptions h rows metric role visibleStages palette ctx selectedNodes)"
    and "stages = resolveVisibleStages role visibleStages"
    and "others = filter (\<lambda>f. nf_kind f \<noteq> no_kind opt) (case selectedNodes of Some fs \<Rightarrow> fs | None \<Rightarrow> [])"
    and "remaining = filterRowsByNodes rows (Some (\<lparr>nf_kind = no_kind opt, nf_id = no_value opt\<rparr> # others)) stages ctx"
  shows "no_kind opt \<in> set stages \<and> remaining \<noteq> [] \<and>
    no_valueRaw opt = metricValue (buildSummary remaining) metric \<and> no_valueLabel opt = number_format h (no_valueRaw opt)"
proof -
  obtain stage k r where stage: "stage \<in> set stages"
    and r: "(k, r) \<in> set (stage_option_totals (filterRowsByNodes rows (selectedNodeFiltersExceptKind selectedNodes stage) stages ctx) metric stage ctx)"
    and opt: "no_kind opt = pn_kind (rank_node r)" "no_value opt = pn_id (rank_node r)" "no_valueRaw opt = rank_value r"
      "no_valueLabel opt = number_format h (rank_value r)"
    using assms(1) unfolding buildNodeFilterOptions_def Let_def assms(2) by auto
  let ?cand = "filterRowsByNodes rows (selectedNodeFiltersExceptKind selectedNodes stage) stages ctx"
  obtain row where row: "row \<in> set ?cand" "rank_node r = NODE_BUILDERS stage row ctx" using option_total_entry(1) [OF r] by blast
  then have kind: "no_kind opt = stage" using opt(1) by simp
  have "selected_nodes (selectedNodeFiltersExceptKind selectedNodes stage) = others"
    unfolding assms(3) kind by (simp add: selected_nodes_def selectedNodeFiltersExceptKind_def Let_def)
  then have cand: "?cand = filter (accepts others stages ctx) rows" by (simp add: filterRowsByNodes_accepts)
  have acc: "accepts (\<lparr>nf_kind = no_kind opt, nf_id = no_value opt\<rparr> # others) stages ctx row \<longleftrightarrow>
      accepts others stages ctx row \<and> pn_id (NODE_BUILDERS stage row ctx) = pn_id (rank_node r)" for row
    using accepts_Cons [of "\<lparr>nf_kind = no_kind opt, nf_id = no_value opt\<rparr>" stages others ctx row] stage kind opt(2)
    by (simp add: assms(3))
  have "remaining = filter (accepts (\<lparr>nf_kind = no_kind opt, nf_id = no_value opt\<rparr> # others) stages ctx) rows"
    unfolding assms(4) filterRowsByNodes_accepts by (simp add: selected_nodes_def)
  also have "\<dots> = filter (\<lambda>row. accepts others stages ctx row \<and> pn_id (NODE_BUILDERS stage row ctx) = pn_id (rank_node r)) rows"
    by (intro filter_cong refl) (rule acc)
  finally have rem: "remaining = filter (\<lambda>row. pn_id (NODE_BUILDERS stage row ctx) = pn_id (rank_node r)) ?cand"
    unfolding cand filter_filter .
  then have "row \<in> set remaining" using row by simp
  moreover have "rank_value r = metricValue (buildSummary remaining) metric"
    using option_total_entry(2) [OF r] unfolding rem buildSummary_sums .
  ultimately show ?thesis using stage kind opt by auto
qed

section \<open>The order of drawing\<close>

text \<open>
  highlighted links are drawn above the others. When every link carries its two flags, as after
  a selection, and there are fewer than a million of them, a highlighted link has a larger
  z-index than a dimmed one, and of two links of the same kind the later in the list is above.
\<close>

theorem highlighted_drawn_above:
  assumes "\<forall>l \<in> set (g_links g). \<exists>b. fl_highlighted l = Some b \<and> fl_dimmed l = Some (\<not> b)"
    and "length (g_links g) \<le> 1000000"
    and "i < length (sankey_links h g)" and "j < length (sankey_links h g)"
    and "sankey_links h g ! i = (l, zl)" and "sankey_links h g ! j = (m, zm)"
  shows "(fl_highlighted l = Some True \<and> fl_highlighted m = Some False \<longrightarrow> zm < zl) \<and>
    (fl_highlighted l = fl_highlighted m \<and> i < j \<longrightarrow> zl < zm)"
proof -
  let ?ls = "js_sort (byLinkDrawPriority h) (filter (\<lambda>link. fl_value link > 0) (g_links g))"
  have len: "length (sankey_links h g) = length ?ls" by (simp add: sankey_links_def)
  have "length ?ls \<le> length (g_links g)" by (simp add: length_filter_le)
  then have bound: "i < 1000000" "j < 1000000" using assms(2-4) unfolding len by linarith+
  have nth: "sankey_links h g ! n = (?ls ! n, link_zIndex n (?ls ! n))" if "n < length (sankey_links h g)" for n
    using that by (simp add: sankey_links_def nth_enumerate_eq)
  have l: "l = ?ls ! i" "zl = link_zIndex i l" and m: "m = ?ls ! j" "zm = link_zIndex j m"
    using nth [OF assms(3)] nth [OF assms(4)] assms(5,6) by simp_all
  have "l \<in> set ?ls" "m \<in> set ?ls" using l(1) m(1) assms(3,4) unfolding len by (metis nth_mem)+
  then have "l \<in> set (g_links g)" "m \<in> set (g_links g)" by auto
  then obtain b b' where "fl_highlighted l = Some b" "fl_dimmed l = Some (\<not> b)" "fl_highlighted m = Some b'" "fl_dimmed m = Some (\<not> b')"
    using assms(1) by metis
  then show ?thesis using l(2) m(2) bound by (auto simp: link_zIndex_def)
qed

section \<open>Witnesses\<close>

fun compare_units :: "jstring \<Rightarrow> jstring \<Rightarrow> int" where
  "compare_units [] [] = 0"
| "compare_units [] _ = -1"
| "compare_units _ [] = 1"
| "compare_units (a # s) (b # t) = (if a < b then -1 else if b < a then 1 else compare_units s t)"

definition sample_host :: flow_host where
  "sample_host = \<lparr>localeCompare = compare_units, number_format = int_str, data_scheme = [(None, [Some (js ''#1664FF'')])]\<rparr>"

definition sample_row :: "string \<Rightarrow> string \<Rightarrow> string \<Rightarrow> int \<Rightarrow> flow_row" where
  "sample_row t g m n =
     \<lparr>row_user_id = None, row_username = None, row_node_name = None, row_use_group = Some (js g),
      row_token_id = None, row_token_name = Some (js t), row_channel_id = None, row_channel_name = None,
      row_model_name = Some (js m), row_token_used = Some n, row_count = Some 1, row_quota = Some n\<rparr>"

definition sample_rows :: "flow_row list" where
  "sample_rows = [sample_row ''b'' ''g'' ''m'' 2, sample_row ''a'' ''g'' ''m'' 2, sample_row ''c'' ''f'' ''m'' 1]"

definition sample_options :: flow_graph_options where
  "sample_options = \<lparr>opt_topNodeLimit = None, opt_overflowMode = None, opt_otherNodeLabel = None,
     opt_activeNode = Some \<lparr>nf_kind = Kind_group, nf_id = js ''group:f''\<rparr>, opt_activeLink = None, opt_maskSensitive = True\<rparr>"

definition sample_graph :: flow_graph where
  "sample_graph = buildFlowGraph sample_host sample_rows Quota Role_user None None None sample_options"

lemma sample_clean: "\<forall>row \<in> set sample_rows. clean_row row"
  by code_simp

definition sample_paths :: "prepared_path list" where
  "sample_paths = graph_paths sample_host sample_rows Quota Role_user None None sample_options"

lemma flow_graph_refines_witness:
  "length (g_nodes sample_graph) = 6 \<and>
   list_all (\<lambda>n. fn_value n = path_sum (\<lambda>m. metricValue m Quota) (passes (fn_id n)) sample_paths) (g_nodes sample_graph) \<and>
   list_all (\<lambda>l. fl_value l = path_sum (\<lambda>m. metricValue m Quota) (follows (fl_source l) (fl_target l)) sample_paths)
     (g_links sample_graph)"
proof -
  have "length (g_nodes sample_graph) = 6" by code_simp
  then show ?thesis
    using flow_graph_refines [OF sample_clean sample_paths_def sample_graph_def] unfolding list_all_iff by blast
qed

text \<open>The group in the middle column: the flow of two tokens comes in, and leaves to the model.\<close>

lemma flow_conserved_witness:
  "\<exists>n \<in> set (g_nodes sample_graph). fn_id n = js ''group:g'' \<and> fn_value n = 4 \<and>
     (\<Sum>l\<leftarrow>filter (\<lambda>l. fl_source l = fn_id n) (g_links sample_graph). fl_value l) = fn_value n \<and>
     (\<Sum>l\<leftarrow>filter (\<lambda>l. fl_target l = fn_id n) (g_links sample_graph). fl_value l) = fn_value n"
proof -
  have "list_ex (\<lambda>n. fn_id n = js ''group:g'' \<and> fn_value n = 4 \<and> fn_kind n = Kind_group) (g_nodes sample_graph)" by code_simp
  then obtain n where n: "n \<in> set (g_nodes sample_graph)" "fn_id n = js ''group:g''" "fn_value n = 4" "fn_kind n = Kind_group"
    by (auto simp: list_ex_iff)
  have "Kind_group \<noteq> last (resolveVisibleStages Role_user None)" "Kind_group \<noteq> hd (resolveVisibleStages Role_user None)"
    by code_simp+
  then show ?thesis using flow_conserved [OF sample_clean sample_graph_def refl n(1)] n by (intro bexI [of _ n]) simp_all
qed

definition sample_build :: flow_build_options where
  "sample_build = \<lparr>bo_role = None, bo_selectedUsers = None, bo_selectedNodes = Some [\<lparr>nf_kind = Kind_group, nf_id = js ''group:g''\<rparr>],
     bo_colorPalette = None, bo_visibleStages = None, bo_deletedTokenLabel = None,
     bo_graph = sample_options\<lparr>opt_topNodeLimit := Some 1\<rparr>\<rparr>"

lemma columns_match_summary_witness:
  "(\<Sum>n\<leftarrow>filter (\<lambda>n. fn_kind n = Kind_token) (g_nodes (pf_flow (buildDashboardFlowData sample_host sample_rows Quota sample_build))). fn_value n) = 4 \<and>
   metricValue (pf_summary (buildDashboardFlowData sample_host sample_rows Quota sample_build)) Quota = 4"
proof -
  have "opt_overflowMode (bo_graph sample_build) \<noteq> Some Hide" by code_simp
  moreover have "Kind_token \<in> set (resolveVisibleStages (case bo_role sample_build of Some r \<Rightarrow> r | None \<Rightarrow> DEFAULT_FLOW_ROLE)
      (bo_visibleStages sample_build))" by code_simp
  moreover have "metricValue (pf_summary (buildDashboardFlowData sample_host sample_rows Quota sample_build)) Quota = 4" by code_simp
  ultimately show ?thesis
    using columns_match_summary [of Kind_token sample_build Kind_token sample_host sample_rows Quota] by (simp add: Let_def)
qed

definition sample_limited :: flow_graph where
  "sample_limited = buildFlowGraph sample_host sample_rows Quota Role_user None None None (sample_options\<lparr>opt_topNodeLimit := Some 1\<rparr>)"

lemma top_nodes_limit_witness:
  "length (filter (\<lambda>n. fn_kind n = Kind_token) (g_nodes sample_limited)) = 2 \<and>
   length (filter (\<lambda>n. fn_kind n = Kind_token) (g_nodes sample_limited)) \<le> 1 + 1"
proof -
  have "normalizeTopNodeLimit (opt_topNodeLimit (sample_options\<lparr>opt_topNodeLimit := Some 1\<rparr>)) = Some 1"
    "Kind_token \<in> set (resolveVisibleStages Role_user None)"
    "overflow_mode (sample_options\<lparr>opt_topNodeLimit := Some 1\<rparr>) \<noteq> Hide"
    "length (filter (\<lambda>n. fn_kind n = Kind_token) (g_nodes sample_limited)) = 2"
    by code_simp+
  then show ?thesis
    using top_nodes_limit [OF _ refl _ sample_limited_def, of 1 Kind_token] by simp
qed


lemma selection_highlights_paths_witness:
  "\<exists>n \<in> set (g_nodes sample_graph). fn_id n = js ''token:a'' \<and> fn_highlighted n = Some False \<and> fn_dimmed n = Some True"
proof -
  let ?p = "sample_paths ! 2"
  have "2 < length sample_paths" by code_simp
  then have p: "?p \<in> set sample_paths" by (rule nth_mem)
  have sel: "selection_active sample_options (resolveVisibleStages Role_user None)" "selected_path sample_options (pp_path ?p)"
    by code_simp+
  have "list_ex (\<lambda>n. fn_id n = js ''token:a'') (g_nodes sample_graph)" by code_simp
  then obtain n where n: "n \<in> set (g_nodes sample_graph)" "fn_id n = js ''token:a''" by (auto simp: list_ex_iff)
  have "\<not> list_ex (\<lambda>p. selected_path sample_options (pp_path p) \<and> js ''token:a'' \<in> pn_id ` set (pp_path p)) sample_paths"
    by code_simp
  then have "\<not> (\<exists>p \<in> set sample_paths. selected_path sample_options (pp_path p) \<and> passes (fn_id n) p)"
    using n(2) by (simp add: list_ex_iff passes_def)
  then have "fn_highlighted n = Some False \<and> fn_dimmed n = Some True"
    using selection_highlights_paths [OF sample_clean sample_graph_def sample_paths_def sel(1) p sel(2)] n(1) by simp
  then show ?thesis using n by blast
qed

lemma shares_add_up_witness:
  "path_total Quota sample_paths = 5 \<and> list_all (\<lambda>l. 0 \<le> fl_share l \<and> fl_share l \<le> 1) (g_links sample_graph)"
proof -
  have "path_total Quota sample_paths = 5" "\<forall>row \<in> set sample_rows. 0 \<le> metricValue (rowMetrics row) Quota" by code_simp+
  then show ?thesis using shares_add_up [OF sample_clean sample_graph_def sample_paths_def] by (simp add: list_all_iff)
qed

lemma filter_options_exact_witness:
  "\<exists>opt \<in> set (buildNodeFilterOptions sample_host sample_rows Quota Role_user None None None None).
     no_value opt = js ''group:g'' \<and> no_valueRaw opt = 4 \<and>
     no_valueRaw opt = metricValue (buildSummary (filterRowsByNodes sample_rows
       (Some [\<lparr>nf_kind = no_kind opt, nf_id = no_value opt\<rparr>]) (resolveVisibleStages Role_user None) None)) Quota"
proof -
  have "list_ex (\<lambda>opt. no_value opt = js ''group:g'' \<and> no_valueRaw opt = 4)
    (buildNodeFilterOptions sample_host sample_rows Quota Role_user None None None None)" by code_simp
  then obtain opt where opt: "opt \<in> set (buildNodeFilterOptions sample_host sample_rows Quota Role_user None None None None)"
    "no_value opt = js ''group:g''" "no_valueRaw opt = 4"
    by (auto simp: list_ex_iff)
  have "no_valueRaw opt = metricValue (buildSummary (filterRowsByNodes sample_rows
      (Some [\<lparr>nf_kind = no_kind opt, nf_id = no_value opt\<rparr>]) (resolveVisibleStages Role_user None) None)) Quota"
    using filter_options_exact [OF opt(1) refl refl refl] by simp
  then show ?thesis using opt by blast
qed

lemma highlighted_drawn_above_witness:
  "snd (sankey_links sample_host sample_graph ! 2) < snd (sankey_links sample_host sample_graph ! 0)"
proof -
  have "list_all (\<lambda>l. fl_highlighted l \<noteq> None \<and> fl_dimmed l = map_option Not (fl_highlighted l)) (g_links sample_graph)"
    by code_simp
  then have flags: "\<forall>l \<in> set (g_links sample_graph). \<exists>b. fl_highlighted l = Some b \<and> fl_dimmed l = Some (\<not> b)"
    by (auto simp: list_all_iff)
  have "length (g_links sample_graph) \<le> 1000000" "0 < length (sankey_links sample_host sample_graph)"
    "2 < length (sankey_links sample_host sample_graph)"
    "fl_highlighted (fst (sankey_links sample_host sample_graph ! 0)) = Some True"
    "fl_highlighted (fst (sankey_links sample_host sample_graph ! 2)) = Some False"
    by code_simp+
  then show ?thesis
    using highlighted_drawn_above [OF flags, of 0 sample_host 2] by (metis prod.collapse)
qed

text \<open>
  Masking can change the order of the nodes. The nodes are sorted by value and then by label
  after the labels were masked, so that of two tokens with the same value the one named first in
  the rows comes first instead of the first in the alphabet.
\<close>

theorem masking_changes_order:
  "map fn_id (g_nodes sample_graph) \<noteq>
   map fn_id (g_nodes (buildFlowGraph sample_host sample_rows Quota Role_user None None None (sample_options\<lparr>opt_maskSensitive := False\<rparr>)))"
  by code_simp

end
