(* ===== verification/Billing_Expr.thy ===== *)
theory Billing_Expr
  imports JSON JS_Regex
begin

text \<open>
  Billing expressions: \<open>features/pricing/lib/billing-expr.ts\<close>. The price of a model is an
  expression such as \<open>(tier("base", p * 2 + c * 8)) * (header("x-fast") == "1" ? 1.5 : 1)\<close>: a base
  part made of tiers and factors for request rules. The file holds the table of variables, the reader
  of tiers, the reader of request rules, the functions that put an expression together and take it
  apart, and the printer the editor uses.

  A regular expression of the source is a \<open>regex\<close> with the same structure. A number is a decimal and
  \<open>NaN\<close> is \<open>None\<close>. The readers of request rules return a sum: \<open>Inl\<close> is the exception that
  \<open>JSON.parse\<close> throws through them, \<open>Inr None\<close> the \<open>null\<close> of the source.
\<close>

section \<open>Variables\<close>

datatype billing_side = SideInput | SideOutput | SideCondition

record billing_var =
  bv_key :: jstring
  bv_field :: "jstring option"
  bv_tierField :: "jstring option"
  bv_label :: jstring
  bv_shortLabel :: jstring
  bv_side :: billing_side
  bv_isBase :: bool
  bv_isConditionOnly :: bool
  bv_group :: "jstring option"

definition BILLING_VARS :: "billing_var list" where
  "BILLING_VARS =
    [\<lparr>bv_key = js ''p'', bv_field = Some (js ''inputPrice''), bv_tierField = Some (js ''input_unit_cost''),
      bv_label = js ''Input price'', bv_shortLabel = js ''Input'', bv_side = SideInput,
      bv_isBase = True, bv_isConditionOnly = False, bv_group = None\<rparr>,
     \<lparr>bv_key = js ''c'', bv_field = Some (js ''outputPrice''), bv_tierField = Some (js ''output_unit_cost''),
      bv_label = js ''Completion price'', bv_shortLabel = js ''Output'', bv_side = SideOutput,
      bv_isBase = True, bv_isConditionOnly = False, bv_group = None\<rparr>,
     \<lparr>bv_key = js ''len'', bv_field = None, bv_tierField = None,
      bv_label = js ''Input length'', bv_shortLabel = js ''Length'', bv_side = SideCondition,
      bv_isBase = False, bv_isConditionOnly = True, bv_group = None\<rparr>,
     \<lparr>bv_key = js ''cr'', bv_field = Some (js ''cacheReadPrice''), bv_tierField = Some (js ''cache_read_unit_cost''),
      bv_label = js ''Cache read price'', bv_shortLabel = js ''Cache Read'', bv_side = SideInput,
      bv_isBase = False, bv_isConditionOnly = False, bv_group = Some (js ''cache'')\<rparr>,
     \<lparr>bv_key = js ''cc'', bv_field = Some (js ''cacheCreatePrice''), bv_tierField = Some (js ''cache_create_unit_cost''),
      bv_label = js ''Cache create price'', bv_shortLabel = js ''Cache Write'', bv_side = SideInput,
      bv_isBase = False, bv_isConditionOnly = False, bv_group = Some (js ''cache'')\<rparr>,
     \<lparr>bv_key = js ''cc1h'', bv_field = Some (js ''cacheCreate1hPrice''), bv_tierField = Some (js ''cache_create_1h_unit_cost''),
      bv_label = js ''Cache create (1h) price'', bv_shortLabel = js ''Cache Write (1h)'', bv_side = SideInput,
      bv_isBase = False, bv_isConditionOnly = False, bv_group = Some (js ''cache'')\<rparr>,
     \<lparr>bv_key = js ''img'', bv_field = Some (js ''imagePrice''), bv_tierField = Some (js ''image_unit_cost''),
      bv_label = js ''Image input price'', bv_shortLabel = js ''Image In'', bv_side = SideInput,
      bv_isBase = False, bv_isConditionOnly = False, bv_group = Some (js ''media'')\<rparr>,
     \<lparr>bv_key = js ''img_o'', bv_field = Some (js ''imageOutputPrice''), bv_tierField = Some (js ''image_output_unit_cost''),
      bv_label = js ''Image output price'', bv_shortLabel = js ''Image Out'', bv_side = SideOutput,
      bv_isBase = False, bv_isConditionOnly = False, bv_group = Some (js ''media'')\<rparr>,
     \<lparr>bv_key = js ''ai'', bv_field = Some (js ''audioInputPrice''), bv_tierField = Some (js ''audio_input_unit_cost''),
      bv_label = js ''Audio input price'', bv_shortLabel = js ''Audio In'', bv_side = SideInput,
      bv_isBase = False, bv_isConditionOnly = False, bv_group = Some (js ''media'')\<rparr>,
     \<lparr>bv_key = js ''ao'', bv_field = Some (js ''audioOutputPrice''), bv_tierField = Some (js ''audio_output_unit_cost''),
      bv_label = js ''Audio output price'', bv_shortLabel = js ''Audio Out'', bv_side = SideOutput,
      bv_isBase = False, bv_isConditionOnly = False, bv_group = Some (js ''media'')\<rparr>]"

definition BILLING_PRICING_VARS :: "billing_var list" where
  "BILLING_PRICING_VARS = filter (\<lambda>v. \<not> bv_isConditionOnly v) BILLING_VARS"

definition BILLING_CONDITION_VARS :: "jstring list" where
  "BILLING_CONDITION_VARS = map bv_key (filter (\<lambda>v. bv_isBase v \<or> bv_isConditionOnly v) BILLING_VARS)"

definition BILLING_VAR_KEY_TO_FIELD :: "(jstring \<times> jstring) list" where
  "BILLING_VAR_KEY_TO_FIELD = obj_of (map (\<lambda>v. (bv_key v, the (bv_field v))) BILLING_PRICING_VARS)"

definition BILLING_EXTRA_VARS :: "billing_var list" where
  "BILLING_EXTRA_VARS = filter (\<lambda>v. \<not> bv_isBase v \<and> \<not> bv_isConditionOnly v) BILLING_VARS"

record cache_var =
  cv_field :: jstring
  cv_exprVar :: jstring

definition BILLING_CACHE_VAR_MAP :: "cache_var list" where
  "BILLING_CACHE_VAR_MAP = map (\<lambda>v. \<lparr>cv_field = the (bv_tierField v), cv_exprVar = bv_key v\<rparr>) BILLING_EXTRA_VARS"

text \<open>The classes \<open>[\d.eE+-]\<close> and \<open>[\d.eE+]\<close>.\<close>

definition number_unit :: "code_unit \<Rightarrow> bool" where
  "number_unit c \<longleftrightarrow> is_digit c \<or> c \<in> set (js ''.eE+-'')"

definition bound_unit :: "code_unit \<Rightarrow> bool" where
  "bound_unit c \<longleftrightarrow> is_digit c \<or> c \<in> set (js ''.eE+'')"

abbreviation rx_number :: regex where
  "rx_number \<equiv> rx_plus (RxChar number_unit)"

definition BILLING_VAR_REGEX :: regex where
  "BILLING_VAR_REGEX =
     rx_seq [RxWordBoundary, RxGroup 1 (rx_alt (map (\<lambda>v. rx_str (bv_key v)) BILLING_PRICING_VARS)),
       RxStar rx_space, rx_str (js ''*''), RxStar rx_space, RxGroup 2 rx_number]"

text \<open>
  \<open>Number(s)\<close> for a text over the class \<open>[\d.eE+-]\<close>: a sign, digits with a point, an exponent;
  \<open>None\<close> is \<open>NaN\<close>.
\<close>

definition Number_text :: "jstring \<Rightarrow> decimal option" where
  "Number_text s =
     (if s = [] then Some (0, 0)
      else
        let (sg, u) = (case s of c # r \<Rightarrow> if c = 45 then (-1, r) else if c = 43 then (1, r) else (1, s)
                       | [] \<Rightarrow> (1::int, s));
            (is, t) = span_digits u;
            (fs, v) = (case t of c # r \<Rightarrow> if c = 46 then span_digits r else ([], t) | [] \<Rightarrow> ([], t)) in
        if is = [] \<and> fs = [] then None
        else
          case parse_exp v of
            Some (x, []) \<Rightarrow> Some (dec_norm (sg * int (parse_digits (is @ fs))) (x - int (length fs)))
          | _ \<Rightarrow> None)"

text \<open>\<open>n || 0\<close> for a number.\<close>

definition or_zero :: "decimal option \<Rightarrow> decimal" where
  "or_zero n = (case n of Some d \<Rightarrow> if fst d \<noteq> 0 then d else (0, 0) | None \<Rightarrow> (0, 0))"

section \<open>Constants of request rules\<close>

definition SOURCE_PARAM :: jstring where "SOURCE_PARAM = js ''param''"
definition SOURCE_HEADER :: jstring where "SOURCE_HEADER = js ''header''"
definition SOURCE_TIME :: jstring where "SOURCE_TIME = js ''time''"

definition MATCH_EQ :: jstring where "MATCH_EQ = js ''eq''"
definition MATCH_CONTAINS :: jstring where "MATCH_CONTAINS = js ''contains''"
definition MATCH_GT :: jstring where "MATCH_GT = js ''gt''"
definition MATCH_GTE :: jstring where "MATCH_GTE = js ''gte''"
definition MATCH_LT :: jstring where "MATCH_LT = js ''lt''"
definition MATCH_LTE :: jstring where "MATCH_LTE = js ''lte''"
definition MATCH_EXISTS :: jstring where "MATCH_EXISTS = js ''exists''"
definition MATCH_RANGE :: jstring where "MATCH_RANGE = js ''range''"

definition TIME_FUNCS :: "jstring list" where
  "TIME_FUNCS = [js ''hour'', js ''minute'', js ''weekday'', js ''month'', js ''day'']"

definition NUMERIC_LITERAL_REGEX :: regex where
  "NUMERIC_LITERAL_REGEX =
     rx_seq [RxStart, rx_opt (rx_str (js ''-'')),
       rx_alt [rx_seq [rx_plus rx_digit, rx_opt (rx_str (js ''.'')), RxStar rx_digit],
               rx_seq [rx_str (js ''.''), rx_plus rx_digit]],
       rx_opt (rx_seq [rx_in (js ''eE''), rx_opt (rx_in (js ''+-'')), rx_plus rx_digit]), RxEnd]"

record param_header_condition =
  ph_source :: jstring
  ph_path :: jstring
  ph_mode :: jstring
  ph_value :: jstring

record time_condition =
  tm_timeFunc :: jstring
  tm_timezone :: jstring
  tm_mode :: jstring
  tm_value :: jstring
  tm_rangeStart :: jstring
  tm_rangeEnd :: jstring

datatype request_condition = TimeCondition time_condition | ParamHeaderCondition param_header_condition

record request_rule_group =
  rg_conditions :: "request_condition list"
  rg_multiplier :: jstring

record tier_condition =
  tc_var :: jstring
  tc_op :: jstring
  tc_value :: "decimal option"

record parsed_tier =
  pt_label :: jstring
  pt_conditions :: "tier_condition list"
  pt_fields :: "(jstring \<times> decimal) list"

section \<open>Reading tiers\<close>

text \<open>The text a group captured; an unmatched group is \<open>undefined\<close>, which the code never keeps as a text.\<close>

definition cap_text :: "rx_match \<Rightarrow> nat \<Rightarrow> jstring" where
  "cap_text m i = (case cap m i of Some s \<Rightarrow> s | None \<Rightarrow> [])"

record versioned_expr =
  ve_version :: nat
  ve_body :: jstring

definition VERSION_REGEX :: regex where
  "VERSION_REGEX = rx_seq [RxStart, rx_str (js ''v''), RxGroup 1 (rx_plus rx_digit), rx_str (js '':''),
     RxGroup 2 (RxStar rx_any), RxEnd]"

definition stripExprVersion :: "jstring \<Rightarrow> versioned_expr" where
  "stripExprVersion exprStr =
     (if exprStr = [] then \<lparr>ve_version = 1, ve_body = []\<rparr>
      else
        case rx_exec VERSION_REGEX exprStr of
          Some m \<Rightarrow> \<lparr>ve_version = parse_digits (cap_text m 1), ve_body = cap_text m 2\<rparr>
        | None \<Rightarrow> \<lparr>ve_version = 1, ve_body = exprStr\<rparr>)"

definition parseTierBody :: "jstring \<Rightarrow> (jstring \<times> decimal) list" where
  "parseTierBody bodyStr =
     (let coeffs = foldl (\<lambda>coeffs m.
            if cap_text m 1 \<in> fst ` set coeffs then coeffs
            else obj_set coeffs (cap_text m 1) (Number_text (cap_text m 2))) [] (matchAll BILLING_VAR_REGEX bodyStr) in
      foldl (\<lambda>tier (varName, field).
        obj_set tier field (or_zero (case map_of coeffs varName of Some n \<Rightarrow> n | None \<Rightarrow> None)))
        [] BILLING_VAR_KEY_TO_FIELD)"

text \<open>\<open>(?:p|c|len)\s*(?:<|<=|>|>=)\s*[\d.eE+]+\<close>\<close>

definition rx_condition :: regex where
  "rx_condition = rx_seq [rx_alt [rx_str (js ''p''), rx_str (js ''c''), rx_str (js ''len'')], RxStar rx_space,
     rx_alt [rx_str (js ''<''), rx_str (js ''<=''), rx_str (js ''>''), rx_str (js ''>='')], RxStar rx_space,
     rx_plus (RxChar bound_unit)]"

definition rx_and :: regex where
  "rx_and = rx_seq [RxStar rx_space, rx_str (js ''&&''), RxStar rx_space]"

definition condGroup :: regex where
  "condGroup = RxGroup 1 (RxSeq rx_condition (RxStar (RxSeq rx_and rx_condition)))"

definition tierRe :: regex where
  "tierRe = rx_seq [rx_opt (rx_seq [condGroup, RxStar rx_space, rx_str (js ''?''), RxStar rx_space]),
     rx_str (js ''tier(\"''), RxGroup 2 (RxStar (rx_not_in (js ''\"''))), rx_str (js ''\",''), RxStar rx_space,
     RxGroup 3 (rx_plus (rx_not_in (js '')''))), rx_str (js '')'')]"

definition CONDITION_REGEX :: regex where
  "CONDITION_REGEX = rx_seq [RxStart, RxGroup 1 (rx_alt [rx_str (js ''p''), rx_str (js ''c''), rx_str (js ''len'')]),
     RxStar rx_space,
     RxGroup 2 (rx_alt [rx_str (js ''<''), rx_str (js ''<=''), rx_str (js ''>''), rx_str (js ''>='')]), RxStar rx_space,
     RxGroup 3 (rx_plus (RxChar bound_unit)), RxEnd]"

definition read_conditions :: "jstring \<Rightarrow> tier_condition list" where
  "read_conditions condStr =
     (if condStr = [] then []
      else List.map_filter (\<lambda>cp.
        map_option (\<lambda>cm. \<lparr>tc_var = cap_text cm 1, tc_op = cap_text cm 2, tc_value = Number_text (cap_text cm 3)\<rparr>)
          (rx_exec CONDITION_REGEX (trim cp))) (rx_split rx_and condStr))"

definition parseTiersFromExpr :: "jstring \<Rightarrow> parsed_tier list" where
  "parseTiersFromExpr exprStr =
     (if exprStr = [] then []
      else
        map (\<lambda>m. \<lparr>pt_label = cap_text m 2, pt_conditions = read_conditions (cap_text m 1),
            pt_fields = parseTierBody (cap_text m 3)\<rparr>)
          (matchAll tierRe (ve_body (stripExprVersion exprStr))))"

section \<open>Reading request rules\<close>

text \<open>
  The loop of \<open>splitTopLevelMultiply\<close> and \<open>splitTopLevelAnd\<close>: \<open>cur\<close> is the part since \<open>start\<close>,
  reversed. A separator found at depth 0 ends the part and is skipped.
\<close>

function split_top_level :: "jstring \<Rightarrow> int \<Rightarrow> jstring \<Rightarrow> jstring \<Rightarrow> jstring list" where
  "split_top_level sep depth cur [] = [trim (rev cur)]"
| "split_top_level sep depth cur (c # s) =
     (let d = depth + (if c = 40 then 1 else 0) - (if c = 41 then 1 else 0) in
      if d = 0 \<and> take (length sep) (c # s) = sep
      then trim (rev cur) # split_top_level sep d [] (drop (length sep - 1) s)
      else split_top_level sep d (c # cur) s)"
  by pat_completeness auto
termination by (relation "measure (\<lambda>(sep, depth, cur, s). length s)") auto

declare split_top_level.simps(2) [simp del]

definition splitTopLevelMultiply :: "jstring \<Rightarrow> jstring list" where
  "splitTopLevelMultiply expr = nonempty (split_top_level (js '' * '') 0 [] expr)"

definition splitTopLevelAnd :: "jstring \<Rightarrow> jstring list" where
  "splitTopLevelAnd expr = nonempty (split_top_level (js '' && '') 0 [] expr)"

text \<open>\<open>None\<close> is \<open>null\<close>, also when the text is the literal \<open>null\<close>.\<close>

definition parseExprLiteral :: "jstring \<Rightarrow> jsval option" where
  "parseExprLiteral raw =
     (let txt = trim raw in
      if txt = js ''true'' \<or> txt = js ''false'' then Some (JStr txt)
      else if rx_test NUMERIC_LITERAL_REGEX txt then Some (JStr txt)
      else
        case JSON_parse txt of
          Some v \<Rightarrow> if v = JNull then None else Some v
        | None \<Rightarrow> None)"

definition rx_time_func :: regex where
  "rx_time_func = rx_alt (map rx_str TIME_FUNCS)"

text \<open>\<open>(hour|...)\("([^"]+)"\) >= ([\d.eE+-]+) \|\| \1\("\2"\) < ([\d.eE+-]+)\<close>\<close>

definition rx_time_range :: "regex list" where
  "rx_time_range =
     [RxGroup 1 rx_time_func, rx_str (js ''(\"''), RxGroup 2 (rx_plus (rx_not_in (js ''\"''))), rx_str (js ''\") >= ''),
      RxGroup 3 rx_number, rx_str (js '' || ''), RxBack 1, rx_str (js ''(\"''), RxBack 2, rx_str (js ''\") < ''),
      RxGroup 4 rx_number]"

definition TIME_RANGE_REGEX :: regex where
  "TIME_RANGE_REGEX = rx_seq (RxStart # rx_time_range @ [RxEnd])"

definition TIME_RANGE_PARENS_REGEX :: regex where
  "TIME_RANGE_PARENS_REGEX = rx_seq (RxStart # rx_str (js ''('') # rx_time_range @ [rx_str (js '')''), RxEnd])"

definition TIME_COMPARE_REGEX :: regex where
  "TIME_COMPARE_REGEX =
     rx_seq [RxStart, RxGroup 1 rx_time_func, rx_str (js ''(\"''), RxGroup 2 (rx_plus (rx_not_in (js ''\"''))),
       rx_str (js ''\") ''), RxGroup 3 (rx_alt [rx_str (js ''==''), rx_str (js ''>=''), rx_str (js ''<'')]),
       rx_str (js '' ''), RxGroup 4 rx_number, RxEnd]"

definition time_range_of :: "rx_match \<Rightarrow> request_condition" where
  "time_range_of m = TimeCondition
     \<lparr>tm_timeFunc = cap_text m 1, tm_timezone = cap_text m 2, tm_mode = MATCH_RANGE, tm_value = [],
      tm_rangeStart = cap_text m 3, tm_rangeEnd = cap_text m 4\<rparr>"

definition tryParseTimeCondition :: "jstring \<Rightarrow> request_condition option" where
  "tryParseTimeCondition expr =
     (case rx_exec TIME_RANGE_REGEX expr of
        Some m \<Rightarrow> Some (time_range_of m)
      | None \<Rightarrow>
     (case rx_exec TIME_RANGE_PARENS_REGEX expr of
        Some m \<Rightarrow> Some (time_range_of m)
      | None \<Rightarrow>
     (case rx_exec TIME_COMPARE_REGEX expr of
        Some m \<Rightarrow>
          (let opMap = [(js ''=='', MATCH_EQ), (js ''>='', MATCH_GTE), (js ''<'', MATCH_LT)] in
           Some (TimeCondition
             \<lparr>tm_timeFunc = cap_text m 1, tm_timezone = cap_text m 2,
              tm_mode = (case map_of opMap (cap_text m 3) of Some o' \<Rightarrow> o' | None \<Rightarrow> MATCH_EQ),
              tm_value = cap_text m 4, tm_rangeStart = [], tm_rangeEnd = []\<rparr>))
      | None \<Rightarrow> None)))"

text \<open>The patterns of \<open>tryParseRequestCondition\<close>, in its order.\<close>

definition HEADER_EXISTS_REGEX :: regex where
  "HEADER_EXISTS_REGEX = rx_seq [RxStart, rx_str (js ''header(\"''), RxGroup 1 (rx_plus (rx_not_in (js ''\"''))),
     rx_str (js ''\") != \"\"''), RxEnd]"

definition PARAM_EXISTS_REGEX :: regex where
  "PARAM_EXISTS_REGEX = rx_seq [RxStart, rx_str (js ''param(\"''), RxGroup 1 (rx_plus (rx_not_in (js ''\"''))),
     rx_str (js ''\") != nil''), RxEnd]"

text \<open>\<open>"(?:[^"\\]|\\.)*"\<close>, where 92 is the backslash.\<close>

definition rx_literal_unit :: regex where
  "rx_literal_unit = RxAlt (rx_not_in (92 # js ''\"'')) (RxSeq (rx_str [92]) rx_dot)"

definition rx_string_literal :: regex where
  "rx_string_literal = rx_seq [rx_str (js ''\"''), RxStar rx_literal_unit, rx_str (js ''\"'')]"

definition HEADER_CONTAINS_REGEX :: regex where
  "HEADER_CONTAINS_REGEX = rx_seq [RxStart, rx_str (js ''has(header(\"''), RxGroup 1 (rx_plus (rx_not_in (js ''\"''))),
     rx_str (js ''\"), ''), RxGroup 2 rx_string_literal, rx_str (js '')''), RxEnd]"

definition PARAM_CONTAINS_REGEX :: regex where
  "PARAM_CONTAINS_REGEX = rx_seq [RxStart, rx_str (js ''param(\"''), RxGroup 1 (rx_plus (rx_not_in (js ''\"''))),
     rx_str (js ''\") != nil && has(param(\"''), RxGroup 2 (rx_plus (rx_not_in (js ''\"''))), rx_str (js ''\"), ''),
     RxGroup 3 rx_string_literal, rx_str (js '')''), RxEnd]"

definition PARAM_COMPARE_REGEX :: regex where
  "PARAM_COMPARE_REGEX = rx_seq [RxStart, rx_str (js ''param(\"''), RxGroup 1 (rx_plus (rx_not_in (js ''\"''))),
     rx_str (js ''\") != nil && param(\"''), RxGroup 2 (rx_plus (rx_not_in (js ''\"''))), rx_str (js ''\") ''),
     RxGroup 3 (rx_alt [rx_str (js ''>''), rx_str (js ''>=''), rx_str (js ''<''), rx_str (js ''<='')]),
     rx_str (js '' ''), RxGroup 4 rx_number, RxEnd]"

definition EQUALS_REGEX :: regex where
  "EQUALS_REGEX = rx_seq [RxStart, RxGroup 1 (rx_alt [rx_str (js ''param''), rx_str (js ''header'')]), rx_str (js ''(\"''),
     RxGroup 2 (rx_plus (rx_not_in (js ''\"''))), rx_str (js ''\") == ''), RxGroup 3 (rx_plus rx_dot), RxEnd]"

definition param_header :: "jstring \<Rightarrow> jstring \<Rightarrow> jstring \<Rightarrow> jstring \<Rightarrow> request_condition" where
  "param_header source path mode v =
     ParamHeaderCondition \<lparr>ph_source = source, ph_path = path, ph_mode = mode, ph_value = v\<rparr>"

text \<open>A condition whose value is \<open>JSON.parse\<close> of a literal in quotes; the value can only be a string.\<close>

definition contains_condition :: "jstring \<Rightarrow> jstring \<Rightarrow> jstring \<Rightarrow> js_error + request_condition option" where
  "contains_condition source path literal =
     (case JSON_parse literal of
        None \<Rightarrow> Inl SyntaxError
      | Some v \<Rightarrow> Inr (Some (param_header source path MATCH_CONTAINS (to_string v))))"

definition same_group :: "rx_match option \<Rightarrow> rx_match option" where
  "same_group r = (case r of Some m \<Rightarrow> if cap m 1 = cap m 2 then Some m else None | None \<Rightarrow> None)"

definition tryParseRequestCondition :: "jstring \<Rightarrow> js_error + request_condition option" where
  "tryParseRequestCondition expr =
     (case tryParseTimeCondition expr of
        Some tc \<Rightarrow> Inr (Some tc)
      | None \<Rightarrow>
     (case rx_exec HEADER_EXISTS_REGEX expr of
        Some m \<Rightarrow> Inr (Some (param_header SOURCE_HEADER (cap_text m 1) MATCH_EXISTS []))
      | None \<Rightarrow>
     (case rx_exec PARAM_EXISTS_REGEX expr of
        Some m \<Rightarrow> Inr (Some (param_header SOURCE_PARAM (cap_text m 1) MATCH_EXISTS []))
      | None \<Rightarrow>
     (case rx_exec HEADER_CONTAINS_REGEX expr of
        Some m \<Rightarrow> contains_condition SOURCE_HEADER (cap_text m 1) (cap_text m 2)
      | None \<Rightarrow>
     (case same_group (rx_exec PARAM_CONTAINS_REGEX expr) of
        Some m \<Rightarrow> contains_condition SOURCE_PARAM (cap_text m 1) (cap_text m 3)
      | None \<Rightarrow>
     (case same_group (rx_exec PARAM_COMPARE_REGEX expr) of
        Some m \<Rightarrow>
          (let opMap = [(js ''>'', MATCH_GT), (js ''>='', MATCH_GTE), (js ''<'', MATCH_LT), (js ''<='', MATCH_LTE)] in
           Inr (Some (param_header SOURCE_PARAM (cap_text m 1) (the (map_of opMap (cap_text m 3))) (cap_text m 4))))
      | None \<Rightarrow>
     (case rx_exec EQUALS_REGEX expr of
        Some m \<Rightarrow>
          (case parseExprLiteral (cap_text m 3) of
             None \<Rightarrow> Inr None
           | Some v \<Rightarrow> Inr (Some (param_header (cap_text m 1) (cap_text m 2) MATCH_EQ (to_string v))))
      | None \<Rightarrow> Inr None)))))))"

text \<open>A loop that collects what \<open>f\<close> reads and returns \<open>null\<close> at the first failure.\<close>

fun read_all :: "('a \<Rightarrow> js_error + 'b option) \<Rightarrow> 'a list \<Rightarrow> js_error + 'b list option" where
  "read_all f [] = Inr (Some [])"
| "read_all f (x # xs) =
     (case f x of
        Inl e \<Rightarrow> Inl e
      | Inr None \<Rightarrow> Inr None
      | Inr (Some y) \<Rightarrow>
          (case read_all f xs of
             Inl e \<Rightarrow> Inl e
           | Inr r \<Rightarrow> Inr (map_option (\<lambda>ys. y # ys) r)))"

definition FACTOR_REGEX :: regex where
  "FACTOR_REGEX = rx_seq [RxStart, rx_str (js ''(''), RxGroup 1 (rx_plus rx_any), rx_str (js '' ? ''),
     RxGroup 2 rx_number, rx_str (js '' : 1)''), RxEnd]"

definition tryParseRuleGroupFactor :: "jstring \<Rightarrow> js_error + request_rule_group option" where
  "tryParseRuleGroupFactor part =
     (case rx_exec FACTOR_REGEX part of
        None \<Rightarrow> Inr None
      | Some m \<Rightarrow>
          (let conditionStr = cap_text m 1; multiplier = cap_text m 2; andParts = splitTopLevelAnd conditionStr in
           case read_all (\<lambda>ap. tryParseRequestCondition (trim ap)) andParts of
             Inl e \<Rightarrow> Inl e
           | Inr None \<Rightarrow> Inr None
           | Inr (Some conditions) \<Rightarrow>
               if conditions = [] then Inr None
               else Inr (Some \<lparr>rg_conditions = conditions, rg_multiplier = multiplier\<rparr>)))"

definition tryParseRequestRuleExpr :: "jstring \<Rightarrow> js_error + request_rule_group list option" where
  "tryParseRequestRuleExpr expr =
     (let trimmed = trim expr in
      if trimmed = [] then Inr (Some [])
      else read_all tryParseRuleGroupFactor (splitTopLevelMultiply trimmed))"

section \<open>Base part and request rules\<close>

fun parens_closed :: "int \<Rightarrow> jstring \<Rightarrow> bool" where
  "parens_closed depth [] = (depth = 0)"
| "parens_closed depth (c # s) =
     (let d = depth + (if c = 40 then 1 else 0) - (if c = 41 then 1 else 0) in
      if d = 0 \<and> s \<noteq> [] then False else parens_closed d s)"

definition hasFullOuterParens :: "jstring \<Rightarrow> bool" where
  "hasFullOuterParens expr \<longleftrightarrow>
     startsWith expr (js ''('') \<and> endsWith expr (js '')'') \<and> parens_closed 0 expr"

text \<open>The loop of \<open>unwrapOuterParens\<close>; every round takes two characters.\<close>

function unwrap_loop :: "jstring \<Rightarrow> jstring" where
  "unwrap_loop current =
     (if hasFullOuterParens current then unwrap_loop (trim (butlast (tl current))) else current)"
  by pat_completeness auto
termination
proof (relation "measure length"; clarsimp)
  fix s
  assume "hasFullOuterParens s"
  then have "s \<noteq> []" by (auto simp: hasFullOuterParens_def startsWith_def js_eval)
  then show "length (trim (butlast (tl s))) < length s"
    using length_trim [of "butlast (tl s)"] by (cases s) auto
qed

declare unwrap_loop.simps [simp del]

definition unwrapOuterParens :: "jstring \<Rightarrow> jstring" where
  "unwrapOuterParens expr = unwrap_loop (trim expr)"

record split_expr =
  se_billingExpr :: jstring
  se_requestRuleExpr :: jstring

definition is_rule_part :: "jstring \<Rightarrow> js_error + bool" where
  "is_rule_part part =
     (case tryParseRequestRuleExpr part of
        Inl e \<Rightarrow> Inl e
      | Inr None \<Rightarrow> Inr False
      | Inr (Some parsed) \<Rightarrow> Inr (parsed \<noteq> []))"

text \<open>The \<open>forEach\<close> over the parts: rule parts and base parts.\<close>

fun sort_parts :: "jstring list \<Rightarrow> js_error + (jstring list \<times> jstring list)" where
  "sort_parts [] = Inr ([], [])"
| "sort_parts (part # parts) =
     (case is_rule_part part of
        Inl e \<Rightarrow> Inl e
      | Inr b \<Rightarrow>
          (case sort_parts parts of
             Inl e \<Rightarrow> Inl e
           | Inr (ruleParts, baseParts) \<Rightarrow>
               Inr (if b then (part # ruleParts, baseParts) else (ruleParts, part # baseParts))))"

definition splitBillingExprAndRequestRules :: "jstring \<Rightarrow> js_error + split_expr" where
  "splitBillingExprAndRequestRules expr =
     (let trimmed = trim expr in
      if trimmed = [] then Inr \<lparr>se_billingExpr = [], se_requestRuleExpr = []\<rparr>
      else
        let parts = splitTopLevelMultiply trimmed in
        if length parts \<le> 1 then Inr \<lparr>se_billingExpr = trimmed, se_requestRuleExpr = []\<rparr>
        else
          case sort_parts parts of
            Inl e \<Rightarrow> Inl e
          | Inr (ruleParts, baseParts) \<Rightarrow>
              if ruleParts = [] \<or> length baseParts \<noteq> 1
              then Inr \<lparr>se_billingExpr = trimmed, se_requestRuleExpr = []\<rparr>
              else Inr \<lparr>se_billingExpr = unwrapOuterParens (hd baseParts),
                     se_requestRuleExpr = join (js '' * '') ruleParts\<rparr>)"

definition combineBillingExpr :: "jstring \<Rightarrow> jstring \<Rightarrow> jstring" where
  "combineBillingExpr baseExpr requestRuleExpr =
     (let base = trim baseExpr; rules = trim requestRuleExpr in
      if base = [] then []
      else if rules = [] then base
      else js ''('' @ base @ js '') * '' @ rules)"

section \<open>The editor of request rules\<close>

definition createEmptyCondition :: param_header_condition where
  "createEmptyCondition = \<lparr>ph_source = SOURCE_PARAM, ph_path = [], ph_mode = MATCH_EQ, ph_value = []\<rparr>"

definition createEmptyTimeCondition :: time_condition where
  "createEmptyTimeCondition =
     \<lparr>tm_timeFunc = js ''hour'', tm_timezone = js ''Asia/Shanghai'', tm_mode = MATCH_GTE, tm_value = [],
      tm_rangeStart = [], tm_rangeEnd = []\<rparr>"

definition createEmptyRuleGroup :: request_rule_group where
  "createEmptyRuleGroup = \<lparr>rg_conditions = [ParamHeaderCondition createEmptyCondition], rg_multiplier = []\<rparr>"

definition createEmptyTimeRuleGroup :: request_rule_group where
  "createEmptyTimeRuleGroup = \<lparr>rg_conditions = [TimeCondition createEmptyTimeCondition], rg_multiplier = []\<rparr>"

record match_option =
  mo_mode :: jstring
  mo_labelKey :: jstring

definition getRequestRuleMatchOptions :: "jstring \<Rightarrow> match_option list" where
  "getRequestRuleMatchOptions source =
     (if source = SOURCE_TIME then
        [\<lparr>mo_mode = MATCH_EQ, mo_labelKey = js ''Equals''\<rparr>,
         \<lparr>mo_mode = MATCH_GTE, mo_labelKey = js ''Greater than or equal''\<rparr>,
         \<lparr>mo_mode = MATCH_LT, mo_labelKey = js ''Less than''\<rparr>,
         \<lparr>mo_mode = MATCH_RANGE, mo_labelKey = js ''Overnight range''\<rparr>]
      else
        let base =
          [\<lparr>mo_mode = MATCH_EQ, mo_labelKey = js ''Equals''\<rparr>,
           \<lparr>mo_mode = MATCH_CONTAINS, mo_labelKey = js ''Contains''\<rparr>,
           \<lparr>mo_mode = MATCH_EXISTS, mo_labelKey = js ''Exists''\<rparr>] in
        if source = SOURCE_HEADER then base
        else base @
          [\<lparr>mo_mode = MATCH_GT, mo_labelKey = js ''Greater than''\<rparr>,
           \<lparr>mo_mode = MATCH_GTE, mo_labelKey = js ''Greater than or equal''\<rparr>,
           \<lparr>mo_mode = MATCH_LT, mo_labelKey = js ''Less than''\<rparr>,
           \<lparr>mo_mode = MATCH_LTE, mo_labelKey = js ''Less than or equal''\<rparr>])"

text \<open>\<open>Partial<RequestCondition>\<close>: the fields of both kinds of condition, each of them optional.\<close>

record partial_condition =
  pc_source :: "jstring option"
  pc_path :: "jstring option"
  pc_timeFunc :: "jstring option"
  pc_timezone :: "jstring option"
  pc_mode :: "jstring option"
  pc_value :: "jstring option"
  pc_rangeStart :: "jstring option"
  pc_rangeEnd :: "jstring option"

definition isTimeFunc :: "jstring option \<Rightarrow> bool" where
  "isTimeFunc v = (case v of Some f \<Rightarrow> f \<in> set TIME_FUNCS | None \<Rightarrow> False)"

text \<open>\<open>x == null ? '' : String(x)\<close> and \<open>x || d\<close> on texts.\<close>

definition text_of :: "jstring option \<Rightarrow> jstring" where
  "text_of v = (case v of Some s \<Rightarrow> s | None \<Rightarrow> [])"

definition text_or :: "jstring option \<Rightarrow> jstring \<Rightarrow> jstring" where
  "text_or v d = (case v of Some s \<Rightarrow> if s \<noteq> [] then s else d | None \<Rightarrow> d)"

definition no_condition :: partial_condition where
  "no_condition = \<lparr>pc_source = None, pc_path = None, pc_timeFunc = None, pc_timezone = None, pc_mode = None,
     pc_value = None, pc_rangeStart = None, pc_rangeEnd = None\<rparr>"

definition mode_or :: "jstring \<Rightarrow> jstring option \<Rightarrow> jstring \<Rightarrow> jstring" where
  "mode_or source mode d =
     (if list_ex (\<lambda>item. mode = Some (mo_mode item)) (getRequestRuleMatchOptions source) then text_of mode else d)"

definition normalizeCondition :: "partial_condition option \<Rightarrow> request_condition" where
  "normalizeCondition cond =
     (let c = (case cond of Some c \<Rightarrow> c | None \<Rightarrow> no_condition);
          source = (if pc_source c = Some (js ''time'') then SOURCE_TIME
                    else if pc_source c = Some (js ''header'') then SOURCE_HEADER else SOURCE_PARAM) in
      if source = SOURCE_TIME then
        TimeCondition
          \<lparr>tm_timeFunc = (if isTimeFunc (pc_timeFunc c) then text_of (pc_timeFunc c) else js ''hour''),
           tm_timezone = text_or (pc_timezone c) (js ''Asia/Shanghai''),
           tm_mode = mode_or SOURCE_TIME (pc_mode c) MATCH_GTE,
           tm_value = text_of (pc_value c), tm_rangeStart = text_of (pc_rangeStart c),
           tm_rangeEnd = text_of (pc_rangeEnd c)\<rparr>
      else
        ParamHeaderCondition
          \<lparr>ph_source = source, ph_path = text_or (pc_path c) [], ph_mode = mode_or source (pc_mode c) MATCH_EQ,
           ph_value = text_of (pc_value c)\<rparr>)"

text \<open>A condition, seen as a \<open>Partial<RequestCondition>\<close>.\<close>

fun partial_of :: "request_condition \<Rightarrow> partial_condition" where
  "partial_of (TimeCondition c) = no_condition\<lparr>pc_source := Some SOURCE_TIME, pc_timeFunc := Some (tm_timeFunc c),
     pc_timezone := Some (tm_timezone c), pc_mode := Some (tm_mode c), pc_value := Some (tm_value c),
     pc_rangeStart := Some (tm_rangeStart c), pc_rangeEnd := Some (tm_rangeEnd c)\<rparr>"
| "partial_of (ParamHeaderCondition c) = no_condition\<lparr>pc_source := Some (ph_source c), pc_path := Some (ph_path c),
     pc_mode := Some (ph_mode c), pc_value := Some (ph_value c)\<rparr>"

definition buildExprLiteral :: "jstring \<Rightarrow> jstring \<Rightarrow> jstring" where
  "buildExprLiteral mode v =
     (let txt = trim v in
      if mode = MATCH_CONTAINS then JSON_stringify (JStr txt)
      else if txt = js ''true'' \<or> txt = js ''false'' then txt
      else if rx_test NUMERIC_LITERAL_REGEX txt then txt
      else JSON_stringify (JStr txt))"

definition build_time_expr :: "time_condition \<Rightarrow> jstring" where
  "build_time_expr normalized =
     (let mode = tm_mode normalized; tz = JSON_stringify (JStr (tm_timezone normalized));
          fn = tm_timeFunc normalized @ js ''('' @ tz @ js '')'' in
      if mode = MATCH_RANGE then
        (let s = trim (tm_rangeStart normalized); e = trim (tm_rangeEnd normalized) in
         if \<not> rx_test NUMERIC_LITERAL_REGEX s \<or> \<not> rx_test NUMERIC_LITERAL_REGEX e then []
         else fn @ js '' >= '' @ s @ js '' || '' @ fn @ js '' < '' @ e)
      else
        let v = trim (tm_value normalized) in
        if \<not> rx_test NUMERIC_LITERAL_REGEX v then []
        else
          let opMap = [(MATCH_EQ, js ''==''), (MATCH_GTE, js ''>=''), (MATCH_LT, js ''<'')] in
          fn @ js '' '' @ text_or (map_of opMap mode) (js ''=='') @ js '' '' @ v)"

definition build_param_header_expr :: "param_header_condition \<Rightarrow> jstring" where
  "build_param_header_expr normalized =
     (let path = trim (ph_path normalized); source = ph_source normalized; mode = ph_mode normalized;
          v = ph_value normalized in
      if path = [] then []
      else
        let sourceExpr = (if source = SOURCE_HEADER then js ''header('' else js ''param('') @
              JSON_stringify (JStr path) @ js '')'' in
        if mode = MATCH_EXISTS then
          (if source = SOURCE_HEADER then sourceExpr @ js '' != \"\"'' else sourceExpr @ js '' != nil'')
        else if mode = MATCH_CONTAINS then
          (if source = SOURCE_HEADER then js ''has('' @ sourceExpr @ js '', '' @ buildExprLiteral mode v @ js '')''
           else sourceExpr @ js '' != nil && has('' @ sourceExpr @ js '', '' @ buildExprLiteral mode v @ js '')'')
        else
          let opMap = [(MATCH_GT, js ''>''), (MATCH_GTE, js ''>=''), (MATCH_LT, js ''<''), (MATCH_LTE, js ''<='')] in
          case map_of opMap mode of
            Some o' \<Rightarrow>
              (let numText = trim v in
               if \<not> rx_test NUMERIC_LITERAL_REGEX numText then []
               else sourceExpr @ js '' != nil && '' @ sourceExpr @ js '' '' @ o' @ js '' '' @ numText)
          | None \<Rightarrow> sourceExpr @ js '' == '' @ buildExprLiteral mode v)"

text \<open>
  \<open>buildRequestConditionExpr\<close> and \<open>buildTimeConditionExpr\<close> first normalise the condition; a normalised
  condition keeps its kind.
\<close>

definition buildRequestConditionExpr :: "request_condition \<Rightarrow> jstring" where
  "buildRequestConditionExpr cond =
     (case normalizeCondition (Some (partial_of cond)) of
        TimeCondition c \<Rightarrow> build_time_expr c
      | ParamHeaderCondition c \<Rightarrow> build_param_header_expr c)"

definition buildRuleGroupFactor :: "request_rule_group \<Rightarrow> jstring" where
  "buildRuleGroupFactor g =
     (let multiplier = trim (rg_multiplier g) in
      if \<not> rx_test NUMERIC_LITERAL_REGEX multiplier then []
      else
        let condExprs = nonempty (map buildRequestConditionExpr (rg_conditions g)) in
        if condExprs = [] then []
        else
          let combined =
            (if length condExprs = 1 then hd condExprs
             else join (js '' && '') (map (\<lambda>e. if str_includes e (js '' || '') then js ''('' @ e @ js '')'' else e) condExprs)) in
          js ''('' @ combined @ js '' ? '' @ multiplier @ js '' : 1)'')"

definition buildRequestRuleExpr :: "request_rule_group list \<Rightarrow> jstring" where
  "buildRequestRuleExpr groups = join (js '' * '') (nonempty (map buildRuleGroupFactor groups))"

end
