(* ===== verification/Tier_Expr.thy ===== *)
theory Tier_Expr
  imports Billing_Expr
begin

text \<open>
  The visual editor of tiers: \<open>features/pricing/lib/tier-expr.ts\<close>. A configuration is a list of
  tiers with conditions and prices; it is printed as a billing expression and read back.

  A number is a decimal, \<open>NaN\<close> is \<open>None\<close>; the sources agree with the decimals as long as a number
  stays within what a double holds exactly. A field that a partial tier does not have is \<open>None\<close>, and an
  optional cost that a tier does not have is \<open>NaN\<close>, which is what \<open>Number(undefined)\<close> gives wherever the
  code reads it. Properties of a tier beyond the declared ones are not part of the model.
\<close>

section \<open>Data\<close>

type_synonym js_number = "decimal option"

definition CACHE_MODE_TIMED :: jstring where "CACHE_MODE_TIMED = js ''timed''"
definition CACHE_MODE_GENERIC :: jstring where "CACHE_MODE_GENERIC = js ''generic''"

datatype condition_value = NumberValue js_number | TextValue jstring

record tier_condition_input =
  ti_var :: jstring
  ti_op :: jstring
  ti_value :: condition_value

record visual_tier =
  vt_label :: jstring
  vt_conditions :: "tier_condition_input list"
  vt_input_unit_cost :: js_number
  vt_output_unit_cost :: js_number
  vt_cache_mode :: jstring
  vt_cache_read_unit_cost :: js_number
  vt_cache_create_unit_cost :: js_number
  vt_cache_create_1h_unit_cost :: js_number
  vt_image_unit_cost :: js_number
  vt_image_output_unit_cost :: js_number
  vt_audio_input_unit_cost :: js_number
  vt_audio_output_unit_cost :: js_number

record visual_config =
  vc_tiers :: "visual_tier list"

text \<open>\<open>Partial<VisualTier>\<close>. The cost fields are the properties by name.\<close>

record partial_tier =
  pt_label' :: "jstring option"
  pt_conditions' :: "tier_condition_input list option"
  pt_cache_mode' :: "jstring option"
  pt_costs :: "(jstring \<times> js_number) list"

definition partial_of_tier :: "visual_tier \<Rightarrow> partial_tier" where
  "partial_of_tier t =
     \<lparr>pt_label' = Some (vt_label t), pt_conditions' = Some (vt_conditions t), pt_cache_mode' = Some (vt_cache_mode t),
      pt_costs =
        [(js ''input_unit_cost'', vt_input_unit_cost t), (js ''output_unit_cost'', vt_output_unit_cost t),
         (js ''cache_read_unit_cost'', vt_cache_read_unit_cost t), (js ''cache_create_unit_cost'', vt_cache_create_unit_cost t),
         (js ''cache_create_1h_unit_cost'', vt_cache_create_1h_unit_cost t), (js ''image_unit_cost'', vt_image_unit_cost t),
         (js ''image_output_unit_cost'', vt_image_output_unit_cost t), (js ''audio_input_unit_cost'', vt_audio_input_unit_cost t),
         (js ''audio_output_unit_cost'', vt_audio_output_unit_cost t)]\<rparr>"

text \<open>\<open>Number(tier.f)\<close>: \<open>NaN\<close> for a field that is not there; and \<open>|| 0\<close>.\<close>

definition cost :: "partial_tier \<Rightarrow> jstring \<Rightarrow> js_number" where
  "cost tier f = (case map_of (pt_costs tier) f of Some n \<Rightarrow> n | None \<Rightarrow> None)"

definition cost_or_zero :: "partial_tier \<Rightarrow> jstring \<Rightarrow> js_number" where
  "cost_or_zero tier f = Some (or_zero (cost tier f))"

section \<open>Normalising\<close>

definition positive :: "js_number \<Rightarrow> bool" where
  "positive n = (case n of Some d \<Rightarrow> 0 < fst d | None \<Rightarrow> False)"

definition getTierCacheMode :: "partial_tier \<Rightarrow> jstring" where
  "getTierCacheMode tier =
     (if pt_cache_mode' tier = Some CACHE_MODE_TIMED then CACHE_MODE_TIMED
      else if pt_cache_mode' tier = Some CACHE_MODE_GENERIC then CACHE_MODE_GENERIC
      else if positive (cost tier (js ''cache_create_1h_unit_cost'')) then CACHE_MODE_TIMED
      else CACHE_MODE_GENERIC)"

text \<open>The spread \<open>...tier\<close> comes after the first five fields, so what the tier has of them stays as it is.\<close>

definition normalizeVisualTier :: "partial_tier \<Rightarrow> visual_tier" where
  "normalizeVisualTier tier =
     \<lparr>vt_label = (case pt_label' tier of Some l \<Rightarrow> l | None \<Rightarrow> []),
      vt_conditions = (case pt_conditions' tier of Some cs \<Rightarrow> cs | None \<Rightarrow> []),
      vt_input_unit_cost = (case map_of (pt_costs tier) (js ''input_unit_cost'') of Some n \<Rightarrow> n
         | None \<Rightarrow> cost_or_zero tier (js ''input_unit_cost'')),
      vt_output_unit_cost = (case map_of (pt_costs tier) (js ''output_unit_cost'') of Some n \<Rightarrow> n
         | None \<Rightarrow> cost_or_zero tier (js ''output_unit_cost'')),
      vt_cache_mode = (case pt_cache_mode' tier of Some m \<Rightarrow> m | None \<Rightarrow> getTierCacheMode tier),
      vt_cache_read_unit_cost = cost_or_zero tier (js ''cache_read_unit_cost''),
      vt_cache_create_unit_cost = cost_or_zero tier (js ''cache_create_unit_cost''),
      vt_cache_create_1h_unit_cost = cost_or_zero tier (js ''cache_create_1h_unit_cost''),
      vt_image_unit_cost = cost_or_zero tier (js ''image_unit_cost''),
      vt_image_output_unit_cost = cost_or_zero tier (js ''image_output_unit_cost''),
      vt_audio_input_unit_cost = cost_or_zero tier (js ''audio_input_unit_cost''),
      vt_audio_output_unit_cost = cost_or_zero tier (js ''audio_output_unit_cost'')\<rparr>"

definition createDefaultVisualConfig :: visual_config where
  "createDefaultVisualConfig =
     \<lparr>vc_tiers = [normalizeVisualTier
        \<lparr>pt_label' = Some (js ''base''), pt_conditions' = Some [], pt_cache_mode' = Some CACHE_MODE_GENERIC,
         pt_costs = [(js ''input_unit_cost'', Some (0, 0)), (js ''output_unit_cost'', Some (0, 0))]\<rparr>]\<rparr>"

definition normalizeVisualConfig :: "visual_config option \<Rightarrow> visual_config" where
  "normalizeVisualConfig config =
     (case config of
        None \<Rightarrow> createDefaultVisualConfig
      | Some c \<Rightarrow>
          if vc_tiers c = [] then createDefaultVisualConfig
          else c\<lparr>vc_tiers := map (\<lambda>tier. normalizeVisualTier (partial_of_tier tier)) (vc_tiers c)\<rparr>)"

section \<open>Printing\<close>

definition number_str :: "js_number \<Rightarrow> jstring" where
  "number_str n = (case n of Some d \<Rightarrow> number_to_string d | None \<Rightarrow> js ''NaN'')"

fun value_str :: "condition_value \<Rightarrow> jstring" where
  "value_str (NumberValue n) = number_str n"
| "value_str (TextValue s) = s"

definition buildConditionStr :: "tier_condition_input list \<Rightarrow> jstring" where
  "buildConditionStr conditions =
     (if conditions = [] then []
      else join (js '' && '')
        (map (\<lambda>c. ti_var c @ js '' '' @ ti_op c @ js '' '' @ value_str (ti_value c))
          (filter (\<lambda>c. ti_var c \<noteq> [] \<and> ti_op c \<noteq> [] \<and> ti_value c \<noteq> TextValue []) conditions)))"

definition buildTierBodyExpr :: "visual_tier \<Rightarrow> jstring" where
  "buildTierBodyExpr tier =
     (let ic = or_zero (vt_input_unit_cost tier); oc = or_zero (vt_output_unit_cost tier);
          extras = List.map_filter (\<lambda>cv.
            let v = or_zero (cost (partial_of_tier tier) (cv_field cv)) in
            if fst v \<noteq> 0 then Some (cv_exprVar cv @ js '' * '' @ number_to_string v) else None) BILLING_CACHE_VAR_MAP in
      join (js '' + '') ((js ''p * '' @ number_to_string ic) # (js ''c * '' @ number_to_string oc) # extras))"

definition tier_call :: "jstring \<Rightarrow> visual_tier \<Rightarrow> jstring" where
  "tier_call label tier = js ''tier(\"'' @ label @ js ''\", '' @ buildTierBodyExpr tier @ js '')''"

definition label_or :: "jstring \<Rightarrow> jstring \<Rightarrow> jstring" where
  "label_or label d = (if label \<noteq> [] then label else d)"

text \<open>The part of the tier with index \<open>i\<close> of \<open>n\<close>.\<close>

definition tier_part :: "nat \<Rightarrow> nat \<Rightarrow> visual_tier \<Rightarrow> jstring" where
  "tier_part n i tier =
     (let body = tier_call (label_or (vt_label tier) (js ''tier_'' @ nat_str (i + 1))) tier;
          cond = buildConditionStr (vt_conditions tier) in
      if i + 1 < n \<and> cond \<noteq> [] then cond @ js '' ? '' @ body else body)"

definition generateExprFromVisualConfig :: "visual_config option \<Rightarrow> jstring" where
  "generateExprFromVisualConfig config =
     (case config of
        None \<Rightarrow> js ''p * 0 + c * 0''
      | Some c \<Rightarrow>
          (case vc_tiers c of
             [] \<Rightarrow> js ''p * 0 + c * 0''
           | [tier] \<Rightarrow>
               (let body = tier_call (label_or (vt_label tier) (js ''default'')) tier;
                    cond = buildConditionStr (vt_conditions tier) in
                if cond \<noteq> [] then cond @ js '' ? '' @ body @ js '' : p * 0 + c * 0'' else body)
           | tiers \<Rightarrow> join (js '' : '') (map (\<lambda>(i, tier). tier_part (length tiers) i tier) (enumerate 0 tiers))))"

section \<open>Reading\<close>

text \<open>\<open>(?:\s*\+\s*v\s*\*\s*([\d.eE+-]+))?\<close> for the variable \<open>v\<close>, with the group \<open>i\<close>.\<close>

definition rx_extra :: "nat \<Rightarrow> jstring \<Rightarrow> regex" where
  "rx_extra i v = rx_opt (rx_seq [RxStar rx_space, rx_str (js ''+''), RxStar rx_space, rx_str v, RxStar rx_space,
     rx_str (js ''*''), RxStar rx_space, RxGroup i rx_number])"

text \<open>\<open>bodyPat\<close>: its groups are numbered from \<open>k\<close>.\<close>

definition bodyPat :: "nat \<Rightarrow> regex list" where
  "bodyPat k =
     [rx_str (js ''p''), RxStar rx_space, rx_str (js ''*''), RxStar rx_space, RxGroup k rx_number, RxStar rx_space,
      rx_str (js ''+''), RxStar rx_space, rx_str (js ''c''), RxStar rx_space, rx_str (js ''*''), RxStar rx_space,
      RxGroup (k + 1) rx_number] @
     map (\<lambda>(i, cv). rx_extra i (cv_exprVar cv)) (enumerate (k + 2) BILLING_CACHE_VAR_MAP)"

text \<open>\<open>^v\d+:([\s\S]*)$\<close>\<close>

definition versionBodyRe :: regex where
  "versionBodyRe = rx_seq [RxStart, rx_str (js ''v''), rx_plus rx_digit, rx_str (js '':''), RxGroup 1 (RxStar rx_any), RxEnd]"

definition singleRe :: regex where
  "singleRe = rx_seq ([RxStart, rx_str (js ''tier(\"''), RxGroup 1 (RxStar (rx_not_in (js ''\"''))), rx_str (js ''\",''),
     RxStar rx_space] @ bodyPat 2 @ [rx_str (js '')''), RxEnd])"

definition visualTierRe :: regex where
  "visualTierRe = rx_seq ([rx_opt (rx_seq [condGroup, RxStar rx_space, rx_str (js ''?''), RxStar rx_space]),
     rx_str (js ''tier(\"''), RxGroup 2 (RxStar (rx_not_in (js ''\"''))), rx_str (js ''\",''), RxStar rx_space] @
     bodyPat 3 @ [rx_str (js '')'')])"

text \<open>The tier of a match whose label is group \<open>k - 1\<close> and whose prices start at group \<open>k\<close>.\<close>

definition tier_of_match :: "nat \<Rightarrow> rx_match \<Rightarrow> tier_condition_input list \<Rightarrow> partial_tier" where
  "tier_of_match k m conditions =
     \<lparr>pt_label' = Some (cap_text m (k - 1)), pt_conditions' = Some conditions, pt_cache_mode' = None,
      pt_costs = (js ''input_unit_cost'', Number_text (cap_text m k)) # (js ''output_unit_cost'', Number_text (cap_text m (k + 1))) #
        List.map_filter (\<lambda>(i, cv). map_option (\<lambda>val. (cv_field cv, Number_text val)) (cap m i))
          (enumerate (k + 2) BILLING_CACHE_VAR_MAP)\<rparr>"

definition input_of :: "tier_condition \<Rightarrow> tier_condition_input" where
  "input_of c = \<lparr>ti_var = tc_var c, ti_op = tc_op c, ti_value = NumberValue (tc_value c)\<rparr>"

definition strip_ws :: "jstring \<Rightarrow> jstring" where
  "strip_ws s = filter (\<lambda>c. \<not> is_ws c) s"

definition tryParseVisualConfig :: "jstring option \<Rightarrow> visual_config option" where
  "tryParseVisualConfig exprStr =
     (case exprStr of
        None \<Rightarrow> None
      | Some s \<Rightarrow>
          if s = [] then None
          else
            let body = (case rx_exec versionBodyRe s of Some m \<Rightarrow> cap_text m 1 | None \<Rightarrow> s) in
            case rx_exec singleRe body of
              Some m \<Rightarrow> Some (normalizeVisualConfig (Some \<lparr>vc_tiers = [normalizeVisualTier (tier_of_match 2 m [])]\<rparr>))
            | None \<Rightarrow>
                (let tiers = map (\<lambda>m. normalizeVisualTier
                       (tier_of_match 3 m (map input_of (read_conditions (cap_text m 1))))) (matchAll visualTierRe body) in
                 if tiers = [] then None
                 else
                   let cfg = normalizeVisualConfig (Some \<lparr>vc_tiers = tiers\<rparr>) in
                   if strip_ws (generateExprFromVisualConfig (Some cfg)) \<noteq> strip_ws body then None else Some cfg))"

section \<open>The estimator\<close>

definition ESTIMATOR_VARS :: "(jstring \<times> jstring) list" where
  "ESTIMATOR_VARS =
     [(js ''cr'', js ''cacheReadTokens''), (js ''cc'', js ''cacheCreateTokens''), (js ''cc1h'', js ''cacheCreate1hTokens''),
      (js ''img'', js ''imageTokens''), (js ''img_o'', js ''imageOutputTokens''), (js ''ai'', js ''audioInputTokens''),
      (js ''ao'', js ''audioOutputTokens'')]"

definition exprUsesExtraVars :: "jstring \<Rightarrow> bool" where
  "exprUsesExtraVars exprStr \<longleftrightarrow>
     exprStr \<noteq> [] \<and>
     rx_test (rx_seq [RxWordBoundary, RxGroup 1 (rx_alt (map (\<lambda>f. rx_str (fst f)) ESTIMATOR_VARS)), RxWordBoundary]) exprStr"

end
