(* ===== verification/Billing_Rules.thy ===== *)
theory Billing_Rules
  imports Billing_Expr
begin

text \<open>
  What the reader and the printer of request rules promise each other. The patterns of the reader are
  described by the texts they read (\<open>readings\<close>); what the printer produces is one of these texts, or
  is not, and that decides what comes back. The two splitting loops are inverse to joining on texts with
  matched parentheses.
\<close>

section \<open>Splitting a text\<close>

lemma class_split:
  assumes "u @ v = u' @ v'" and "list_all P u" and "list_all P u'"
    and "v = [] \<or> \<not> P (hd v)" and "v' = [] \<or> \<not> P (hd v')"
  shows "u = u'" and "v = v'"
proof -
  have "takeWhile P (u @ v) = u" using assms(2,4) by (cases v) (auto simp: list_all_iff takeWhile_append)
  moreover have "takeWhile P (u' @ v') = u'" using assms(3,5) by (cases v') (auto simp: list_all_iff takeWhile_append)
  ultimately show "u = u'" using assms(1) by simp
  then show "v = v'" using assms(1) by simp
qed

text \<open>Up to the next quote.\<close>

lemma quote_split:
  assumes "34 \<notin> set u"
  shows "u @ 34 # v = u' @ 34 # v' \<and> list_all (\<lambda>c. c \<noteq> 34) u' \<longleftrightarrow> u' = u \<and> v' = v"
proof
  assume *: "u @ 34 # v = u' @ 34 # v' \<and> list_all (\<lambda>c. c \<noteq> 34) u'"
  have "u = u' \<and> 34 # v = 34 # v'"
    using class_split [of u "34 # v" u' "34 # v'" "\<lambda>c. c \<noteq> 34"] * assms by (auto simp: list_all_iff)
  then show "u' = u \<and> v' = v" by simp
qed (use assms in \<open>auto simp: list_all_iff\<close>)

section \<open>Numeric literals\<close>

lemma number_unit_not:
  "\<not> number_unit 32" "\<not> number_unit 40" "\<not> number_unit 41" "\<not> number_unit 38" "\<not> number_unit 124" "\<not> number_unit 34"
  by (simp_all add: number_unit_def is_digit_def js_eval)

lemma number_unit_digit: "is_digit c \<Longrightarrow> number_unit c"
  by (simp add: number_unit_def)

lemma number_units_digits: "list_all is_digit s \<Longrightarrow> list_all number_unit s"
  by (auto simp: list_all_iff number_unit_digit)

lemma numeric_units:
  assumes "rx_test NUMERIC_LITERAL_REGEX s"
  shows "s \<noteq> []" and "list_all number_unit s"
proof -
  obtain m where "rx_exec NUMERIC_LITERAL_REGEX s = Some m" using assms by (auto simp: rx_test_def)
  then obtain v c where r: "rx_reads (rx_seq [rx_opt (rx_str (js ''-'')),
       rx_alt [rx_seq [rx_plus rx_digit, rx_opt (rx_str (js ''.'')), RxStar rx_digit],
               rx_seq [rx_str (js ''.''), rx_plus rx_digit]],
       rx_opt (rx_seq [rx_in (js ''eE''), rx_opt (rx_in (js ''+-'')), rx_plus rx_digit]), RxEnd]) [] s [] v c"
    unfolding NUMERIC_LITERAL_REGEX_def rx_seq.simps by (blast dest: rx_exec_Some)
  have "s \<noteq> [] \<and> list_all number_unit s"
    using r number_units_digits number_unit_digit by (auto simp: rx_eqs rx_in_def js_eval number_unit_def)
  then show "s \<noteq> []" "list_all number_unit s" by simp_all
qed

section \<open>What the patterns of the rule reader read\<close>

definition readings :: "regex \<Rightarrow> jstring \<Rightarrow> groups set" where
  "readings r e = {c. \<exists>v. rx_reads r [] e [] v c}"

definition anchored :: "regex \<Rightarrow> bool" where
  "anchored r \<longleftrightarrow> (\<exists>r'. r = RxSeq RxStart r')"

lemma exec_None_readings: "anchored r \<Longrightarrow> rx_exec r e = None \<longleftrightarrow> readings r e = {}"
  by (auto simp: anchored_def readings_def rx_exec_None_iff reads_after_start)

lemma exec_Some_readings: "anchored r \<Longrightarrow> rx_exec r e = Some m \<Longrightarrow> m_caps m \<in> readings r e"
  by (auto simp: anchored_def readings_def reads_after_start) (blast dest: rx_exec_Some)

lemma exec_single:
  assumes "anchored r" and "readings r e = {c}"
  shows "\<exists>m. rx_exec r e = Some m \<and> m_caps m = c"
  using exec_None_readings [OF assms(1), of e] exec_Some_readings [OF assms(1), of e] assms(2) by (cases "rx_exec r e") auto

lemma anchored_patterns [simp]:
  "anchored HEADER_EXISTS_REGEX" "anchored PARAM_EXISTS_REGEX" "anchored HEADER_CONTAINS_REGEX"
  "anchored PARAM_CONTAINS_REGEX" "anchored PARAM_COMPARE_REGEX" "anchored EQUALS_REGEX"
  "anchored TIME_RANGE_REGEX" "anchored TIME_RANGE_PARENS_REGEX" "anchored TIME_COMPARE_REGEX" "anchored FACTOR_REGEX"
  by (auto simp: anchored_def HEADER_EXISTS_REGEX_def PARAM_EXISTS_REGEX_def HEADER_CONTAINS_REGEX_def
      PARAM_CONTAINS_REGEX_def PARAM_COMPARE_REGEX_def EQUALS_REGEX_def TIME_RANGE_REGEX_def
      TIME_RANGE_PARENS_REGEX_def TIME_COMPARE_REGEX_def FACTOR_REGEX_def rx_time_range_def)

definition quotable :: "jstring \<Rightarrow> bool" where
  "quotable p \<longleftrightarrow> p \<noteq> [] \<and> 34 \<notin> set p"

lemma reads_quoted [rx_eqs]:
  "rx_reads (RxSeq (RxGroup i (rx_plus (rx_not_in (js ''\"'')))) b) p s c v c' \<longleftrightarrow>
     (\<exists>u w. s = u @ w \<and> quotable u \<and> rx_reads b (rev u @ p) w (AList.update i u c) v c')"
proof -
  have "u \<noteq> [] \<and> list_all (\<lambda>d. d \<notin> set (js ''\"'')) u \<longleftrightarrow> quotable u" for u
    by (auto simp: quotable_def list_all_iff js_eval)
  then show ?thesis unfolding rx_not_in_def reads_group_class by blast
qed

definition numerals :: "jstring \<Rightarrow> bool" where
  "numerals s \<longleftrightarrow> s \<noteq> [] \<and> list_all number_unit s"

lemma reads_numerals [rx_eqs]:
  "rx_reads (RxSeq (RxGroup i rx_number) b) p s c v c' \<longleftrightarrow>
     (\<exists>u w. s = u @ w \<and> numerals u \<and> rx_reads b (rev u @ p) w (AList.update i u c) v c')"
  unfolding numerals_def reads_group_class by blast

lemma readings_HEADER_EXISTS:
  "readings HEADER_EXISTS_REGEX e = {[(1, p)] | p. quotable p \<and> e = js ''header(\"'' @ p @ js ''\") != \"\"''}"
  unfolding readings_def HEADER_EXISTS_REGEX_def by (auto simp: rx_eqs)

lemma readings_PARAM_EXISTS:
  "readings PARAM_EXISTS_REGEX e = {[(1, p)] | p. quotable p \<and> e = js ''param(\"'' @ p @ js ''\") != nil''}"
  unfolding readings_def PARAM_EXISTS_REGEX_def by (auto simp: rx_eqs)

text \<open>The texts between the quotes of a string literal.\<close>

fun literal_body :: "jstring \<Rightarrow> bool" where
  "literal_body [] = True"
| "literal_body (c # s) =
     (if c = 92 then (case s of [] \<Rightarrow> False | d # s' \<Rightarrow> \<not> is_line_end d \<and> literal_body s')
      else c \<noteq> 34 \<and> literal_body s)"

lemma reads_literal_body:
  "rx_reads (RxStar rx_literal_unit) p s c v c' \<longleftrightarrow> (\<exists>u. s = u @ v \<and> literal_body u \<and> c' = c)"
proof (induction "length s" arbitrary: p s rule: less_induct)
  case less
  have g: "filter (\<lambda>(i, t). i \<notin> set (rx_groups rx_literal_unit)) c = c"
    by (simp add: rx_literal_unit_def rx_not_in_def rx_str_def)
  have one: "rx_reads rx_literal_unit p s c w c1 \<longleftrightarrow> c1 = c \<and>
      ((\<exists>x. s = x # w \<and> x \<noteq> 92 \<and> x \<noteq> 34) \<or> (\<exists>d. s = 92 # d # w \<and> \<not> is_line_end d))" for w c1
    by (auto simp: rx_eqs rx_literal_unit_def rx_not_in_def js_eval)
  have IH: "rx_reads (RxStar rx_literal_unit) q w c v c' \<longleftrightarrow> (\<exists>u. w = u @ v \<and> literal_body u \<and> c' = c)" if "length w < length s" for q w
    using less that by blast
  show ?case
  proof (cases s)
    case Nil
    then show ?thesis by (subst reads_RxStar) (auto simp: g)
  next
    case (Cons x xs)
    have i1: "rx_reads (RxStar rx_literal_unit) (x # p) xs c v c' \<longleftrightarrow> (\<exists>u. xs = u @ v \<and> literal_body u \<and> c' = c)"
      by (rule IH) (simp add: Cons)
    have i2: "rx_reads (RxStar rx_literal_unit) (d # x # p) w c v c' \<longleftrightarrow> (\<exists>u. w = u @ v \<and> literal_body u \<and> c' = c)"
      if "xs = d # w" for d w by (rule IH) (simp add: Cons that)
    have "rx_reads (RxStar rx_literal_unit) p s c v c' \<longleftrightarrow> v = s \<and> c' = c \<or>
        (x \<noteq> 92 \<and> x \<noteq> 34 \<and> rx_reads (RxStar rx_literal_unit) (x # p) xs c v c') \<or>
        (\<exists>d w. x = 92 \<and> xs = d # w \<and> \<not> is_line_end d \<and> rx_reads (RxStar rx_literal_unit) (d # x # p) w c v c')"
    proof -
      have "(\<exists>u w c1. u \<noteq> [] \<and> s = u @ w \<and> rx_reads rx_literal_unit p s c w c1 \<and>
            rx_reads (RxStar rx_literal_unit) (rev u @ p) w c1 v c') \<longleftrightarrow>
          (\<exists>u w. u \<noteq> [] \<and> s = u @ w \<and> (u = [x] \<and> x \<noteq> 92 \<and> x \<noteq> 34 \<or> (\<exists>d. u = [92, d] \<and> \<not> is_line_end d)) \<and>
            rx_reads (RxStar rx_literal_unit) (rev u @ p) w c v c')"
        unfolding one
      proof (intro ex_cong1 iffI; elim exE conjE)
        fix u w c1
        assume "u \<noteq> []" "s = u @ w" "c1 = c" "rx_reads (RxStar rx_literal_unit) (rev u @ p) w c1 v c'"
          "(\<exists>x. s = x # w \<and> x \<noteq> 92 \<and> x \<noteq> 34) \<or> (\<exists>d. s = 92 # d # w \<and> \<not> is_line_end d)"
        moreover have "u = [y]" if "s = y # w" for y using that \<open>s = u @ w\<close> by (metis append_Cons append_Nil append_same_eq)
        moreover have "u = [92, d]" if "s = 92 # d # w" for d
          using that \<open>s = u @ w\<close> by (metis append_Cons append_Nil append_same_eq)
        ultimately show "u \<noteq> [] \<and> s = u @ w \<and> (u = [x] \<and> x \<noteq> 92 \<and> x \<noteq> 34 \<or> (\<exists>d. u = [92, d] \<and> \<not> is_line_end d)) \<and>
            rx_reads (RxStar rx_literal_unit) (rev u @ p) w c v c'" using Cons by (metis list.inject)
      qed (use Cons in auto)
      also have "\<dots> \<longleftrightarrow> x \<noteq> 92 \<and> x \<noteq> 34 \<and> (\<exists>w. s = [x] @ w \<and> rx_reads (RxStar rx_literal_unit) (rev [x] @ p) w c v c') \<or>
          (\<exists>d w. \<not> is_line_end d \<and> s = [92, d] @ w \<and> rx_reads (RxStar rx_literal_unit) (rev [92, d] @ p) w c v c')"
        by blast
      also note e = calculation
      show ?thesis
        by (subst reads_RxStar [of rx_literal_unit p s c], unfold g e) (auto simp: Cons)
    qed
    also have "\<dots> \<longleftrightarrow> v = s \<and> c' = c \<or>
        (x \<noteq> 92 \<and> x \<noteq> 34 \<and> (\<exists>u. xs = u @ v \<and> literal_body u \<and> c' = c)) \<or>
        (\<exists>d w. x = 92 \<and> xs = d # w \<and> \<not> is_line_end d \<and> (\<exists>u. w = u @ v \<and> literal_body u \<and> c' = c))"
      unfolding i1 using i2 by (metis (no_types))
    also have "\<dots> \<longleftrightarrow> (\<exists>u. s = u @ v \<and> literal_body u \<and> c' = c)"
    proof -
      have l: "literal_body (x # u) \<longleftrightarrow> x \<noteq> 92 \<and> x \<noteq> 34 \<and> literal_body u \<or>
          (\<exists>d u'. x = 92 \<and> u = d # u' \<and> \<not> is_line_end d \<and> literal_body u')" for u by (cases u) auto
      have "(\<exists>u. s = u @ v \<and> literal_body u \<and> c' = c) \<longleftrightarrow>
          v = s \<and> c' = c \<or> (\<exists>u. xs = u @ v \<and> literal_body (x # u) \<and> c' = c)"
        by (auto simp: Cons Cons_eq_append_conv simp del: literal_body.simps(2))
      then show ?thesis unfolding l by auto
    qed
    finally show ?thesis .
  qed
qed

definition string_literal :: "jstring \<Rightarrow> bool" where
  "string_literal l \<longleftrightarrow> (\<exists>b. l = 34 # b @ [34] \<and> literal_body b)"

lemma reads_string_literal [rx_eqs]:
  "rx_reads (RxSeq (RxGroup i rx_string_literal) b) p s c v c' \<longleftrightarrow>
     (\<exists>l w. s = l @ w \<and> string_literal l \<and> rx_reads b (rev l @ p) w (AList.update i l c) v c')"
proof -
  have "rx_reads rx_string_literal p s c w c1 \<longleftrightarrow> (\<exists>l. s = l @ w \<and> string_literal l) \<and> c1 = c" for w c1
    unfolding rx_string_literal_def string_literal_def
    by (auto simp: rx_eqs reads_RxSeq reads_literal_body js_eval)
  then show ?thesis unfolding reads_after_group by auto
qed

lemma readings_HEADER_CONTAINS:
  "readings HEADER_CONTAINS_REGEX e =
     {[(1, p), (2, l)] | p l. quotable p \<and> string_literal l \<and>
        e = js ''has(header(\"'' @ p @ js ''\"), '' @ l @ js '')''}"
  unfolding readings_def HEADER_CONTAINS_REGEX_def by (auto simp: rx_eqs)

lemma readings_PARAM_CONTAINS:
  "readings PARAM_CONTAINS_REGEX e =
     {[(1, p), (2, q), (3, l)] | p q l. quotable p \<and> quotable q \<and> string_literal l \<and>
        e = js ''param(\"'' @ p @ js ''\") != nil && has(param(\"'' @ q @ js ''\"), '' @ l @ js '')''}"
  unfolding readings_def PARAM_CONTAINS_REGEX_def by (auto simp: rx_eqs)

lemma readings_PARAM_COMPARE:
  "readings PARAM_COMPARE_REGEX e =
     {[(1, p), (2, q), (3, c), (4, n)] | p q c n. quotable p \<and> quotable q \<and> numerals n \<and>
        c \<in> {js ''>'', js ''>='', js ''<'', js ''<=''} \<and>
        e = js ''param(\"'' @ p @ js ''\") != nil && param(\"'' @ q @ js ''\") '' @ c @ js '' '' @ n}"
  unfolding readings_def PARAM_COMPARE_REGEX_def
    reads_group_words [of _ "[js ''>'', js ''>='', js ''<'', js ''<='']", simplified]
  by (auto simp: rx_eqs numerals_def reads_group_words [of _ "[js ''>'', js ''>='', js ''<'', js ''<='']", simplified])

lemma readings_EQUALS:
  "readings EQUALS_REGEX e =
     {[(1, f), (2, p), (3, l)] | f p l. f \<in> {js ''param'', js ''header''} \<and> quotable p \<and> l \<noteq> [] \<and>
        list_all (\<lambda>c. \<not> is_line_end c) l \<and> e = f @ js ''(\"'' @ p @ js ''\") == '' @ l}"
  unfolding readings_def EQUALS_REGEX_def
  by (auto simp: rx_eqs numerals_def reads_group_words [of _ "[js ''param'', js ''header'']", simplified])

lemma readings_TIME_COMPARE:
  "readings TIME_COMPARE_REGEX e =
     {[(1, f), (2, z), (3, c), (4, n)] | f z c n. f \<in> set TIME_FUNCS \<and> quotable z \<and> numerals n \<and>
        c \<in> {js ''=='', js ''>='', js ''<''} \<and> e = f @ js ''(\"'' @ z @ js ''\") '' @ c @ js '' '' @ n}"
  unfolding readings_def TIME_COMPARE_REGEX_def rx_time_func_def
  by (auto simp: rx_eqs numerals_def reads_group_words [of _ TIME_FUNCS]
      reads_group_words [of _ "[js ''=='', js ''>='', js ''<'']", simplified])

lemma readings_TIME_RANGE:
  "readings TIME_RANGE_REGEX e =
     {[(1, f), (2, z), (3, a), (4, b)] | f z a b. f \<in> set TIME_FUNCS \<and> quotable z \<and> numerals a \<and> numerals b \<and>
        e = f @ js ''(\"'' @ z @ js ''\") >= '' @ a @ js '' || '' @ f @ js ''(\"'' @ z @ js ''\") < '' @ b}"
  unfolding readings_def TIME_RANGE_REGEX_def rx_time_range_def rx_time_func_def
  by (auto simp: rx_eqs numerals_def reads_group_words [of _ TIME_FUNCS] Let_def)

lemma readings_TIME_RANGE_PARENS:
  "readings TIME_RANGE_PARENS_REGEX e =
     {[(1, f), (2, z), (3, a), (4, b)] | f z a b. f \<in> set TIME_FUNCS \<and> quotable z \<and> numerals a \<and> numerals b \<and>
        e = js ''('' @ f @ js ''(\"'' @ z @ js ''\") >= '' @ a @ js '' || '' @ f @ js ''(\"'' @ z @ js ''\") < '' @ b @ js '')''}"
  unfolding readings_def TIME_RANGE_PARENS_REGEX_def rx_time_range_def rx_time_func_def
  by (auto simp: rx_eqs numerals_def reads_group_words [of _ TIME_FUNCS] Let_def)

lemma readings_FACTOR:
  "readings FACTOR_REGEX e =
     {[(1, a), (2, n)] | a n. a \<noteq> [] \<and> numerals n \<and> e = js ''('' @ a @ js '' ? '' @ n @ js '' : 1)''}"
  unfolding readings_def FACTOR_REGEX_def by (auto simp: rx_eqs numerals_def list_all_iff)

section \<open>Well-typed conditions\<close>

definition typed_condition :: "request_condition \<Rightarrow> bool" where
  "typed_condition cond =
     (case cond of
        TimeCondition c \<Rightarrow> tm_timeFunc c \<in> set TIME_FUNCS \<and> tm_timezone c \<noteq> [] \<and>
          tm_mode c \<in> mo_mode ` set (getRequestRuleMatchOptions SOURCE_TIME)
      | ParamHeaderCondition c \<Rightarrow> ph_source c \<in> {SOURCE_PARAM, SOURCE_HEADER} \<and>
          ph_mode c \<in> mo_mode ` set (getRequestRuleMatchOptions (ph_source c)))"

lemmas source_defs = SOURCE_PARAM_def SOURCE_HEADER_def SOURCE_TIME_def
lemmas mode_defs = MATCH_EQ_def MATCH_CONTAINS_def MATCH_GT_def MATCH_GTE_def MATCH_LT_def MATCH_LTE_def
  MATCH_EXISTS_def MATCH_RANGE_def

lemma mode_or_option: "d \<in> mo_mode ` set (getRequestRuleMatchOptions s) \<Longrightarrow>
    mode_or s m d \<in> mo_mode ` set (getRequestRuleMatchOptions s)"
  by (auto simp: mode_or_def text_of_def list_ex_iff)

lemma mode_or_fixed: "m \<in> mo_mode ` set (getRequestRuleMatchOptions s) \<Longrightarrow> mode_or s (Some m) d = m"
  by (auto simp: mode_or_def text_of_def list_ex_iff)

lemma default_modes:
  "MATCH_GTE \<in> mo_mode ` set (getRequestRuleMatchOptions SOURCE_TIME)"
  "MATCH_EQ \<in> mo_mode ` set (getRequestRuleMatchOptions s)"
  by (simp_all add: getRequestRuleMatchOptions_def Let_def)

lemma normalize_typed: "typed_condition (normalizeCondition p)"
proof -
  have "isTimeFunc f \<Longrightarrow> text_of f \<in> set TIME_FUNCS" for f by (auto simp: isTimeFunc_def text_of_def split: option.splits)
  moreover have "text_or z (js ''Asia/Shanghai'') \<noteq> []" for z by (auto simp: text_or_def split: option.splits)
  ultimately show ?thesis
    by (auto simp: normalizeCondition_def typed_condition_def Let_def mode_or_option default_modes TIME_FUNCS_def
        simp del: source_defs)
qed

lemma normalize_fixed:
  assumes "typed_condition c" shows "normalizeCondition (Some (partial_of c)) = c"
proof (cases c)
  case (TimeCondition t)
  then show ?thesis using assms
    by (auto simp: typed_condition_def normalizeCondition_def Let_def SOURCE_TIME_def no_condition_def
        isTimeFunc_def text_of_def text_or_def mode_or_fixed [unfolded SOURCE_TIME_def])
next
  case (ParamHeaderCondition t)
  then show ?thesis using assms
    by (auto simp: typed_condition_def normalizeCondition_def Let_def source_defs no_condition_def
        text_of_def text_or_def mode_or_fixed [unfolded source_defs])
qed

lemma cap_text_in: "m_caps m = cs \<Longrightarrow> cap_text m i = (case map_of cs i of Some s \<Rightarrow> s | None \<Rightarrow> [])"
  by (simp add: cap_text_def cap_def)

lemma option_modes:
  "m \<in> {MATCH_EQ, MATCH_CONTAINS, MATCH_EXISTS} \<Longrightarrow> m \<in> mo_mode ` set (getRequestRuleMatchOptions SOURCE_HEADER)"
  "m \<in> {MATCH_EQ, MATCH_CONTAINS, MATCH_EXISTS, MATCH_GT, MATCH_GTE, MATCH_LT, MATCH_LTE} \<Longrightarrow>
     m \<in> mo_mode ` set (getRequestRuleMatchOptions SOURCE_PARAM)"
  "m \<in> {MATCH_EQ, MATCH_GTE, MATCH_LT, MATCH_RANGE} \<Longrightarrow> m \<in> mo_mode ` set (getRequestRuleMatchOptions SOURCE_TIME)"
  by (auto simp: getRequestRuleMatchOptions_def Let_def source_defs)

lemma typed_time:
  assumes "tryParseTimeCondition e = Some c" shows "typed_condition c"
proof -
  have range: "typed_condition (time_range_of m)" if "m_caps m = [(1, f), (2, z), (3, a), (4, b)]" "f \<in> set TIME_FUNCS" "quotable z"
    for m f z a b
    using that option_modes(3) by (auto simp: typed_condition_def time_range_of_def cap_text_in [OF that(1)] quotable_def)
  show ?thesis
  proof (cases "rx_exec TIME_RANGE_REGEX e")
    case (Some m)
    then show ?thesis
      using assms exec_Some_readings [OF _ Some] range
      by (auto simp: tryParseTimeCondition_def readings_TIME_RANGE)
  next
    case n1: None
    show ?thesis
    proof (cases "rx_exec TIME_RANGE_PARENS_REGEX e")
      case (Some m)
      then show ?thesis
        using assms n1 exec_Some_readings [OF _ Some] range
        by (auto simp: tryParseTimeCondition_def readings_TIME_RANGE_PARENS)
    next
      case n2: None
      then obtain m where m: "rx_exec TIME_COMPARE_REGEX e = Some m"
        using assms n1 by (auto simp: tryParseTimeCondition_def split: option.splits)
      obtain f z o' n where r: "m_caps m = [(1, f), (2, z), (3, o'), (4, n)]" "f \<in> set TIME_FUNCS" "quotable z"
        using exec_Some_readings [OF _ m] unfolding readings_TIME_COMPARE by auto
      let ?mode = "case map_of [(js ''=='', MATCH_EQ), (js ''>='', MATCH_GTE), (js ''<'', MATCH_LT)] o' of
          Some x \<Rightarrow> x | None \<Rightarrow> MATCH_EQ"
      have "c = TimeCondition \<lparr>tm_timeFunc = f, tm_timezone = z, tm_mode = ?mode, tm_value = n, tm_rangeStart = [], tm_rangeEnd = []\<rparr>"
        using assms by (simp add: tryParseTimeCondition_def n1 n2 m cap_text_in [OF r(1)])
      moreover have "?mode \<in> mo_mode ` set (getRequestRuleMatchOptions SOURCE_TIME)"
        by (rule option_modes(3)) simp
      ultimately show ?thesis using r by (simp add: typed_condition_def quotable_def)
    qed
  qed
qed

lemma typed_param_header:
  "s = SOURCE_HEADER \<and> m \<in> {MATCH_EQ, MATCH_CONTAINS, MATCH_EXISTS} \<or>
   s = SOURCE_PARAM \<and> m \<in> {MATCH_EQ, MATCH_CONTAINS, MATCH_EXISTS, MATCH_GT, MATCH_GTE, MATCH_LT, MATCH_LTE} \<Longrightarrow>
     typed_condition (param_header s p m v)"
  using option_modes(1,2) [of m] by (auto simp: typed_condition_def param_header_def)

lemma same_group_Some: "same_group r = Some m \<longleftrightarrow> r = Some m \<and> cap m 1 = cap m 2"
  by (auto simp: same_group_def split: option.splits)

lemma compare_operator:
  assumes "rx_exec PARAM_COMPARE_REGEX e = Some m"
  shows "the (map_of [(js ''>'', MATCH_GT), (js ''>='', MATCH_GTE), (js ''<'', MATCH_LT), (js ''<='', MATCH_LTE)] (cap_text m 3))
    \<in> {MATCH_GT, MATCH_GTE, MATCH_LT, MATCH_LTE}"
proof -
  obtain p q c n where "m_caps m = [(1, p), (2, q), (3, c), (4, n)]" "c \<in> {js ''>'', js ''>='', js ''<'', js ''<=''}"
    using exec_Some_readings [OF _ assms] unfolding readings_PARAM_COMPARE by auto
  then show ?thesis by (auto simp: cap_text_in)
qed

lemma equals_source:
  assumes "rx_exec EQUALS_REGEX e = Some m" shows "cap_text m 1 \<in> {SOURCE_PARAM, SOURCE_HEADER}"
proof -
  obtain f p l where "m_caps m = [(1, f), (2, p), (3, l)]" "f \<in> {js ''param'', js ''header''}"
    using exec_Some_readings [OF _ assms] unfolding readings_EQUALS by auto
  then show ?thesis by (auto simp: cap_text_in source_defs)
qed

lemma typed_contains:
  "contains_condition s p l = Inr (Some c) \<Longrightarrow> s \<in> {SOURCE_PARAM, SOURCE_HEADER} \<Longrightarrow> typed_condition c"
  by (auto simp: contains_condition_def intro!: typed_param_header split: option.splits)

lemma typed_request:
  assumes "tryParseRequestCondition e = Inr (Some c)" shows "typed_condition c"
proof -
  have "typed_condition (param_header (cap_text m 1) p MATCH_EQ v)" if "rx_exec EQUALS_REGEX e = Some m" for m p v
    using equals_source [OF that] by (intro typed_param_header) auto
  moreover have "typed_condition (param_header SOURCE_PARAM p (the (map_of [(js ''>'', MATCH_GT), (js ''>='', MATCH_GTE),
      (js ''<'', MATCH_LT), (js ''<='', MATCH_LTE)] (cap_text m 3))) v)" if "rx_exec PARAM_COMPARE_REGEX e = Some m" for m p v
    using compare_operator [OF that] by (intro typed_param_header) auto
  moreover have "typed_condition (param_header SOURCE_HEADER p MATCH_EXISTS v)" "typed_condition (param_header SOURCE_PARAM p MATCH_EXISTS v)"
    for p v by (intro typed_param_header, simp)+
  ultimately show ?thesis
    using assms typed_time [of e] typed_contains [of SOURCE_HEADER _ _ c] typed_contains [of SOURCE_PARAM _ _ c]
    unfolding tryParseRequestCondition_def Let_def same_group_Some
    by (simp only: insert_iff empty_iff simp_thms sum.inject option.inject option.distinct same_group_Some
        split: option.split_asm) blast+
qed

lemma read_all_Some: "read_all f xs = Inr (Some ys) \<longleftrightarrow> list_all2 (\<lambda>x y. f x = Inr (Some y)) xs ys"
  by (induction xs arbitrary: ys) (auto simp: list_all2_Cons1 split: sum.splits option.splits)

definition typed_group :: "request_rule_group \<Rightarrow> bool" where
  "typed_group g \<longleftrightarrow> rg_conditions g \<noteq> [] \<and> list_all typed_condition (rg_conditions g) \<and> numerals (rg_multiplier g)"

lemma typed_factor:
  assumes "tryParseRuleGroupFactor e = Inr (Some g)" shows "typed_group g"
proof -
  obtain m where m: "rx_exec FACTOR_REGEX e = Some m"
    using assms by (auto simp: tryParseRuleGroupFactor_def split: option.splits)
  obtain a n where r: "m_caps m = [(1, a), (2, n)]" "numerals n"
    using exec_Some_readings [OF _ m] unfolding readings_FACTOR by auto
  obtain cs where cs: "read_all (\<lambda>ap. tryParseRequestCondition (trim ap)) (splitTopLevelAnd a) = Inr (Some cs)"
    "cs \<noteq> []" "g = \<lparr>rg_conditions = cs, rg_multiplier = n\<rparr>"
    using assms by (auto simp: tryParseRuleGroupFactor_def m cap_text_in [OF r(1)] split: sum.splits option.splits if_splits)
  have "typed_condition c" if c: "c \<in> set cs" for c
  proof -
    obtain i where "i < length cs" "c = cs ! i" using c by (auto simp: in_set_conv_nth)
    then show ?thesis
      using list_all2_nthD2 [OF cs(1) [unfolded read_all_Some]] typed_request by blast
  qed
  then show ?thesis using cs r by (simp add: typed_group_def list_all_iff)
qed

lemma typed_rules:
  assumes "tryParseRequestRuleExpr e = Inr (Some gs)" shows "list_all typed_group gs"
proof (cases "trim e = []")
  case False
  then have "list_all2 (\<lambda>x y. tryParseRuleGroupFactor x = Inr (Some y)) (splitTopLevelMultiply (trim e)) gs"
    using assms by (simp add: tryParseRequestRuleExpr_def read_all_Some)
  then show ?thesis
    using typed_factor by (auto simp: list_all_length dest: list_all2_nthD2)
qed (use assms in \<open>simp add: tryParseRequestRuleExpr_def\<close>)

section \<open>Matched parentheses\<close>

text \<open>The depth after a text, starting at depth \<open>d\<close>; \<open>None\<close> if a parenthesis closes that was not open.\<close>

fun level :: "nat \<Rightarrow> jstring \<Rightarrow> nat option" where
  "level d [] = Some d"
| "level d (c # s) =
     (if c = 40 then level (Suc d) s
      else if c = 41 then (case d of 0 \<Rightarrow> None | Suc d' \<Rightarrow> level d' s)
      else level d s)"

definition matched :: "jstring \<Rightarrow> bool" where
  "matched s \<longleftrightarrow> level 0 s = Some 0"

lemma level_append: "level d (s @ t) = Option.bind (level d s) (\<lambda>e. level e t)"
  by (induction s arbitrary: d) (auto split: nat.splits)

lemma level_shift: "level d s = Some e \<Longrightarrow> level (d + k) s = Some (e + k)"
proof (induction s arbitrary: d)
  case (Cons c s)
  show ?case
    using Cons.prems Cons.IH [of "Suc d"] Cons.IH [of d] Cons.IH [of "d - 1"] by (cases d) (auto split: if_splits)
qed simp

lemma level_plain: "40 \<notin> set s \<Longrightarrow> 41 \<notin> set s \<Longrightarrow> level d s = Some d"
  by (induction s) auto

lemma matched_append: "matched s \<Longrightarrow> matched t \<Longrightarrow> matched (s @ t)"
  by (simp add: matched_def level_append)

lemma matched_plain: "40 \<notin> set s \<Longrightarrow> 41 \<notin> set s \<Longrightarrow> matched s"
  by (simp add: matched_def level_plain)

lemma matched_parens: "matched s \<Longrightarrow> matched (40 # s @ [41])"
  using level_shift [of 0 s 0 1] by (simp add: matched_def level_append)

text \<open>Inside parentheses nothing is split off.\<close>

lemma split_inside:
  "level d s = Some e \<Longrightarrow>
     split_top_level sep (int (Suc d)) cur (s @ r) = split_top_level sep (int (Suc e)) (rev s @ cur) r"
proof (induction s arbitrary: d cur)
  case (Cons c s)
  show ?case
  proof (cases "c = 41")
    case True
    with Cons.prems obtain d' where d': "d = Suc d'" "level d' s = Some e" by (auto split: nat.splits)
    show ?thesis using True Cons.IH [OF d'(2), of "c # cur"] d'(1) by (simp add: split_top_level.simps(2))
  next
    case False
    show ?thesis
    proof (cases "c = 40")
      case True
      then show ?thesis using Cons.IH [of "Suc d" "c # cur"] Cons.prems by (simp add: split_top_level.simps(2) add.commute)
    next
      case False
      then show ?thesis using Cons.IH [of d "c # cur"] Cons.prems \<open>c \<noteq> 41\<close> by (simp add: split_top_level.simps(2))
    qed
  qed
qed simp

lemma split_factor:
  assumes "matched s" and "sep \<noteq> []" and "hd sep = 32"
  shows "split_top_level sep 0 cur (40 # s @ 41 # r) = split_top_level sep 0 (41 # rev s @ 40 # cur) r"
proof -
  have "take (length sep) (x # y) \<noteq> sep" if "x \<noteq> 32" for x y using assms(2,3) that by (cases sep) auto
  then show ?thesis
    using split_inside [of 0 s 0 sep "40 # cur" "41 # r"] assms(1) by (simp add: split_top_level.simps(2) matched_def)
qed

text \<open>A separator ends the part before it.\<close>

lemma split_separator:
  assumes "sep \<noteq> []" and "hd sep = 32"
  shows "split_top_level sep 0 cur (sep @ r) = trim (rev cur) # split_top_level sep 0 [] r"
  using assms by (cases sep) (auto simp: split_top_level.simps(2))

definition factor :: "jstring \<Rightarrow> bool" where
  "factor f \<longleftrightarrow> (\<exists>g. f = 40 # g @ [41] \<and> matched g)"

lemma factor_trim: "factor f \<Longrightarrow> trim f = f" "factor f \<Longrightarrow> f \<noteq> []"
  by (auto simp: factor_def trimmed_def ascii_not_ws intro!: trim_trimmed)

lemma split_factors:
  assumes "fs \<noteq> []" and "list_all factor fs"
  shows "splitTopLevelMultiply (join (js '' * '') fs) = fs"
proof -
  have sep: "js '' * '' \<noteq> []" "hd (js '' * '') = 32" by (simp_all add: js_eval)
  have one: "split_top_level (js '' * '') 0 [] (f @ r) = split_top_level (js '' * '') 0 (rev f) r" if f: "factor f" for f r
    using f split_factor [OF _ sep, of _ "[]"] by (auto simp: factor_def)
  have "split_top_level (js '' * '') 0 [] (join (js '' * '') fs) = fs"
    using assms
  proof (induction fs)
    case (Cons f fs)
    then have f: "factor f" by simp
    show ?case
    proof (cases "fs = []")
      case True
      then show ?thesis using one [OF f, of "[]"] factor_trim [OF f] by simp
    next
      case False
      then show ?thesis
        using Cons.IH Cons.prems by (simp add: join_Cons one [OF f] split_separator [OF sep] factor_trim [OF f])
    qed
  qed simp
  moreover have "nonempty fs = fs" using assms(2) factor_trim(2) by (auto simp: nonempty_def list_all_iff filter_id_conv)
  ultimately show ?thesis by (simp add: splitTopLevelMultiply_def)
qed

lemma split_and_skip:
  assumes "level d s = Some e" and "38 \<notin> set s" and "r = [] \<or> hd r \<noteq> 38"
  shows "split_top_level (js '' && '') (int d) cur (s @ r) = split_top_level (js '' && '') (int e) (rev s @ cur) r"
  using assms
proof (induction s arbitrary: d cur)
  case (Cons c s)
  have no: "take (length (js '' && '')) (c # s @ r) \<noteq> js '' && ''"
    using Cons.prems(2,3) by (cases s; cases r) (auto simp: js_eval)
  show ?case
    using Cons.prems Cons.IH [of "Suc d" "c # cur"] Cons.IH [of d "c # cur"] Cons.IH [of "d - 1" "c # cur"] no
    by (cases d) (auto simp: split_top_level.simps(2) Let_def add.commute split: if_splits)
qed simp

definition and_part :: "jstring \<Rightarrow> bool" where
  "and_part p \<longleftrightarrow> p \<noteq> [] \<and> trimmed p \<and> matched p \<and> 38 \<notin> set p"

lemma split_and_parts:
  assumes "ps \<noteq> []" and "list_all and_part ps"
  shows "splitTopLevelAnd (join (js '' && '') ps) = ps"
proof -
  have sep: "js '' && '' \<noteq> []" "hd (js '' && '') = 32" by (simp_all add: js_eval)
  have one: "split_top_level (js '' && '') 0 [] (p @ r) = split_top_level (js '' && '') 0 (rev p) r"
    if p: "and_part p" "r = [] \<or> hd r = 32" for p r
    using split_and_skip [of 0 p 0 r "[]"] p by (auto simp: and_part_def matched_def)
  have "split_top_level (js '' && '') 0 [] (join (js '' && '') ps) = ps"
    using assms
  proof (induction ps)
    case (Cons p ps)
    then have p: "and_part p" "trim p = p" by (simp_all add: and_part_def)
    show ?case
    proof (cases "ps = []")
      case True
      then show ?thesis using one [OF p(1), of "[]"] p(2) by simp
    next
      case False
      have "hd (js '' && '' @ join (js '' && '') ps) = 32" by (simp add: js_eval)
      then show ?thesis
        using Cons.IH Cons.prems False p(2) by (simp add: join_Cons one [OF p(1)] split_separator [OF sep])
    qed
  qed simp
  moreover have "nonempty ps = ps" using assms(2) by (auto simp: nonempty_def list_all_iff filter_id_conv and_part_def)
  ultimately show ?thesis by (simp add: splitTopLevelAnd_def)
qed

lemma join_append: "a \<noteq> [] \<Longrightarrow> b \<noteq> [] \<Longrightarrow> join sep (a @ b) = join sep a @ sep @ join sep b"
proof (induction a)
  case (Cons x a)
  then show ?case by (cases "a = []") (auto simp: join_Cons)
qed simp

lemma join_concat:
  "\<forall>xs \<in> set xss. xs \<noteq> [] \<Longrightarrow> join sep (map (join sep) xss) = join sep (concat xss)"
proof (induction xss)
  case (Cons xs xss)
  have "concat xss \<noteq> []" if "xss \<noteq> []" using that Cons.prems by (cases xss) auto
  then show ?case using Cons by (cases "xss = []") (auto simp: join_Cons join_append)
qed simp

section \<open>Reading what the printer writes\<close>

lemma quote_eq:
  "quotable p \<Longrightarrow> quotable q \<Longrightarrow> p @ 34 # v = q @ 34 # w \<longleftrightarrow> p = q \<and> v = w"
  using quote_split [of p v q w] by (auto simp: quotable_def list_all_iff)

lemma time_none:
  assumes "\<And>f r. f \<in> set TIME_FUNCS \<Longrightarrow> e \<noteq> f @ r" and "\<And>r. e \<noteq> 40 # r"
  shows "tryParseTimeCondition e = None"
proof -
  have "readings TIME_RANGE_REGEX e = {}" "readings TIME_COMPARE_REGEX e = {}"
    using assms(1) unfolding readings_TIME_RANGE readings_TIME_COMPARE by auto
  moreover have "readings TIME_RANGE_PARENS_REGEX e = {}"
    using assms(2) unfolding readings_TIME_RANGE_PARENS by (auto simp: js_eval)
  ultimately show ?thesis by (simp add: tryParseTimeCondition_def exec_None_readings [symmetric])
qed

abbreviation named :: "jstring \<Rightarrow> jstring \<Rightarrow> jstring \<Rightarrow> jstring" where
  "named src p t \<equiv> src @ js ''(\"'' @ p @ js ''\") '' @ t"

lemma named_readings:
  assumes "quotable p"
  shows "readings HEADER_EXISTS_REGEX (named (js ''header'') p t) = (if t = js ''!= \"\"'' then {[(1, p)]} else {})"
    and "readings HEADER_EXISTS_REGEX (named (js ''param'') p t) = {}"
    and "readings PARAM_EXISTS_REGEX (named (js ''param'') p t) = (if t = js ''!= nil'' then {[(1, p)]} else {})"
    and "readings PARAM_EXISTS_REGEX (named (js ''header'') p t) = {}"
    and "readings HEADER_CONTAINS_REGEX (named (js ''param'') p t) = {}"
    and "readings HEADER_CONTAINS_REGEX (named (js ''header'') p t) = {}"
    and "readings PARAM_CONTAINS_REGEX (named (js ''header'') p t) = {}"
    and "readings PARAM_COMPARE_REGEX (named (js ''header'') p t) = {}"
    and "38 \<notin> set t \<Longrightarrow> readings PARAM_CONTAINS_REGEX (named (js ''param'') p t) = {}"
    and "38 \<notin> set t \<Longrightarrow> readings PARAM_COMPARE_REGEX (named (js ''param'') p t) = {}"
  unfolding readings_HEADER_EXISTS readings_PARAM_EXISTS readings_HEADER_CONTAINS readings_PARAM_CONTAINS
    readings_PARAM_COMPARE
  by (auto simp: js_eval quote_eq assms)

lemma named_equals:
  assumes "quotable p" and "f \<in> {js ''param'', js ''header''}"
  shows "readings EQUALS_REGEX (named f p t) =
    (if take 3 t = js ''== '' \<and> drop 3 t \<noteq> [] \<and> list_all (\<lambda>c. \<not> is_line_end c) (drop 3 t)
     then {[(1, f), (2, p), (3, drop 3 t)]} else {})"
proof -
  have a: "readings EQUALS_REGEX (named f p t) = {[(1, f), (2, p), (3, l)] | l. t = js ''== '' @ l \<and> l \<noteq> [] \<and> list_all (\<lambda>c. \<not> is_line_end c) l}"
    unfolding readings_EQUALS using assms by (auto simp: js_eval quote_eq)
  have b: "(t = js ''== '' @ l) \<longleftrightarrow> take 3 t = js ''== '' \<and> drop 3 t = l" for l
    using append_eq_conv_conj [of "js ''== ''" l t] by (auto simp: numeral_3_eq_3)
  show ?thesis unfolding a b by auto
qed

lemma exec_given:
  assumes "anchored r" and "readings r e = (if b then {c} else {})"
  shows "b \<Longrightarrow> \<exists>m. rx_exec r e = Some m \<and> m_caps m = c" and "\<not> b \<Longrightarrow> rx_exec r e = None"
  using exec_single [OF assms(1)] exec_None_readings [OF assms(1)] assms(2) by auto

lemma named_not_time: "f \<in> {js ''param'', js ''header''} \<Longrightarrow> tryParseTimeCondition (named f p t) = None"
  by (rule time_none) (auto simp: TIME_FUNCS_def js_eval)

lemma read_header:
  assumes "quotable p"
  shows "tryParseRequestCondition (named (js ''header'') p (js ''!= \"\"'')) = Inr (Some (param_header SOURCE_HEADER p MATCH_EXISTS []))"
proof -
  obtain m where "rx_exec HEADER_EXISTS_REGEX (named (js ''header'') p (js ''!= \"\"'')) = Some m" "m_caps m = [(1, p)]"
    using exec_given(1) [OF _ named_readings(1) [OF assms]] by auto
  then show ?thesis by (simp add: tryParseRequestCondition_def named_not_time cap_text_in)
qed

lemma read_param:
  assumes "quotable p"
  shows "tryParseRequestCondition (named (js ''param'') p (js ''!= nil'')) = Inr (Some (param_header SOURCE_PARAM p MATCH_EXISTS []))"
proof -
  obtain m where "rx_exec PARAM_EXISTS_REGEX (named (js ''param'') p (js ''!= nil'')) = Some m" "m_caps m = [(1, p)]"
    using exec_given(1) [OF _ named_readings(3) [OF assms]] by auto
  moreover have "rx_exec HEADER_EXISTS_REGEX (named (js ''param'') p (js ''!= nil'')) = None"
    using exec_None_readings named_readings(2) [OF assms] by simp
  ultimately show ?thesis by (simp add: tryParseRequestCondition_def named_not_time cap_text_in)
qed

lemma named_only_equals:
  assumes "quotable p" and "f \<in> {js ''param'', js ''header''}" and "38 \<notin> set t" and "hd t \<noteq> 33"
  shows "tryParseRequestCondition (named f p t) =
    (case rx_exec EQUALS_REGEX (named f p t) of
       Some m \<Rightarrow>
         (case parseExprLiteral (cap_text m 3) of
            None \<Rightarrow> Inr None
          | Some v \<Rightarrow> Inr (Some (param_header (cap_text m 1) (cap_text m 2) MATCH_EQ (to_string v))))
     | None \<Rightarrow> Inr None)"
proof -
  let ?e = "named f p t"
  have t: "t \<noteq> js ''!= \"\"''" "t \<noteq> js ''!= nil''" using assms(4) by (auto simp: js_eval)
  have "rx_exec HEADER_EXISTS_REGEX ?e = None" "rx_exec PARAM_EXISTS_REGEX ?e = None" "rx_exec HEADER_CONTAINS_REGEX ?e = None"
    "rx_exec PARAM_CONTAINS_REGEX ?e = None" "rx_exec PARAM_COMPARE_REGEX ?e = None"
    using assms(2) t by (auto simp: exec_None_readings named_readings [OF assms(1)] assms(3))
  then show ?thesis by (simp add: tryParseRequestCondition_def named_not_time [OF assms(2)] same_group_def)
qed

lemma read_equals:
  assumes "quotable p" and "f \<in> {js ''param'', js ''header''}" and "38 \<notin> set l"
    and "list_all (\<lambda>c. \<not> is_line_end c) l" and "l \<noteq> []" and "parseExprLiteral l = Some v"
  shows "tryParseRequestCondition (named f p (js ''== '' @ l)) = Inr (Some (param_header f p MATCH_EQ (to_string v)))"
proof -
  let ?t = "js ''== '' @ l"
  obtain m where m: "rx_exec EQUALS_REGEX (named f p ?t) = Some m" "m_caps m = [(1, f), (2, p), (3, l)]"
    using exec_given(1) [OF _ named_equals [OF assms(1,2), of ?t]] assms(4,5) by (auto simp: js_eval)
  have t: "38 \<notin> set ?t" "hd ?t \<noteq> 33" using assms(3) by (simp_all add: js_eval)
  show ?thesis unfolding named_only_equals [OF assms(1,2) t] m(1) by (simp add: cap_text_in [OF m(2)] assms(6))
qed

text \<open>A comparison that lost its guard is not read.\<close>

lemma read_no_equals:
  assumes "quotable p" and "38 \<notin> set t" and "hd t \<noteq> 33" and "hd t \<noteq> 61" and "t \<noteq> []"
  shows "tryParseRequestCondition (named (js ''param'') p t) = Inr None"
proof -
  have "take 3 t \<noteq> js ''== ''" using assms(4,5) by (cases t) (auto simp: js_eval)
  then have "rx_exec EQUALS_REGEX (named (js ''param'') p t) = None"
    using exec_given(2) [OF _ named_equals [OF assms(1)], of "js ''param''"] by simp
  then show ?thesis using named_only_equals [OF assms(1) _ assms(2,3), of "js ''param''"] by simp
qed

lemma literal_body_append: "literal_body u \<Longrightarrow> literal_body (u @ v) = literal_body v"
proof (induction u rule: literal_body.induct)
  case (2 c s)
  then show ?case by (cases s) (auto split: if_splits)
qed simp

lemma quote_body_literal: "literal_body (quote_body s)"
proof -
  have u: "literal_body (u_escape c)" for c
    by (simp add: u_escape_def hex_char_def is_line_end_def)
  have q: "literal_body (quote_unit c)" for c
    using u by (auto simp: quote_unit_def ascii_not_line_end dest!: map_of_SomeD split: option.splits)
  show ?thesis
  proof (induction s rule: quote_body.induct)
    case (2 c)
    then show ?case using u q by simp
  next
    case (3 c d s)
    then show ?case using u q by (auto simp: literal_body_append leading_def trailing_def)
  qed simp
qed

lemma stringify_text: "JSON_stringify (JStr s) = 34 # quote_body s @ [34]"
  by (simp add: JSON_stringify_def quote_def)

lemma parse_stringify_text: "JSON_parse (JSON_stringify (JStr s)) = Some (JStr s)"
  by (rule JSON_parse_stringify) simp

lemma stringify_literal: "string_literal (JSON_stringify (JStr s))"
  by (auto simp: stringify_text string_literal_def quote_body_literal)

lemma read_header_contains:
  assumes "quotable p"
  shows "tryParseRequestCondition (js ''has(header(\"'' @ p @ js ''\"), '' @ JSON_stringify (JStr v) @ js '')'') =
    Inr (Some (param_header SOURCE_HEADER p MATCH_CONTAINS v))"
proof -
  let ?l = "JSON_stringify (JStr v)"
  let ?e = "js ''has(header(\"'' @ p @ js ''\"), '' @ ?l @ js '')''"
  have "tryParseTimeCondition ?e = None" by (rule time_none) (auto simp: TIME_FUNCS_def js_eval)
  moreover have "readings HEADER_EXISTS_REGEX ?e = {}" "readings PARAM_EXISTS_REGEX ?e = {}"
    unfolding readings_HEADER_EXISTS readings_PARAM_EXISTS by (auto simp: js_eval)
  moreover have "readings HEADER_CONTAINS_REGEX ?e = {[(1, p), (2, ?l)]}"
    unfolding readings_HEADER_CONTAINS using stringify_literal [of v] by (auto simp: js_eval quote_eq assms)
  then obtain m where "rx_exec HEADER_CONTAINS_REGEX ?e = Some m" "m_caps m = [(1, p), (2, ?l)]"
    using exec_single by (metis anchored_patterns(3))
  ultimately show ?thesis
    by (simp add: tryParseRequestCondition_def exec_None_readings [symmetric] cap_text_in contains_condition_def parse_stringify_text)
qed

lemma read_no_contains: "tryParseRequestCondition (js ''has(param(\"'' @ r) = Inr None"
proof -
  let ?e = "js ''has(param(\"'' @ r"
  have "tryParseTimeCondition ?e = None" by (rule time_none) (auto simp: TIME_FUNCS_def js_eval)
  moreover have "readings HEADER_EXISTS_REGEX ?e = {}" "readings PARAM_EXISTS_REGEX ?e = {}" "readings HEADER_CONTAINS_REGEX ?e = {}"
    "readings PARAM_CONTAINS_REGEX ?e = {}" "readings PARAM_COMPARE_REGEX ?e = {}" "readings EQUALS_REGEX ?e = {}"
    unfolding readings_HEADER_EXISTS readings_PARAM_EXISTS readings_HEADER_CONTAINS readings_PARAM_CONTAINS
      readings_PARAM_COMPARE readings_EQUALS by (auto simp: js_eval)
  ultimately show ?thesis
    by (simp add: tryParseRequestCondition_def exec_None_readings [symmetric] same_group_def)
qed

lemma func_eq: "f \<in> set TIME_FUNCS \<Longrightarrow> g \<in> set TIME_FUNCS \<Longrightarrow> f @ 40 # x = g @ 40 # y \<longleftrightarrow> f = g \<and> x = y"
  by (auto simp: TIME_FUNCS_def js_eval)

lemma numeral_eq:
  assumes "numerals a" and "numerals b" and "\<not> number_unit c"
  shows "a @ c # x = b @ c # y \<longleftrightarrow> a = b \<and> x = y"
  using class_split [of a "c # x" b "c # y" number_unit] assms by (auto simp: numerals_def)

lemma numerals_no_unit: "numerals a \<Longrightarrow> \<not> number_unit c \<Longrightarrow> a \<noteq> b @ c # x"
  by (auto simp: numerals_def)

definition time_range_text :: "jstring \<Rightarrow> jstring \<Rightarrow> jstring \<Rightarrow> jstring \<Rightarrow> jstring" where
  "time_range_text f z a b = f @ js ''(\"'' @ z @ js ''\") >= '' @ a @ js '' || '' @ f @ js ''(\"'' @ z @ js ''\") < '' @ b"

abbreviation range_condition where
  "range_condition f z a b \<equiv> TimeCondition \<lparr>tm_timeFunc = f, tm_timezone = z, tm_mode = MATCH_RANGE, tm_value = [],
     tm_rangeStart = a, tm_rangeEnd = b\<rparr>"

lemma read_time_range:
  assumes "f \<in> set TIME_FUNCS" and "quotable z" and "numerals a" and "numerals b"
  shows "tryParseTimeCondition (time_range_text f z a b) = Some (range_condition f z a b)"
    and "tryParseTimeCondition (js ''('' @ time_range_text f z a b @ js '')'') = Some (range_condition f z a b)"
proof -
  note eqs = js_eval func_eq quote_eq numeral_eq number_unit_not assms
  have "readings TIME_RANGE_REGEX (time_range_text f z a b) = {[(1, f), (2, z), (3, a), (4, b)]}"
    unfolding readings_TIME_RANGE time_range_text_def by (auto simp: eqs)
  then obtain m where "rx_exec TIME_RANGE_REGEX (time_range_text f z a b) = Some m" "m_caps m = [(1, f), (2, z), (3, a), (4, b)]"
    using exec_single by (metis anchored_patterns(7))
  then show "tryParseTimeCondition (time_range_text f z a b) = Some (range_condition f z a b)"
    by (simp add: tryParseTimeCondition_def time_range_of_def cap_text_in)
  let ?e = "js ''('' @ time_range_text f z a b @ js '')''"
  have "readings TIME_RANGE_REGEX ?e = {}"
    unfolding readings_TIME_RANGE by (auto simp: js_eval TIME_FUNCS_def)
  moreover have "readings TIME_RANGE_PARENS_REGEX ?e = {[(1, f), (2, z), (3, a), (4, b)]}"
    unfolding readings_TIME_RANGE_PARENS time_range_text_def by (auto simp: eqs)
  then obtain m where "rx_exec TIME_RANGE_PARENS_REGEX ?e = Some m" "m_caps m = [(1, f), (2, z), (3, a), (4, b)]"
    using exec_single by (metis anchored_patterns(8))
  ultimately show "tryParseTimeCondition ?e = Some (range_condition f z a b)"
    by (simp add: tryParseTimeCondition_def time_range_of_def cap_text_in exec_None_readings [symmetric])
qed

lemma read_time_compare:
  assumes "f \<in> set TIME_FUNCS" and "quotable z" and "numerals n" and "(c, m) \<in> {(js ''=='', MATCH_EQ), (js ''>='', MATCH_GTE), (js ''<'', MATCH_LT)}"
  shows "tryParseTimeCondition (f @ js ''(\"'' @ z @ js ''\") '' @ c @ js '' '' @ n) =
    Some (TimeCondition \<lparr>tm_timeFunc = f, tm_timezone = z, tm_mode = m, tm_value = n, tm_rangeStart = [], tm_rangeEnd = []\<rparr>)"
proof -
  let ?e = "f @ js ''(\"'' @ z @ js ''\") '' @ c @ js '' '' @ n"
  note eqs = js_eval func_eq quote_eq numeral_eq number_unit_not numerals_no_unit assms(1-3)
  have "readings TIME_RANGE_REGEX ?e = {}"
    unfolding readings_TIME_RANGE using assms(4) by (auto simp: eqs)
  moreover have "readings TIME_RANGE_PARENS_REGEX ?e = {}"
    unfolding readings_TIME_RANGE_PARENS using assms(1) by (auto simp: js_eval TIME_FUNCS_def)
  moreover have "readings TIME_COMPARE_REGEX ?e = {[(1, f), (2, z), (3, c), (4, n)]}"
    unfolding readings_TIME_COMPARE using assms(4) by (auto simp: eqs)
  then obtain x where "rx_exec TIME_COMPARE_REGEX ?e = Some x" "m_caps x = [(1, f), (2, z), (3, c), (4, n)]"
    using exec_single by (metis anchored_patterns(9))
  ultimately show ?thesis
    using assms(4) by (auto simp: tryParseTimeCondition_def cap_text_in exec_None_readings [symmetric])
qed

section \<open>Conditions the printer can write\<close>

text \<open>
  \<open>plain_text\<close> texts have no parentheses and none of the characters of \<open>&&\<close> and \<open>||\<close>. A \<open>plain_name\<close> is a
  text that \<open>JSON.stringify\<close> only puts in quotes.
\<close>

definition plain_text :: "jstring \<Rightarrow> bool" where
  "plain_text s \<longleftrightarrow> list_all (\<lambda>c. c \<notin> {38, 40, 41, 124}) s"

definition plain_name :: "jstring \<Rightarrow> bool" where
  "plain_name s \<longleftrightarrow> quotable s \<and> quote_body s = s \<and> plain_text s"

definition numeric :: "jstring \<Rightarrow> bool" where
  "numeric s \<longleftrightarrow> rx_test NUMERIC_LITERAL_REGEX s"

definition value_text :: "jstring \<Rightarrow> bool" where
  "value_text s \<longleftrightarrow> trimmed s \<and> plain_text s \<and> list_all (\<lambda>c. c \<noteq> 8232 \<and> c \<noteq> 8233) s"

definition printable :: "request_condition \<Rightarrow> bool" where
  "printable cond \<longleftrightarrow> typed_condition cond \<and>
     (case cond of
        TimeCondition c \<Rightarrow> plain_name (tm_timezone c) \<and>
          (if tm_mode c = MATCH_RANGE
           then numeric (tm_rangeStart c) \<and> numeric (tm_rangeEnd c) \<and> tm_value c = []
           else numeric (tm_value c) \<and> tm_rangeStart c = [] \<and> tm_rangeEnd c = [])
      | ParamHeaderCondition c \<Rightarrow> plain_name (ph_path c) \<and> trimmed (ph_path c) \<and>
          (if ph_mode c = MATCH_EXISTS then ph_value c = []
           else if ph_mode c \<in> {MATCH_EQ, MATCH_CONTAINS} then value_text (ph_value c)
           else numeric (ph_value c)))"

text \<open>The conditions whose text the reader splits at its own \<open>&&\<close>.\<close>

definition guarded :: "request_condition \<Rightarrow> bool" where
  "guarded cond =
     (case cond of
        TimeCondition c \<Rightarrow> False
      | ParamHeaderCondition c \<Rightarrow> ph_source c = SOURCE_PARAM \<and> ph_mode c \<notin> {MATCH_EQ, MATCH_EXISTS})"

lemma numeric_numerals: "numeric s \<Longrightarrow> numerals s"
  using numeric_units by (auto simp: numeric_def numerals_def)

definition time_compare :: "jstring \<Rightarrow> jstring \<Rightarrow> jstring \<Rightarrow> jstring \<Rightarrow> request_condition" where
  "time_compare f z m n =
     TimeCondition \<lparr>tm_timeFunc = f, tm_timezone = z, tm_mode = m, tm_value = n, tm_rangeStart = [], tm_rangeEnd = []\<rparr>"

lemma printable_cases:
  assumes "printable cond"
  obtains
    (range) f z a b where "cond = range_condition f z a b" "f \<in> set TIME_FUNCS" "plain_name z" "numeric a" "numeric b"
  | (compare) f z c m n where "cond = time_compare f z m n" "f \<in> set TIME_FUNCS" "plain_name z" "numeric n"
      "(c, m) \<in> {(js ''=='', MATCH_EQ), (js ''>='', MATCH_GTE), (js ''<'', MATCH_LT)}"
  | (header_exists) p where "cond = param_header SOURCE_HEADER p MATCH_EXISTS []" "plain_name p" "trimmed p"
  | (param_exists) p where "cond = param_header SOURCE_PARAM p MATCH_EXISTS []" "plain_name p" "trimmed p"
  | (equals) f p v where "cond = param_header f p MATCH_EQ v" "f \<in> {SOURCE_PARAM, SOURCE_HEADER}" "plain_name p" "trimmed p" "value_text v"
  | (header_contains) p v where "cond = param_header SOURCE_HEADER p MATCH_CONTAINS v" "plain_name p" "trimmed p" "value_text v"
  | (param_contains) p v where "cond = param_header SOURCE_PARAM p MATCH_CONTAINS v" "plain_name p" "trimmed p" "value_text v"
  | (param_compare) p c m v where "cond = param_header SOURCE_PARAM p m v" "plain_name p" "trimmed p" "numeric v"
      "(c, m) \<in> {(js ''>'', MATCH_GT), (js ''>='', MATCH_GTE), (js ''<'', MATCH_LT), (js ''<='', MATCH_LTE)}"
proof (cases cond)
  case (TimeCondition t)
  obtain f z m v a b where t: "t = \<lparr>tm_timeFunc = f, tm_timezone = z, tm_mode = m, tm_value = v, tm_rangeStart = a, tm_rangeEnd = b\<rparr>"
    by (cases t)
  have m: "m \<in> {MATCH_EQ, MATCH_GTE, MATCH_LT, MATCH_RANGE}" and f: "f \<in> set TIME_FUNCS" "plain_name z"
    using assms by (auto simp: printable_def TimeCondition t typed_condition_def getRequestRuleMatchOptions_def)
  show ?thesis
  proof (cases "m = MATCH_RANGE")
    case True
    then show ?thesis using assms f by (intro range [of f z a b]) (simp_all add: printable_def TimeCondition t)
  next
    case False
    then obtain c where "(c, m) \<in> {(js ''=='', MATCH_EQ), (js ''>='', MATCH_GTE), (js ''<'', MATCH_LT)}" using m by auto
    then show ?thesis
      using assms f False by (intro compare [of f z m v c]) (simp_all add: printable_def TimeCondition t time_compare_def)
  qed
next
  case (ParamHeaderCondition t)
  obtain s p m v where t: "t = \<lparr>ph_source = s, ph_path = p, ph_mode = m, ph_value = v\<rparr>" by (cases t)
  have c: "cond = param_header s p m v" by (simp add: ParamHeaderCondition t param_header_def)
  have ty: "s = SOURCE_PARAM \<or> s = SOURCE_HEADER" "m \<in> mo_mode ` set (getRequestRuleMatchOptions s)" "plain_name p" "trimmed p"
    using assms by (auto simp: printable_def ParamHeaderCondition t typed_condition_def)
  have v: "if m = MATCH_EXISTS then v = [] else if m \<in> {MATCH_EQ, MATCH_CONTAINS} then value_text v else numeric v"
    using assms by (auto simp: printable_def ParamHeaderCondition t split: if_splits)
  consider "m = MATCH_EXISTS" | "m = MATCH_EQ" | "m = MATCH_CONTAINS" | "m \<notin> {MATCH_EXISTS, MATCH_EQ, MATCH_CONTAINS}" by auto
  then show ?thesis
  proof cases
    case 1
    then show ?thesis using c ty v header_exists param_exists by auto
  next
    case 2
    then show ?thesis using c ty v equals by (auto simp: mode_defs)
  next
    case 3
    then show ?thesis using c ty v header_contains param_contains by (auto simp: mode_defs)
  next
    case 4
    have s: "s = SOURCE_PARAM" using ty(1,2) 4 by (auto simp: getRequestRuleMatchOptions_def source_defs)
    have "m \<in> {MATCH_GT, MATCH_GTE, MATCH_LT, MATCH_LTE}"
      using ty(2) 4 by (auto simp: s getRequestRuleMatchOptions_def source_defs)
    then obtain d where "(d, m) \<in> {(js ''>'', MATCH_GT), (js ''>='', MATCH_GTE), (js ''<'', MATCH_LT), (js ''<='', MATCH_LTE)}" by auto
    then show ?thesis using c ty v 4 s by (intro param_compare [of p m v d]) auto
  qed
qed

definition param_guard :: "jstring \<Rightarrow> jstring" where
  "param_guard p = named (js ''param'') p (js ''!= nil'')"

lemma build_typed:
  "typed_condition (TimeCondition t) \<Longrightarrow> buildRequestConditionExpr (TimeCondition t) = build_time_expr t"
  "typed_condition (ParamHeaderCondition c) \<Longrightarrow> buildRequestConditionExpr (ParamHeaderCondition c) = build_param_header_expr c"
  using normalize_fixed [of "TimeCondition t"] normalize_fixed [of "ParamHeaderCondition c"]
  by (simp_all add: buildRequestConditionExpr_def)

lemma printable_typed: "printable c \<Longrightarrow> typed_condition c"
  by (simp add: printable_def)

lemma numerals_trimmed: "numerals s \<Longrightarrow> trimmed s"
proof (rule trimmed_noWs, intro ballI)
  fix c assume "numerals s" "c \<in> set s"
  then have "number_unit c" by (simp add: numerals_def list_all_iff)
  then show "\<not> is_ws c" using digit_not_ws by (auto simp: number_unit_def ascii_not_ws js_eval)
qed

lemma name_stringify: "plain_name p \<Longrightarrow> JSON_stringify (JStr p) = 34 # p @ [34]"
  by (simp add: stringify_text plain_name_def)

lemma name_quotable: "plain_name p \<Longrightarrow> quotable p" "plain_name p \<Longrightarrow> p \<noteq> []"
  by (auto simp: plain_name_def quotable_def)

lemma build_param_header:
  assumes "printable (param_header s p m v)"
  shows "buildRequestConditionExpr (param_header s p m v) =
    build_param_header_expr \<lparr>ph_source = s, ph_path = p, ph_mode = m, ph_value = v\<rparr>"
  using build_typed(2) printable_typed [OF assms] by (simp add: param_header_def)

lemma build_header_exists:
  assumes "printable (param_header SOURCE_HEADER p MATCH_EXISTS [])" and "plain_name p" and "trimmed p"
  shows "buildRequestConditionExpr (param_header SOURCE_HEADER p MATCH_EXISTS []) = named (js ''header'') p (js ''!= \"\"'')"
  unfolding build_param_header [OF assms(1)]
  by (simp add: build_param_header_expr_def assms(3) name_quotable [OF assms(2)]
      name_stringify [OF assms(2)] js_eval)

lemma build_param_exists:
  assumes "printable (param_header SOURCE_PARAM p MATCH_EXISTS [])" and "plain_name p" and "trimmed p"
  shows "buildRequestConditionExpr (param_header SOURCE_PARAM p MATCH_EXISTS []) = named (js ''param'') p (js ''!= nil'')"
  unfolding build_param_header [OF assms(1)]
  by (simp add: build_param_header_expr_def assms(3) name_quotable [OF assms(2)]
      name_stringify [OF assms(2)] source_defs js_eval)

lemma build_equals:
  assumes "printable (param_header f p MATCH_EQ v)" and "f \<in> {SOURCE_PARAM, SOURCE_HEADER}" and "plain_name p" and "trimmed p"
  shows "buildRequestConditionExpr (param_header f p MATCH_EQ v) = named f p (js ''== '' @ buildExprLiteral MATCH_EQ v)"
  unfolding build_param_header [OF assms(1)]
  using assms(2) by (auto simp: build_param_header_expr_def assms(4) name_quotable [OF assms(3)]
      name_stringify [OF assms(3)] source_defs mode_defs js_eval)

lemma build_header_contains:
  assumes "printable (param_header SOURCE_HEADER p MATCH_CONTAINS v)" and "plain_name p" and "trimmed p" and "trimmed v"
  shows "buildRequestConditionExpr (param_header SOURCE_HEADER p MATCH_CONTAINS v) =
    js ''has(header(\"'' @ p @ js ''\"), '' @ JSON_stringify (JStr v) @ js '')''"
  unfolding build_param_header [OF assms(1)]
  by (simp add: build_param_header_expr_def assms(3,4) name_quotable [OF assms(2)]
      name_stringify [OF assms(2)] buildExprLiteral_def mode_defs js_eval)

lemma build_param_contains:
  assumes "printable (param_header SOURCE_PARAM p MATCH_CONTAINS v)" and "plain_name p" and "trimmed p" and "trimmed v"
  shows "buildRequestConditionExpr (param_header SOURCE_PARAM p MATCH_CONTAINS v) =
    param_guard p @ js '' && '' @ js ''has(param(\"'' @ p @ js ''\"), '' @ JSON_stringify (JStr v) @ js '')''"
  unfolding build_param_header [OF assms(1)]
  by (simp add: build_param_header_expr_def assms(3,4) name_quotable [OF assms(2)]
      name_stringify [OF assms(2)] buildExprLiteral_def param_guard_def source_defs mode_defs js_eval)

lemma build_param_compare:
  assumes "printable (param_header SOURCE_PARAM p m v)" and "plain_name p" and "trimmed p" and "numeric v"
    and "(c, m) \<in> {(js ''>'', MATCH_GT), (js ''>='', MATCH_GTE), (js ''<'', MATCH_LT), (js ''<='', MATCH_LTE)}"
  shows "buildRequestConditionExpr (param_header SOURCE_PARAM p m v) =
    param_guard p @ js '' && '' @ named (js ''param'') p (c @ js '' '' @ v)"
  unfolding build_param_header [OF assms(1)]
  using assms(4,5) numerals_trimmed [OF numeric_numerals [OF assms(4)]]
  by (auto simp: build_param_header_expr_def assms(3) name_quotable [OF assms(2)]
      name_stringify [OF assms(2)] numeric_def param_guard_def source_defs mode_defs js_eval)

lemma build_range:
  assumes "printable (range_condition f z a b)" and "plain_name z" and "numeric a" and "numeric b"
  shows "buildRequestConditionExpr (range_condition f z a b) = time_range_text f z a b"
  using assms(3,4) numerals_trimmed [OF numeric_numerals [OF assms(3)]] numerals_trimmed [OF numeric_numerals [OF assms(4)]]
  unfolding build_typed(1) [OF printable_typed [OF assms(1)]]
  by (simp add: build_time_expr_def name_stringify [OF assms(2)]
      numeric_def time_range_text_def js_eval)

lemma build_compare:
  assumes "printable (time_compare f z m n)" and "plain_name z" and "numeric n"
    and "(c, m) \<in> {(js ''=='', MATCH_EQ), (js ''>='', MATCH_GTE), (js ''<'', MATCH_LT)}"
  shows "buildRequestConditionExpr (time_compare f z m n) = f @ js ''(\"'' @ z @ js ''\") '' @ c @ js '' '' @ n"
  using assms(3,4) numerals_trimmed [OF numeric_numerals [OF assms(3)]]
  unfolding time_compare_def build_typed(1) [OF printable_typed [OF assms(1) [unfolded time_compare_def]]]
  by (auto simp: build_time_expr_def name_stringify [OF assms(2)] numeric_def text_or_def mode_defs js_eval)

text \<open>What printing a string literal can add.\<close>

definition escape_unit :: "code_unit \<Rightarrow> bool" where
  "escape_unit c \<longleftrightarrow> 48 \<le> c \<and> c \<le> 57 \<or> c = 34 \<or> c = 92 \<or> 97 \<le> c \<and> c \<le> 117"

lemma hex_escape_unit: "n < 16 \<Longrightarrow> escape_unit (hex_char n)"
  by (simp add: hex_char_def escape_unit_def)

lemma u_escape_units: "c \<in> set (u_escape d) \<Longrightarrow> escape_unit c"
  unfolding u_escape_def using hex_escape_unit [OF mod_less_divisor] by (auto simp: escape_unit_def [of 92] escape_unit_def [of 117])

lemma quote_unit_units: "c \<in> set (quote_unit d) \<Longrightarrow> c = d \<and> 32 \<le> c \<or> escape_unit c"
  by (cases "map_of [(8, 98), (9, 116), (10, 110), (12, 102), (13, 114), (34, 34), (92, 92)] d")
    (auto simp: quote_unit_def escape_unit_def split: if_splits dest: u_escape_units [unfolded escape_unit_def])

lemma quote_body_units: "c \<in> set (quote_body s) \<Longrightarrow> c \<in> set s \<and> 32 \<le> c \<or> escape_unit c"
proof (induction s rule: quote_body.induct)
  case (2 d)
  then show ?case using u_escape_units quote_unit_units by (auto split: if_splits)
next
  case (3 d d' s)
  show ?case
  proof (cases "leading d \<and> trailing d'")
    case True
    then show ?thesis using 3 by (auto simp: leading_def trailing_def)
  next
    case False
    then consider "c \<in> set (u_escape d)" | "c \<in> set (quote_unit d)" | "c \<in> set (quote_body (d' # s))"
      using 3(3) by (auto split: if_splits)
    then show ?thesis
      by cases (use u_escape_units quote_unit_units 3(2) [OF False] in \<open>force+\<close>)
  qed
qed simp

definition printed_text :: "jstring \<Rightarrow> bool" where
  "printed_text l \<longleftrightarrow> l \<noteq> [] \<and> trimmed l \<and> plain_text l \<and> list_all (\<lambda>c. \<not> is_line_end c) l"

lemma stringify_printed:
  assumes "value_text v" shows "printed_text (JSON_stringify (JStr v))"
proof -
  have "c \<notin> {38, 40, 41, 124} \<and> \<not> is_line_end c" if c: "c \<in> set (quote_body v)" for c
    using quote_body_units [OF c]
  proof
    assume "c \<in> set v \<and> 32 \<le> c"
    then show ?thesis using assms by (simp add: value_text_def plain_text_def list_all_iff is_line_end_def)
  next
    assume "escape_unit c"
    then show ?thesis by (auto simp: escape_unit_def ascii_not_line_end)
  qed
  then have "plain_text (quote_body v)" "list_all (\<lambda>c. \<not> is_line_end c) (quote_body v)"
    by (simp_all add: plain_text_def list_all_iff)
  then show ?thesis
    by (simp add: printed_text_def stringify_text plain_text_def trimmed_def ascii_not_ws ascii_not_line_end)
qed

lemma numerals_printed: "numerals l \<Longrightarrow> printed_text l"
proof -
  assume l: "numerals l"
  have "c \<notin> {38, 40, 41, 124} \<and> \<not> is_line_end c" if "number_unit c" for c
    using that by (auto simp: number_unit_def is_digit_def ascii_not_line_end js_eval)
  then have "plain_text l" "list_all (\<lambda>c. \<not> is_line_end c) l"
    using l by (simp_all add: numerals_def plain_text_def list_all_iff)
  then show ?thesis using l numerals_trimmed by (simp add: printed_text_def numerals_def)
qed

lemma literal_roundtrip:
  assumes "value_text v"
  obtains w where "parseExprLiteral (buildExprLiteral MATCH_EQ v) = Some w" "to_string w = v"
    "printed_text (buildExprLiteral MATCH_EQ v)"
proof -
  have t: "trim v = v" using assms by (simp add: value_text_def)
  have ne: "MATCH_EQ \<noteq> MATCH_CONTAINS" by (simp add: mode_defs)
  consider "v = js ''true'' \<or> v = js ''false''" | "v \<noteq> js ''true''" "v \<noteq> js ''false''" "numeric v"
    | "v \<noteq> js ''true''" "v \<noteq> js ''false''" "\<not> numeric v" by blast
  then show ?thesis
  proof cases
    case 1
    then have "buildExprLiteral MATCH_EQ v = v" using t ne by (simp add: buildExprLiteral_def)
    moreover have "parseExprLiteral v = Some (JStr v)" using 1 t by (auto simp: parseExprLiteral_def)
    moreover have "printed_text v"
      using 1 assms by (auto simp: printed_text_def value_text_def list_all_iff ascii_not_line_end js_eval)
    ultimately show ?thesis by (intro that [of "JStr v"]) simp_all
  next
    case 2
    then have "buildExprLiteral MATCH_EQ v = v" using t ne by (simp add: buildExprLiteral_def numeric_def)
    moreover have "parseExprLiteral v = Some (JStr v)" using 2 t by (simp add: parseExprLiteral_def numeric_def)
    ultimately show ?thesis
      using numerals_printed [OF numeric_numerals [OF 2(3)]] by (intro that [of "JStr v"]) simp_all
  next
    case 3
    let ?l = "JSON_stringify (JStr v)"
    have l: "buildExprLiteral MATCH_EQ v = ?l" using 3 t ne by (simp add: buildExprLiteral_def numeric_def)
    have pr: "printed_text ?l" using stringify_printed [OF assms] .
    then have tl: "trim ?l = ?l" by (simp add: printed_text_def)
    have "\<not> rx_test NUMERIC_LITERAL_REGEX ?l"
      using numeric_units(2) [of ?l] number_unit_not by (auto simp: stringify_text)
    moreover have "?l \<noteq> js ''true''" "?l \<noteq> js ''false''" by (simp_all add: stringify_text js_eval)
    ultimately have "parseExprLiteral ?l = Some (JStr v)"
      by (simp only: parseExprLiteral_def Let_def tl parse_stringify_text) simp
    then show ?thesis using l pr by (intro that [of "JStr v"]) simp_all
  qed
qed

section \<open>Conditions and groups\<close>

abbreviation read_parts :: "jstring list \<Rightarrow> js_error + request_condition list option" where
  "read_parts \<equiv> read_all (\<lambda>ap. tryParseRequestCondition (trim ap))"

text \<open>What \<open>buildRuleGroupFactor\<close> makes of the text of a condition beside others.\<close>

definition beside :: "bool \<Rightarrow> jstring \<Rightarrow> jstring" where
  "beside many e = (if many \<and> str_includes e (js '' || '') then js ''('' @ e @ js '')'' else e)"

lemma beside_plain: "124 \<notin> set e \<Longrightarrow> beside many e = e"
  by (auto simp: beside_def str_includes_def js_eval dest: set_mono_sublist)

text \<open>\<open>ps\<close> are the parts of the text \<open>e\<close> that the reader gets to see, \<open>r\<close> is what it makes of them.\<close>

definition parts_read :: "jstring \<Rightarrow> jstring list \<Rightarrow> request_condition list option \<Rightarrow> bool" where
  "parts_read e ps r \<longleftrightarrow> ps \<noteq> [] \<and> list_all and_part ps \<and> e = join (js '' && '') ps \<and> read_parts ps = Inr r"

lemma and_part_trim: "and_part p \<Longrightarrow> trim p = p"
  by (simp add: and_part_def)

lemma parts_single: "and_part e \<Longrightarrow> tryParseRequestCondition e = Inr (Some c) \<Longrightarrow> parts_read e [e] (Some [c])"
  by (simp add: parts_read_def and_part_trim)

lemma parts_guarded:
  "and_part a \<Longrightarrow> and_part b \<Longrightarrow> tryParseRequestCondition a = Inr (Some c) \<Longrightarrow> tryParseRequestCondition b = Inr None \<Longrightarrow>
     parts_read (a @ js '' && '' @ b) [a, b] None"
  by (simp add: parts_read_def and_part_trim)

lemma plain_not: "plain_text s \<Longrightarrow> 38 \<notin> set s" "plain_text s \<Longrightarrow> 124 \<notin> set s"
  by (auto simp: plain_text_def list_all_iff)

lemma plain_matched: "plain_text s \<Longrightarrow> level d s = Some d"
  by (rule level_plain) (auto simp: plain_text_def list_all_iff)

lemma plain_name_text: "plain_name p \<Longrightarrow> plain_text p"
  by (simp add: plain_name_def)

lemma func_plain: "f \<in> set TIME_FUNCS \<Longrightarrow> plain_text f \<and> f \<noteq> [] \<and> \<not> is_ws (hd f)"
  by (auto simp: TIME_FUNCS_def plain_text_def js_eval ascii_not_ws)

lemma and_part_named:
  assumes "f \<in> set TIME_FUNCS \<or> f = js ''param'' \<or> f = js ''header''" and "plain_name p" and "printed_text t"
  shows "and_part (named f p t)" and "124 \<notin> set (named f p t)"
proof -
  have f: "plain_text f" "f \<noteq> []" "\<not> is_ws (hd f)"
    using assms(1) func_plain by (auto simp: plain_text_def js_eval ascii_not_ws)
  have "trimmed (named f p t)"
    using f(2,3) assms(3) by (auto simp: trimmed_def printed_text_def)
  moreover have "matched (named f p t)"
    using f(1) plain_name_text [OF assms(2)] assms(3)
    by (simp add: matched_def level_append plain_matched printed_text_def js_eval)
  moreover have "38 \<notin> set (named f p t)"
    using plain_not(1) [OF f(1)] plain_not(1) [OF plain_name_text [OF assms(2)]] plain_not(1) [of t] assms(3)
    by (simp add: printed_text_def js_eval)
  ultimately show "and_part (named f p t)" using f(2) by (simp add: and_part_def)
  show "124 \<notin> set (named f p t)"
    using plain_not(2) [OF f(1)] plain_not(2) [OF plain_name_text [OF assms(2)]] plain_not(2) [of t] assms(3)
    by (simp add: printed_text_def js_eval)
qed

lemma and_part_has:
  assumes "h \<in> {js ''has(header(\"'', js ''has(param(\"''}" and "plain_name p" and "printed_text l"
  shows "and_part (h @ p @ js ''\"), '' @ l @ js '')'')" and "124 \<notin> set (h @ p @ js ''\"), '' @ l @ js '')'')"
proof -
  let ?e = "h @ p @ js ''\"), '' @ l @ js '')''"
  have h: "h \<noteq> []" "\<not> is_ws (hd h)" "level 0 h = Some 2" "38 \<notin> set h" "124 \<notin> set h"
    using assms(1) by (auto simp: js_eval ascii_not_ws)
  have pl: "plain_text p" "plain_text l" using plain_name_text [OF assms(2)] assms(3) by (simp_all add: printed_text_def)
  have "matched ?e" using h(3) by (simp add: matched_def level_append plain_matched [OF pl(1)] plain_matched [OF pl(2)] js_eval)
  moreover have "trimmed ?e" using h(1,2) by (simp add: trimmed_def js_eval ascii_not_ws)
  moreover have "38 \<notin> set ?e" "124 \<notin> set ?e" using h(4,5) pl [THEN plain_not(1)] pl [THEN plain_not(2)] by (simp_all add: js_eval)
  ultimately show "and_part ?e" "124 \<notin> set ?e" using h(1) by (simp_all add: and_part_def)
qed

lemma printed_append_numeral:
  "numerals n \<Longrightarrow> c \<in> {js ''=='', js ''>='', js ''<'', js ''>'', js ''<=''} \<Longrightarrow> printed_text (c @ js '' '' @ n)"
proof -
  assume n: "numerals n" and "c \<in> {js ''=='', js ''>='', js ''<'', js ''>'', js ''<=''}"
  then have c: "c \<noteq> []" "\<not> is_ws (hd c)" "plain_text c" "list_all (\<lambda>d. \<not> is_line_end d) c"
    by (auto simp: js_eval plain_text_def ascii_not_ws ascii_not_line_end)
  have p: "n \<noteq> []" "trimmed n" "plain_text n" "list_all (\<lambda>d. \<not> is_line_end d) n"
    using numerals_printed [OF n] by (simp_all add: printed_text_def)
  have "trimmed (c @ js '' '' @ n)" using c(1,2) p(1,2) by (simp add: trimmed_def)
  moreover have "plain_text (c @ js '' '' @ n)" "list_all (\<lambda>d. \<not> is_line_end d) (c @ js '' '' @ n)"
    using c(3,4) p(3,4) by (simp_all add: plain_text_def js_eval ascii_not_line_end)
  ultimately show ?thesis using c(1) by (simp add: printed_text_def)
qed

lemma range_text_parts:
  assumes "f \<in> set TIME_FUNCS" and "plain_name z" and "numerals a" and "numerals b"
  shows "and_part (time_range_text f z a b)" and "and_part (js ''('' @ time_range_text f z a b @ js '')'')"
    and "str_includes (time_range_text f z a b) (js '' || '')"
proof -
  let ?r = "time_range_text f z a b"
  have f: "plain_text f" "f \<noteq> []" "\<not> is_ws (hd f)" using func_plain [OF assms(1)] by simp_all
  have z: "plain_text z" by (rule plain_name_text [OF assms(2)])
  have n: "plain_text a" "plain_text b" "b \<noteq> []" "\<not> is_ws (last b)"
    using numerals_printed [OF assms(3)] numerals_printed [OF assms(4)] by (auto simp: printed_text_def trimmed_def)
  have m: "level d ?r = Some d" for d
    by (simp add: time_range_text_def level_append plain_matched f(1) z n(1,2) js_eval)
  have amp: "38 \<notin> set ?r"
    by (simp add: time_range_text_def plain_not(1) f(1) z n(1,2) js_eval)
  have ne: "?r \<noteq> []" "hd ?r = hd f" "last ?r = last b"
    using f(2) n(3) by (simp_all add: time_range_text_def js_eval)
  show "and_part ?r" using m amp ne f(3) n(4) by (simp add: and_part_def matched_def trimmed_def)
  show "and_part (js ''('' @ ?r @ js '')'')"
    using m amp by (simp add: and_part_def matched_def trimmed_def level_append ascii_not_ws js_eval)
  show "str_includes ?r (js '' || '')"
    unfolding str_includes_def sublist_def time_range_text_def
    by (intro exI [of _ "f @ js ''(\"'' @ z @ js ''\") >= '' @ a"] exI [of _ "f @ js ''(\"'' @ z @ js ''\") < '' @ b"]) simp
qed

lemma source_neq: "SOURCE_HEADER \<noteq> SOURCE_PARAM"
  by (simp add: source_defs)

lemma mode_neq:
  "MATCH_CONTAINS \<noteq> MATCH_EQ" "MATCH_CONTAINS \<noteq> MATCH_EXISTS" "MATCH_GT \<noteq> MATCH_EQ" "MATCH_GT \<noteq> MATCH_EXISTS"
  "MATCH_GTE \<noteq> MATCH_EQ" "MATCH_GTE \<noteq> MATCH_EXISTS" "MATCH_LT \<noteq> MATCH_EQ" "MATCH_LT \<noteq> MATCH_EXISTS"
  "MATCH_LTE \<noteq> MATCH_EQ" "MATCH_LTE \<noteq> MATCH_EXISTS"
  by (simp_all add: mode_defs)

lemma single_read:
  assumes "buildRequestConditionExpr c = e" and "and_part e" and "124 \<notin> set e"
    and "tryParseRequestCondition e = Inr (Some c)" and "\<not> guarded c"
  shows "\<exists>ps. parts_read (beside many (buildRequestConditionExpr c)) ps (if guarded c then None else Some [c])"
  using parts_single [OF assms(2,4)] assms(5) unfolding assms(1) beside_plain [OF assms(3)] by auto

lemma guarded_read:
  assumes "buildRequestConditionExpr c = a @ js '' && '' @ b" and "and_part a" and "124 \<notin> set a" and "and_part b" and "124 \<notin> set b"
    and "tryParseRequestCondition a = Inr (Some c')" and "tryParseRequestCondition b = Inr None" and "guarded c"
  shows "\<exists>ps. parts_read (beside many (buildRequestConditionExpr c)) ps (if guarded c then None else Some [c])"
proof -
  have "124 \<notin> set (a @ js '' && '' @ b)" using assms(3,5) by (simp add: js_eval)
  then show ?thesis using parts_guarded [OF assms(2,4,6,7)] assms(8) unfolding assms(1) by (auto simp: beside_plain)
qed

lemma guard_read:
  assumes "plain_name p"
  shows "and_part (param_guard p)" and "124 \<notin> set (param_guard p)"
    and "tryParseRequestCondition (param_guard p) = Inr (Some (param_header SOURCE_PARAM p MATCH_EXISTS []))"
proof -
  have "printed_text (js ''!= nil'')"
    by (simp add: printed_text_def trimmed_def plain_text_def ascii_not_ws ascii_not_line_end js_eval)
  note a = and_part_named [OF _ assms this, of "js ''param''"]
  then show "and_part (param_guard p)" "124 \<notin> set (param_guard p)" by (simp_all add: param_guard_def)
  show "tryParseRequestCondition (param_guard p) = Inr (Some (param_header SOURCE_PARAM p MATCH_EXISTS []))"
    unfolding param_guard_def by (rule read_param [OF name_quotable(1) [OF assms]])
qed

lemma guarded_simps: "guarded (param_header s p m v) \<longleftrightarrow> s = SOURCE_PARAM \<and> m \<notin> {MATCH_EQ, MATCH_EXISTS}"
  "\<not> guarded (TimeCondition t)"
  by (simp_all add: guarded_def param_header_def)

text \<open>Every printable condition, alone or beside others.\<close>

lemma condition_read:
  assumes "printable c"
  shows "\<exists>ps. parts_read (beside many (buildRequestConditionExpr c)) ps (if guarded c then None else Some [c])"
  using assms
proof (cases rule: printable_cases)
  case (range f z a b)
  note n = numeric_numerals [OF range(4)] numeric_numerals [OF range(5)]
  note t = range_text_parts [OF range(2,3) n]
  have b: "buildRequestConditionExpr c = time_range_text f z a b"
    using build_range [of f z a b] assms range by simp
  have r: "tryParseRequestCondition (time_range_text f z a b) = Inr (Some c)"
    "tryParseRequestCondition (js ''('' @ time_range_text f z a b @ js '')'') = Inr (Some c)"
    using read_time_range [OF range(2) name_quotable(1) [OF range(3)] n] range(1) by (simp_all add: tryParseRequestCondition_def)
  have g: "\<not> guarded c" by (simp add: guarded_simps range(1))
  show ?thesis
    using parts_single [OF t(1) r(1)] parts_single [OF t(2) r(2)] t(3) g unfolding b beside_def by (cases many) auto
next
  case (compare f z d m n)
  have "printed_text (d @ js '' '' @ n)"
    using printed_append_numeral [OF numeric_numerals [OF compare(4)], of d] compare(5) by auto
  note a = and_part_named [OF disjI1 [OF compare(2)] compare(3) this]
  have "tryParseRequestCondition (named f z (d @ js '' '' @ n)) = Inr (Some c)"
    using read_time_compare [OF compare(2) name_quotable(1) [OF compare(3)] numeric_numerals [OF compare(4)] compare(5)]
    by (simp add: tryParseRequestCondition_def compare(1) time_compare_def)
  moreover have "buildRequestConditionExpr c = named f z (d @ js '' '' @ n)"
    using build_compare [of f z m n d] assms compare by simp
  ultimately show ?thesis using a by (intro single_read) (simp_all add: guarded_simps compare(1) time_compare_def)
next
  case (header_exists p)
  have "printed_text (js ''!= \"\"'')"
    by (simp add: printed_text_def trimmed_def plain_text_def ascii_not_ws ascii_not_line_end js_eval)
  note a = and_part_named [OF _ header_exists(2) this, of "js ''header''"]
  show ?thesis
    using a header_exists(1) read_header [OF name_quotable(1) [OF header_exists(2)]]
      build_header_exists [OF assms [unfolded header_exists(1)] header_exists(2,3)]
    by (intro single_read) (simp_all add: guarded_simps)
next
  case (param_exists p)
  show ?thesis
    using guard_read [OF param_exists(2)] param_exists(1)
      build_param_exists [OF assms [unfolded param_exists(1)] param_exists(2,3)]
    by (intro single_read [of _ "param_guard p"]) (simp_all add: guarded_simps param_guard_def)
next
  case (equals f p v)
  obtain w where w: "parseExprLiteral (buildExprLiteral MATCH_EQ v) = Some w" "to_string w = v"
    "printed_text (buildExprLiteral MATCH_EQ v)" using literal_roundtrip [OF equals(5)] .
  let ?l = "buildExprLiteral MATCH_EQ v"
  have f: "f = js ''param'' \<or> f = js ''header''" using equals(2) by (auto simp: source_defs)
  have l: "?l \<noteq> []" "trimmed ?l" "plain_text ?l" "list_all (\<lambda>c. \<not> is_line_end c) ?l" using w(3) by (simp_all add: printed_text_def)
  have "printed_text (js ''== '' @ ?l)"
    using l by (auto simp: printed_text_def trimmed_def plain_text_def ascii_not_ws ascii_not_line_end js_eval)
  note a = and_part_named [OF disjI2 [OF f] equals(3) this]
  have "tryParseRequestCondition (named f p (js ''== '' @ ?l)) = Inr (Some c)"
    using read_equals [OF name_quotable(1) [OF equals(3)] _ plain_not(1) [OF l(3)] l(4,1) w(1), of f] f w(2) equals(1) by auto
  then show ?thesis
    using a build_equals [OF assms [unfolded equals(1)] equals(2,3,4)] equals(1)
    by (intro single_read) (simp_all add: guarded_simps)
next
  case (header_contains p v)
  note a = and_part_has [OF _ header_contains(2) stringify_printed [OF header_contains(4)], of "js ''has(header(\"''"]
  have "trimmed v" using header_contains(4) by (simp add: value_text_def)
  then show ?thesis
    using a build_header_contains [OF assms [unfolded header_contains(1)] header_contains(2,3)]
      read_header_contains [OF name_quotable(1) [OF header_contains(2)], of v] header_contains(1)
    by (intro single_read) (simp_all add: guarded_simps source_neq)
next
  case (param_contains p v)
  note a = and_part_has [OF _ param_contains(2) stringify_printed [OF param_contains(4)], of "js ''has(param(\"''"]
  have "trimmed v" using param_contains(4) by (simp add: value_text_def)
  then show ?thesis
    using guard_read [OF param_contains(2)] a build_param_contains [OF assms [unfolded param_contains(1)] param_contains(2,3)]
      read_no_contains param_contains(1)
    by (intro guarded_read [of c "param_guard p" "js ''has(param(\"'' @ p @ js ''\"), '' @ JSON_stringify (JStr v) @ js '')''"
          "param_header SOURCE_PARAM p MATCH_EXISTS []"]) (simp_all add: guarded_simps mode_neq)
next
  case (param_compare p d m v)
  have "printed_text (d @ js '' '' @ v)"
    using printed_append_numeral [OF numeric_numerals [OF param_compare(4)], of d] param_compare(5) by auto
  note a = and_part_named [OF _ param_compare(2) this, of "js ''param''"]
  have d: "38 \<notin> set (d @ js '' '' @ v)" "hd (d @ js '' '' @ v) \<noteq> 33" "hd (d @ js '' '' @ v) \<noteq> 61" "d @ js '' '' @ v \<noteq> []"
    using param_compare(5) plain_not(1) [of v] numerals_printed [OF numeric_numerals [OF param_compare(4)]]
    by (auto simp: js_eval printed_text_def)
  show ?thesis
    using guard_read [OF param_compare(2)] a build_param_compare [OF assms [unfolded param_compare(1)] param_compare(2-5)]
      read_no_equals [OF name_quotable(1) [OF param_compare(2)] d] param_compare(1,5)
    by (intro guarded_read [of c "param_guard p" "named (js ''param'') p (d @ js '' '' @ v)" "param_header SOURCE_PARAM p MATCH_EXISTS []"])
      (auto simp: guarded_simps mode_neq)
qed

lemma read_all_append:
  "read_all f xs = Inr r \<Longrightarrow> read_all f ys = Inr r' \<Longrightarrow>
     read_all f (xs @ ys) = Inr (case (r, r') of (Some a, Some b) \<Rightarrow> Some (a @ b) | _ \<Rightarrow> None)"
proof (induction xs arbitrary: r)
  case (Cons x xs)
  then show ?case by (auto split: sum.splits option.splits)
qed (auto split: option.splits)

lemma conditions_read:
  assumes "cs \<noteq> []" and "list_all printable cs"
  shows "\<exists>ps. parts_read (join (js '' && '') (map (\<lambda>c. beside many (buildRequestConditionExpr c)) cs)) ps
    (if list_ex guarded cs then None else Some cs)"
  using assms
proof (induction cs)
  case (Cons c cs)
  obtain ps where ps: "parts_read (beside many (buildRequestConditionExpr c)) ps (if guarded c then None else Some [c])"
    using condition_read Cons.prems by auto
  show ?case
  proof (cases "cs = []")
    case True
    then show ?thesis using ps by auto
  next
    case False
    then obtain qs where qs: "parts_read (join (js '' && '') (map (\<lambda>c. beside many (buildRequestConditionExpr c)) cs)) qs
        (if list_ex guarded cs then None else Some cs)" using Cons by auto
    have "read_parts (ps @ qs) = Inr (if list_ex guarded (c # cs) then None else Some (c # cs))"
      using read_all_append [OF ps [unfolded parts_read_def, THEN conjunct2, THEN conjunct2, THEN conjunct2]
          qs [unfolded parts_read_def, THEN conjunct2, THEN conjunct2, THEN conjunct2]] by simp
    then show ?thesis
      using ps qs False by (intro exI [of _ "ps @ qs"]) (simp add: parts_read_def join_Cons join_append)
  qed
qed simp

definition printable_group :: "request_rule_group \<Rightarrow> bool" where
  "printable_group g \<longleftrightarrow> rg_conditions g \<noteq> [] \<and> list_all printable (rg_conditions g) \<and> numeric (rg_multiplier g)"

lemma build_neq_Nil: "printable c \<Longrightarrow> buildRequestConditionExpr c \<noteq> []"
proof -
  assume "printable c"
  then obtain ps where "parts_read (buildRequestConditionExpr c) ps (if guarded c then None else Some [c])"
    using condition_read [of c False] by (auto simp: beside_def)
  then show ?thesis by (cases ps; cases "tl ps") (auto simp: parts_read_def and_part_def)
qed

lemma build_factor:
  assumes "printable_group g"
  shows "buildRuleGroupFactor g = js ''('' @
    join (js '' && '') (map (\<lambda>c. beside (length (rg_conditions g) \<noteq> 1) (buildRequestConditionExpr c)) (rg_conditions g)) @
    js '' ? '' @ rg_multiplier g @ js '' : 1)''"
proof -
  let ?cs = "rg_conditions g"
  have m: "trim (rg_multiplier g) = rg_multiplier g" "rx_test NUMERIC_LITERAL_REGEX (rg_multiplier g)"
    using assms numerals_trimmed [OF numeric_numerals] by (auto simp: printable_group_def numeric_def)
  have ne: "nonempty (map buildRequestConditionExpr ?cs) = map buildRequestConditionExpr ?cs"
    using assms build_neq_Nil by (auto simp: nonempty_def printable_group_def list_all_iff filter_id_conv)
  have c: "?cs \<noteq> []" using assms by (simp add: printable_group_def)
  have "(if length ?cs = 1 then hd (map buildRequestConditionExpr ?cs)
      else join (js '' && '') (map (\<lambda>e. if str_includes e (js '' || '') then js ''('' @ e @ js '')'' else e) (map buildRequestConditionExpr ?cs))) =
      join (js '' && '') (map (\<lambda>c. beside (length ?cs \<noteq> 1) (buildRequestConditionExpr c)) ?cs)"
    using c by (cases ?cs; cases "tl ?cs") (auto simp: beside_def comp_def)
  then show ?thesis unfolding buildRuleGroupFactor_def Let_def m(1) ne using m(2) c by (simp del: One_nat_def)
qed

lemma factor_readings:
  assumes "a \<noteq> []" and "numerals n"
  shows "readings FACTOR_REGEX (js ''('' @ a @ js '' ? '' @ n @ js '' : 1)'') = {[(1, a), (2, n)]}"
proof -
  have "a' = a \<and> n' = n" if "numerals n'" "a @ js '' ? '' @ n @ js '' : 1)'' = a' @ js '' ? '' @ n' @ js '' : 1)''" for a' n'
  proof -
    have "rev n @ 32 # 63 # 32 # rev a = rev n' @ 32 # 63 # 32 # rev a'"
      using arg_cong [OF that(2), of rev] by (simp add: js_eval)
    then show ?thesis
      using class_split [of "rev n" "32 # 63 # 32 # rev a" "rev n'" "32 # 63 # 32 # rev a'" number_unit] that(1) assms(2) number_unit_not(1)
      by (simp add: numerals_def)
  qed
  then show ?thesis unfolding readings_FACTOR using assms by auto
qed

lemma matched_join: "list_all and_part ps \<Longrightarrow> matched (join (js '' && '') ps)"
proof (induction ps)
  case (Cons p ps)
  have "matched (js '' && '')" by (rule matched_plain) (simp_all add: js_eval)
  then show ?case using Cons by (cases "ps = []") (auto simp: join_Cons and_part_def intro!: matched_append)
qed (simp add: matched_def)

lemma factor_text:
  assumes "matched a" and "numerals n"
  shows "factor (js ''('' @ a @ js '' ? '' @ n @ js '' : 1)'')"
proof -
  have "matched n" using plain_matched numerals_printed [OF assms(2)] by (simp add: matched_def printed_text_def)
  then have "matched (a @ js '' ? '' @ n @ js '' : 1'')"
    using assms(1) by (intro matched_append) (simp_all add: matched_def js_eval)
  then show ?thesis
    unfolding factor_def by (intro exI [of _ "a @ js '' ? '' @ n @ js '' : 1''"]) (simp add: js_eval)
qed

lemma group_read:
  assumes "printable_group g"
  shows "factor (buildRuleGroupFactor g)"
    and "tryParseRuleGroupFactor (buildRuleGroupFactor g) = Inr (if list_ex guarded (rg_conditions g) then None else Some g)"
proof -
  let ?cs = "rg_conditions g"
  define a where "a = join (js '' && '') (map (\<lambda>c. beside (length ?cs \<noteq> 1) (buildRequestConditionExpr c)) ?cs)"
  let ?n = "rg_multiplier g"
  note b = build_factor [OF assms, folded a_def]
  have cs: "?cs \<noteq> []" and n: "numerals ?n" using assms numeric_numerals by (auto simp: printable_group_def)
  obtain ps where ps: "ps \<noteq> []" "list_all and_part ps" "a = join (js '' && '') ps"
    "read_parts ps = Inr (if list_ex guarded ?cs then None else Some ?cs)"
    using conditions_read [OF cs, of "length ?cs \<noteq> 1"] assms by (auto simp: parts_read_def printable_group_def a_def)
  show "factor (buildRuleGroupFactor g)"
    unfolding b ps(3) by (rule factor_text [OF matched_join [OF ps(2)] n])
  have "a \<noteq> []" using ps(1-3) by (cases ps; cases "tl ps") (auto simp: and_part_def)
  then obtain m where m: "rx_exec FACTOR_REGEX (buildRuleGroupFactor g) = Some m" "m_caps m = [(1, a), (2, ?n)]"
    using exec_single [OF anchored_patterns(10) factor_readings [OF _ n]] b by auto
  show "tryParseRuleGroupFactor (buildRuleGroupFactor g) = Inr (if list_ex guarded ?cs then None else Some g)"
    unfolding tryParseRuleGroupFactor_def m(1)
    using split_and_parts [OF ps(1,2)] ps(4) cs by (simp add: cap_text_in [OF m(2)] ps(3))
qed

lemma join_ends:
  "xs \<noteq> [] \<Longrightarrow> \<forall>x \<in> set xs. x \<noteq> [] \<Longrightarrow>
     join sep xs \<noteq> [] \<and> hd (join sep xs) = hd (hd xs) \<and> last (join sep xs) = last (last xs)"
proof (induction xs)
  case (Cons x xs)
  then show ?case by (cases "xs = []") (auto simp: join_Cons)
qed simp

lemma trim_factors:
  assumes "fs \<noteq> []" and "list_all factor fs"
  shows "trim (join (js '' * '') fs) = join (js '' * '') fs" and "join (js '' * '') fs \<noteq> []"
proof -
  have "factor (hd fs)" "factor (last fs)" "\<forall>f \<in> set fs. f \<noteq> []"
    using assms factor_trim(2) by (auto simp: list_all_iff)
  then have "join (js '' * '') fs \<noteq> [] \<and> hd (join (js '' * '') fs) = 40 \<and> last (join (js '' * '') fs) = 41"
    using join_ends [OF assms(1), of "js '' * ''"] by (auto simp: factor_def)
  then show "trim (join (js '' * '') fs) = join (js '' * '') fs" "join (js '' * '') fs \<noteq> []"
    by (auto intro!: trim_trimmed simp: trimmed_def ascii_not_ws)
qed

lemma read_all_map:
  "(\<And>x. x \<in> set xs \<Longrightarrow> f (h x) = Inr (if P x then None else Some x)) \<Longrightarrow>
     read_all f (map h xs) = Inr (if list_ex P xs then None else Some xs)"
  by (induction xs) auto

lemma rules_read:
  assumes "list_all printable_group gs"
  shows "tryParseRequestRuleExpr (buildRequestRuleExpr gs) =
    Inr (if list_ex (\<lambda>g. list_ex guarded (rg_conditions g)) gs then None else Some gs)"
proof (cases "gs = []")
  case True
  then show ?thesis by (simp add: tryParseRequestRuleExpr_def buildRequestRuleExpr_def nonempty_def)
next
  case False
  let ?fs = "map buildRuleGroupFactor gs"
  have fs: "?fs \<noteq> []" "list_all factor ?fs" using False assms group_read(1) by (auto simp: list_all_iff)
  have ne: "nonempty ?fs = ?fs" using fs(2) factor_trim(2) by (auto simp: nonempty_def list_all_iff filter_id_conv)
  show ?thesis
    using split_factors [OF fs] trim_factors [OF fs] read_all_map [of gs tryParseRuleGroupFactor buildRuleGroupFactor] group_read(2) assms
    by (simp add: tryParseRequestRuleExpr_def buildRequestRuleExpr_def ne list_all_iff)
qed

section \<open>Putting an expression together and taking it apart\<close>

lemma parens_closed_inside:
  "level d s = Some e \<Longrightarrow> r \<noteq> [] \<Longrightarrow> parens_closed (int (Suc d)) (s @ r) = parens_closed (int (Suc e)) r"
proof (induction s arbitrary: d)
  case (Cons c s)
  show ?case
    using Cons.prems Cons.IH [of "Suc d"] Cons.IH [of d] Cons.IH [of "d - 1"]
    by (cases d) (auto simp: Let_def add.commute split: if_splits)
qed simp

lemma unwrap_parens:
  assumes "matched s" shows "unwrapOuterParens (40 # s @ [41]) = unwrapOuterParens s"
proof -
  have "parens_closed 0 (40 # s @ [41])"
    using parens_closed_inside [of 0 s 0 "[41]"] assms by (simp add: matched_def)
  then have "hasFullOuterParens (40 # s @ [41])"
    by (simp add: hasFullOuterParens_def startsWith_def endsWith_def js_eval suffix_def)
  moreover have "trim (40 # s @ [41]) = 40 # s @ [41]"
    by (rule trim_trimmed) (simp add: trimmed_def ascii_not_ws)
  ultimately show ?thesis unfolding unwrapOuterParens_def by (subst unwrap_loop.simps) simp
qed

lemma is_rule_factor:
  assumes "factor f" and "tryParseRuleGroupFactor f = Inr r"
  shows "is_rule_part f = Inr (r \<noteq> None)"
proof -
  have "splitTopLevelMultiply f = [f]" using split_factors [of "[f]"] assms(1) by simp
  then show ?thesis
    using assms factor_trim [OF assms(1)] by (auto simp: is_rule_part_def tryParseRequestRuleExpr_def split: option.splits)
qed

text \<open>A group with a condition that is not read back.\<close>

definition unread :: "request_rule_group \<Rightarrow> bool" where
  "unread g \<longleftrightarrow> list_ex guarded (rg_conditions g)"

text \<open>The rules that are read back as they are.\<close>

definition rules_ok :: "request_rule_group list \<Rightarrow> bool" where
  "rules_ok gs \<longleftrightarrow> list_all printable_group gs \<and> \<not> list_ex unread gs"

interpretation rule_text: printed_form rules_ok buildRequestRuleExpr tryParseRequestRuleExpr "\<lambda>gs. Inr (Some gs)" "\<lambda>gs. gs"
  by unfold_locales (simp_all add: rules_read rules_ok_def unread_def [abs_def])

lemma sort_groups:
  "list_all printable_group gs \<Longrightarrow>
     sort_parts (map buildRuleGroupFactor gs) =
       Inr (map buildRuleGroupFactor (filter (\<lambda>g. \<not> unread g) gs), map buildRuleGroupFactor (filter unread gs))"
proof (induction gs)
  case (Cons g gs)
  have "is_rule_part (buildRuleGroupFactor g) = Inr (\<not> unread g)"
    using is_rule_factor [OF group_read] Cons.prems by (simp add: unread_def)
  then show ?case using Cons by simp
qed simp

lemma combined_parts:
  assumes "trim base \<noteq> []" and "matched (trim base)" and "list_all printable_group gs" and "gs \<noteq> []"
  shows "combineBillingExpr base (buildRequestRuleExpr gs) = join (js '' * '') ((40 # trim base @ [41]) # map buildRuleGroupFactor gs)"
    and "list_all factor ((40 # trim base @ [41]) # map buildRuleGroupFactor gs)"
proof -
  let ?fs = "map buildRuleGroupFactor gs"
  have fs: "?fs \<noteq> []" "list_all factor ?fs" using assms(3,4) group_read(1) by (auto simp: list_all_iff)
  have ne: "nonempty ?fs = ?fs" using fs(2) factor_trim(2) by (auto simp: nonempty_def list_all_iff filter_id_conv)
  show "combineBillingExpr base (buildRequestRuleExpr gs) = join (js '' * '') ((40 # trim base @ [41]) # ?fs)"
    using trim_factors [OF fs] fs(1) assms(1)
    by (simp add: combineBillingExpr_def buildRequestRuleExpr_def ne join_Cons Let_def) (simp add: js_eval)
  show "list_all factor ((40 # trim base @ [41]) # ?fs)" using fs(2) assms(2) by (auto simp: factor_def)
qed

lemma split_combined:
  assumes "trim base \<noteq> []" and "matched (trim base)" and "list_all printable_group gs" and "gs \<noteq> []"
    and "tryParseRuleGroupFactor (40 # trim base @ [41]) = Inr None"
  shows "splitBillingExprAndRequestRules (combineBillingExpr base (buildRequestRuleExpr gs)) =
    Inr (if list_ex unread gs
         then \<lparr>se_billingExpr = combineBillingExpr base (buildRequestRuleExpr gs), se_requestRuleExpr = []\<rparr>
         else \<lparr>se_billingExpr = unwrapOuterParens base, se_requestRuleExpr = buildRequestRuleExpr gs\<rparr>)"
proof -
  let ?fs = "map buildRuleGroupFactor gs" and ?b = "40 # trim base @ [41]"
  define e where "e = join (js '' * '') (?b # ?fs)"
  note c = combined_parts [OF assms(1-4), folded e_def]
  have s: "splitTopLevelMultiply e = ?b # ?fs" "trim e = e" "e \<noteq> []"
    using split_factors [OF _ c(2)] trim_factors [OF _ c(2)] by (simp_all add: e_def)
  have "is_rule_part ?b = Inr False"
    using is_rule_factor [OF _ assms(5)] assms(2) by (auto simp: factor_def)
  then have so: "sort_parts (?b # ?fs) =
      Inr (map buildRuleGroupFactor (filter (\<lambda>g. \<not> unread g) gs), ?b # map buildRuleGroupFactor (filter unread gs))"
    using sort_groups [OF assms(3)] by simp
  have un: "unwrapOuterParens ?b = unwrapOuterParens base"
    using unwrap_parens [OF assms(2)] by (simp add: unwrapOuterParens_def)
  have len: "\<not> length (?b # ?fs) \<le> 1" using assms(4) by (cases gs) simp_all
  have form: "splitBillingExprAndRequestRules e =
      (if map buildRuleGroupFactor (filter (\<lambda>g. \<not> unread g) gs) = [] \<or> filter unread gs \<noteq> []
       then Inr \<lparr>se_billingExpr = e, se_requestRuleExpr = []\<rparr>
       else Inr \<lparr>se_billingExpr = unwrapOuterParens base,
              se_requestRuleExpr = join (js '' * '') (map buildRuleGroupFactor (filter (\<lambda>g. \<not> unread g) gs))\<rparr>)"
    unfolding splitBillingExprAndRequestRules_def Let_def s so using len s(3) by (simp add: un)
  show ?thesis
  proof (cases "list_ex unread gs")
    case True
    then have "filter unread gs \<noteq> []" by (simp add: filter_empty_conv list_ex_iff)
    then show ?thesis using True form by (simp add: c(1))
  next
    case False
    then have f: "filter unread gs = []" "filter (\<lambda>g. \<not> unread g) gs = gs"
      by (auto simp: list_ex_iff filter_empty_conv filter_id_conv)
    have "nonempty ?fs = ?fs"
      using c(2) factor_trim(2) by (auto simp: nonempty_def list_all_iff filter_id_conv)
    then have "buildRequestRuleExpr gs = join (js '' * '') ?fs" by (simp add: buildRequestRuleExpr_def)
    then show ?thesis using False form assms(4) unfolding c(1) f by simp
  qed
qed

section \<open>Request rules\<close>

text \<open>C36: The types the rule reader and the editor claim hold of what they return. \<open>normalizeCondition\<close> turns any partial
  condition into a well-typed one and leaves well-typed ones alone; the groups that \<open>tryParseRequestRuleExpr\<close> returns for any text
  have at least one condition, all of them well-typed, and a multiplier over the characters of numbers.\<close>

theorem rules_typed:
  "typed_condition (normalizeCondition p) \<and>
   (typed_condition c \<longrightarrow> normalizeCondition (Some (partial_of c)) = c) \<and>
   (tryParseRequestRuleExpr e = Inr (Some gs) \<longrightarrow> list_all typed_group gs)"
  using normalize_typed normalize_fixed typed_rules by blast


text \<open>C37: A comparison or \<open>contains\<close> on a parameter is printed with a guard \<open>param("x") != nil &&\<close>, at which the reader splits. So one such
  condition makes all rules unreadable, and taking the whole expression apart gives no rules: they stay in the base part.\<close>

theorem guarded_rules_lost:
  assumes "list_all printable_group gs" and "list_ex unread gs"
    and "trim base \<noteq> []" and "matched (trim base)" and "tryParseRuleGroupFactor (40 # trim base @ [41]) = Inr None"
  shows "tryParseRequestRuleExpr (buildRequestRuleExpr gs) = Inr None \<and>
    splitBillingExprAndRequestRules (combineBillingExpr base (buildRequestRuleExpr gs)) =
      Inr \<lparr>se_billingExpr = combineBillingExpr base (buildRequestRuleExpr gs), se_requestRuleExpr = []\<rparr>"
proof -
  have "gs \<noteq> []" using assms(2) by auto
  then show ?thesis
    using split_combined [OF assms(3,4,1) _ assms(5)] rules_read [OF assms(1)] assms(2) by (simp add: unread_def [abs_def])
qed

text \<open>
  C8: Splitting is inverse to combining. Take a base that is not blank, has matched parentheses and is not itself a rule when it is put
  in parentheses, and at least one group of rules, all of the printable kind and none with a comparison or \<open>contains\<close> on a
  parameter. The combined expression is taken apart into the base without its outer parentheses and the same rules.
\<close>

theorem expression_roundtrip:
  assumes "trim base \<noteq> []" and "matched (trim base)" and "tryParseRuleGroupFactor (40 # trim base @ [41]) = Inr None"
    and "gs \<noteq> []" and "list_all printable_group gs" and "\<not> list_ex unread gs"
  shows "splitBillingExprAndRequestRules (combineBillingExpr base (buildRequestRuleExpr gs)) =
    Inr \<lparr>se_billingExpr = unwrapOuterParens base, se_requestRuleExpr = buildRequestRuleExpr gs\<rparr>"
  using split_combined [OF assms(1,2,5,4,3)] assms(6) by simp

lemma read_bad_escape:
  assumes "quotable p" and "string_literal l" and "JSON_parse l = None"
  shows "tryParseRequestCondition (js ''has(header(\"'' @ p @ js ''\"), '' @ l @ js '')'') = Inl SyntaxError"
proof -
  let ?e = "js ''has(header(\"'' @ p @ js ''\"), '' @ l @ js '')''"
  have "tryParseTimeCondition ?e = None" by (rule time_none) (auto simp: TIME_FUNCS_def js_eval)
  moreover have "readings HEADER_EXISTS_REGEX ?e = {}" "readings PARAM_EXISTS_REGEX ?e = {}"
    unfolding readings_HEADER_EXISTS readings_PARAM_EXISTS by (auto simp: js_eval)
  moreover have "readings HEADER_CONTAINS_REGEX ?e = {[(1, p), (2, l)]}"
    unfolding readings_HEADER_CONTAINS using assms(2) by (auto simp: js_eval quote_eq assms(1))
  then obtain m where "rx_exec HEADER_CONTAINS_REGEX ?e = Some m" "m_caps m = [(1, p), (2, l)]"
    using exec_single by (metis anchored_patterns(3))
  ultimately show ?thesis
    by (simp add: tryParseRequestCondition_def exec_None_readings [symmetric] cap_text_in contains_condition_def assms(3))
qed

text \<open>
  C38: A reader named \<open>tryParse\<close> can throw. A rule that looks in a header for a string literal with an escape that JSON does not know, such
  as \<open>\v\<close>, matches the pattern, and the exception of \<open>JSON.parse\<close> leaves \<open>tryParseRequestRuleExpr\<close>. The header and the literal
  have none of the characters \<open>& | ( )\<close>. Only this form of rule is meant: an equality goes through \<open>parseExprLiteral\<close>, which catches the exception.
\<close>

theorem unknown_escape_throws:
  assumes "plain_name p" and "string_literal l" and "printed_text l" and "JSON_parse l = None" and "numerals n"
  shows "tryParseRequestRuleExpr (js ''(has(header(\"'' @ p @ js ''\"), '' @ l @ js '') ? '' @ n @ js '' : 1)'') = Inl SyntaxError"
proof -
  let ?c = "js ''has(header(\"'' @ p @ js ''\"), '' @ l @ js '')''"
  let ?f = "js ''('' @ ?c @ js '' ? '' @ n @ js '' : 1)''"
  have c: "and_part ?c" using and_part_has(1) [OF _ assms(1,3)] by simp
  then have "splitTopLevelAnd ?c = [?c]" using split_and_parts [of "[?c]"] by simp
  moreover obtain m where "rx_exec FACTOR_REGEX ?f = Some m" "m_caps m = [(1, ?c), (2, n)]"
    using exec_single [OF anchored_patterns(10) factor_readings [OF _ assms(5)], of ?c] c by (auto simp: and_part_def)
  ultimately have t: "tryParseRuleGroupFactor ?f = Inl SyntaxError"
    using read_bad_escape [OF name_quotable(1) [OF assms(1)] assms(2,4)] and_part_trim [OF c]
    by (simp add: tryParseRuleGroupFactor_def cap_text_in)
  have "factor ?f" using factor_text [of ?c n] c assms(5) by (simp only: and_part_def)
  then have "splitTopLevelMultiply ?f = [?f]" "trim ?f = ?f" "?f \<noteq> []"
    using split_factors [of "[?f]"] factor_trim by simp_all
  then have "tryParseRequestRuleExpr ?f = Inl SyntaxError" unfolding tryParseRequestRuleExpr_def Let_def using t by simp
  then show ?thesis by (simp add: js_eval)
qed

subsection \<open>Witnesses\<close>

definition sample_rules :: "request_rule_group list" where
  "sample_rules =
     [\<lparr>rg_conditions = [range_condition (js ''hour'') (js ''Asia/Tokyo'') (js ''21'') (js ''6''),
         param_header SOURCE_HEADER (js ''x-mode'') MATCH_CONTAINS (js ''fast'')], rg_multiplier = js ''1.5''\<rparr>,
      \<lparr>rg_conditions = [param_header SOURCE_PARAM (js ''stream'') MATCH_EQ (js ''true'')], rg_multiplier = js ''2''\<rparr>]"

definition sample_guarded :: "request_rule_group list" where
  "sample_guarded = [\<lparr>rg_conditions = [param_header SOURCE_PARAM (js ''n'') MATCH_GT (js ''5'')], rg_multiplier = js ''2''\<rparr>]"

definition sample_base :: jstring where
  "sample_base = js ''tier(\"base\", p * 1 + c * 2)''"

lemma sample_printable:
  "list_all printable_group sample_rules" "\<not> list_ex unread sample_rules"
  "list_all printable_group sample_guarded" "list_ex unread sample_guarded"
  by code_simp+

lemma sample_base_ok:
  "trim sample_base \<noteq> []" "matched (trim sample_base)" "tryParseRuleGroupFactor (40 # trim sample_base @ [41]) = Inr None"
  by code_simp+

theorem rules_typed_witness:
  "typed_condition (normalizeCondition None) \<and> list_all typed_group sample_rules"
  using rules_typed [of None _ "buildRequestRuleExpr sample_rules" sample_rules] rules_read [OF sample_printable(1)] sample_printable(2)
  by (simp add: unread_def [abs_def])


theorem guarded_rules_lost_witness:
  "tryParseRequestRuleExpr (buildRequestRuleExpr sample_guarded) = Inr None \<and>
   splitBillingExprAndRequestRules (combineBillingExpr sample_base (buildRequestRuleExpr sample_guarded)) =
     Inr \<lparr>se_billingExpr = combineBillingExpr sample_base (buildRequestRuleExpr sample_guarded), se_requestRuleExpr = []\<rparr>"
  by (rule guarded_rules_lost [OF sample_printable(3,4) sample_base_ok])

theorem expression_roundtrip_witness:
  "splitBillingExprAndRequestRules (combineBillingExpr sample_base (buildRequestRuleExpr sample_rules)) =
     Inr \<lparr>se_billingExpr = unwrapOuterParens sample_base, se_requestRuleExpr = buildRequestRuleExpr sample_rules\<rparr>"
  by (rule expression_roundtrip [OF sample_base_ok _ sample_printable(1,2)]) (simp add: sample_rules_def)

text \<open>The literal is \<open>"\v"\<close>.\<close>

theorem unknown_escape_throws_witness:
  "tryParseRequestRuleExpr (js ''(has(header(\"'' @ js ''h'' @ js ''\"), '' @ [34, 92, 118, 34] @ js '') ? '' @ js ''2'' @ js '' : 1)'') =
     Inl SyntaxError"
proof (rule unknown_escape_throws)
  show "string_literal [34, 92, 118, 34]"
    unfolding string_literal_def by (intro exI [of _ "[92, 118]"]) (simp add: ascii_not_line_end)
  show "printed_text [34, 92, 118, 34]"
    by (simp add: printed_text_def trimmed_def plain_text_def ascii_not_ws ascii_not_line_end)
  show "JSON_parse [34, 92, 118, 34] = None" by code_simp
qed code_simp+

end
