(* ===== verification/Tier_Rules.thy ===== *)
theory Tier_Rules
  imports Tier_Expr Billing_Rules
begin

text \<open>
  What the printer and the reader of visual configurations promise each other. The text of a
  tier has one reading only by the patterns of the reader, although every price beyond the first two is
  optional there and the class of numbers contains the sign that separates the terms; so what is read is
  what was printed.
\<close>

section \<open>Printed numbers\<close>

text \<open>A printed number is over the class of the patterns and ends with a digit.\<close>

definition number_text :: "jstring \<Rightarrow> bool" where
  "number_text n \<longleftrightarrow> numerals n \<and> is_digit (last n)"

lemma digits_number_text: "list_all is_digit s \<Longrightarrow> s \<noteq> [] \<Longrightarrow> number_text s"
  by (simp add: number_text_def numerals_def number_units_digits) (simp add: list_all_iff)

lemma number_text_append: "list_all number_unit u \<Longrightarrow> number_text s \<Longrightarrow> number_text (u @ s)"
  by (simp add: number_text_def numerals_def)

lemma nat_str_number_text: "number_text (nat_str n)"
  by (intro digits_number_text) (simp_all add: list_all_iff nat_str_digits)

lemma number_to_string_text: "number_text (number_to_string d)"
proof -
  obtain m e where d: "d = (m, e)" by (cases d)
  define ds where "ds = nat_str (nat \<bar>m\<bar>)"
  have ds: "list_all is_digit ds" "ds \<noteq> []" by (simp_all add: ds_def list_all_iff nat_str_digits)
  have sub: "list_all is_digit (take k ds)" "list_all is_digit (drop k ds)" for k
    using ds(1) by (auto simp: list_all_iff dest: in_set_takeD in_set_dropD)
  have z: "list_all is_digit (replicate k 48)" for k by (simp add: list_all_iff is_digit_def)
  have u: "number_unit 45" "number_unit 46" "number_unit 101" "number_unit 43" "number_unit 48"
    by (simp_all add: number_unit_def is_digit_def js_eval)
  have zn: "list_all number_unit (replicate k 48)" for k by (rule number_units_digits [OF z])
  have tn: "list_all number_unit (take k ds)" "list_all number_unit (drop k ds)" for k
    using sub number_units_digits by blast+
  have sign: "list_all number_unit (if b then js ''-'' else [])" for b by (simp add: js_eval u)
  define k where "k = int (length ds)"
  define n where "n = k + e"
  have a: "number_text (ds @ replicate j 48)" for j
    using ds z by (intro digits_number_text) simp_all
  have b: "number_text (take (nat n) ds @ js ''.'' @ drop (nat n) ds)" if "\<not> (k \<le> n \<and> n \<le> 21)" "0 < n" "n \<le> 21"
    using that tn sub by (intro number_text_append digits_number_text) (auto simp: js_eval u k_def)
  have c: "number_text (js ''0.'' @ replicate j 48 @ ds)" for j
    using ds zn by (intro number_text_append digits_number_text) (auto simp: js_eval u)
  have s: "number_text (take 1 ds @ (if k = 1 then [] else js ''.'' @ drop 1 ds) @ js ''e'' @
      (if n - 1 < 0 then js ''-'' else js ''+'') @ nat_str (nat \<bar>n - 1\<bar>))"
    using tn by (intro number_text_append nat_str_number_text) (auto simp: js_eval u)
  show ?thesis
  proof (cases "m = 0")
    case True
    then show ?thesis by (auto simp: d number_to_string_def js_eval is_digit_def intro!: digits_number_text)
  next
    case False
    have "number_to_string d = (if m < 0 then js ''-'' else []) @
        (if k \<le> n \<and> n \<le> 21 then ds @ replicate (nat (n - k)) 48
         else if 0 < n \<and> n \<le> 21 then take (nat n) ds @ js ''.'' @ drop (nat n) ds
         else if -6 < n \<and> n \<le> 0 then js ''0.'' @ replicate (nat (- n)) 48 @ ds
         else take 1 ds @ (if k = 1 then [] else js ''.'' @ drop 1 ds) @ js ''e'' @
              (if n - 1 < 0 then js ''-'' else js ''+'') @ nat_str (nat \<bar>n - 1\<bar>))"
      using False by (simp only: number_to_string_def d Let_def prod.case if_False ds_def [symmetric] k_def [symmetric] n_def [symmetric])
    also have "number_text \<dots>"
      by (intro number_text_append sign) (simp only: a b c s split: if_split, blast intro: a b c s)
    finally show ?thesis .
  qed
qed

text \<open>\<open>Number\<close> reads a number literal of JSON as that number.\<close>

lemma Number_text_parse:
  assumes "parse_number s = Some (d, [])"
  shows "Number_text s = Some d"
proof -
  have ne: "s \<noteq> []" using assms by (auto simp: parse_number_def span_digits_def)
  have p: "hd s \<noteq> 43" using assms ne by (cases s) (auto simp: parse_number_def span_digits_def is_digit_def)
  obtain sg u where su: "(case s of c # r \<Rightarrow> if c = 45 then (-1, r) else (1, s) | [] \<Rightarrow> (1::int, s)) = (sg, u)" by fastforce
  then have su': "(case s of c # r \<Rightarrow> if c = 45 then (-1, r) else if c = 43 then (1, r) else (1, s)
      | [] \<Rightarrow> (1::int, s)) = (sg, u)" using p by (cases s) auto
  obtain ns t where nt: "span_digits u = (ns, t)" by fastforce
  have *: "\<not> (ns = [] \<or> (hd ns = 48 \<and> length ns > 1))"
    using assms by (auto simp: parse_number_def su nt split: if_splits)
  then obtain fs v where fv: "parse_frac t = Some (fs, v)"
    using assms by (cases "parse_frac t") (auto simp: parse_number_def su nt)
  then obtain x where x: "parse_exp v = Some (x, [])" and d: "d = dec_norm (sg * int (parse_digits (ns @ fs))) (x - int (length fs))"
    using assms * by (cases "parse_exp v") (auto simp: parse_number_def su nt)
  have "(case t of c # r \<Rightarrow> if c = 46 then span_digits r else ([], t) | [] \<Rightarrow> ([], t)) = (fs, v)"
    using fv by (auto simp: parse_frac_def split: list.splits if_splits prod.splits)
  then show ?thesis using ne * by (simp add: Number_text_def su' nt x d)
qed

lemma Number_text_string: "dec_normal d \<Longrightarrow> Number_text (number_to_string d) = Some d"
  using parse_number_to_string [of d "[]"] by (intro Number_text_parse) simp

section \<open>The terms of a price\<close>

text \<open>A name that a pattern finds as a whole: no space, no star, and no sign of a number to start with.\<close>

definition variable :: "jstring \<Rightarrow> bool" where
  "variable x \<longleftrightarrow> x \<noteq> [] \<and> list_all (\<lambda>c. is_word c) x \<and> \<not> number_unit (hd x)"

definition ends_text :: "jstring \<Rightarrow> bool" where
  "ends_text t \<longleftrightarrow> t = [] \<or> \<not> number_unit (hd t)"

text \<open>\<open>x\s*\*\s*(number)\<close> and what follows; and after a plus sign.\<close>

definition rx_price :: "nat \<Rightarrow> jstring \<Rightarrow> regex \<Rightarrow> regex" where
  "rx_price i x b = RxSeq (rx_str x) (RxSeq (RxStar rx_space) (RxSeq (rx_str [42]) (RxSeq (RxStar rx_space)
     (RxSeq (RxGroup i rx_number) b))))"

definition rx_term :: "nat \<Rightarrow> jstring \<Rightarrow> regex \<Rightarrow> regex" where
  "rx_term i x b = RxSeq (RxStar rx_space) (RxSeq (rx_str [43]) (RxSeq (RxStar rx_space) (rx_price i x b)))"

definition price_text :: "jstring \<Rightarrow> jstring \<Rightarrow> jstring" where
  "price_text x n = x @ 32 # 42 # 32 # n"

definition term_text :: "jstring \<Rightarrow> jstring \<Rightarrow> jstring" where
  "term_text x n = 32 # 43 # 32 # price_text x n"

text \<open>A pattern that does not read on from inside a number.\<close>

definition rejects_tail :: "regex \<Rightarrow> bool" where
  "rejects_tail b \<longleftrightarrow> (\<forall>n t p c v c'. number_text n \<longrightarrow> \<not> rx_reads b p (n @ t) c v c')"

lemma word_not: "is_word c \<Longrightarrow> \<not> is_ws c \<and> c \<noteq> 42"
  by (auto simp: is_word_def is_digit_def is_ws_def)

lemma number_unit_not_ws: "number_unit c \<Longrightarrow> \<not> is_ws c"
  by (auto simp: number_unit_def is_digit_def js_eval is_ws_def)

lemma ws_32 [simp]: "is_ws 32" "\<not> is_ws 43" "\<not> is_ws 42" "\<not> is_ws 41" "\<not> is_ws 63"
  by (simp_all add: is_ws_def)

lemma variable_hd: "variable x \<Longrightarrow> \<not> is_ws (hd x)" 
  by (cases x) (auto simp: variable_def word_not)

text \<open>A space of the text is read by \<open>\s*\<close>.\<close>

lemma space_split:
  assumes "u @ w = 32 # s" "list_all is_ws u" "w \<noteq> []" "\<not> is_ws (hd w)" "s \<noteq> []" "\<not> is_ws (hd s)"
  shows "u = [32] \<and> w = s"
  using class_split [of u w "[32]" s is_ws] assms by simp

lemma no_space:
  assumes "u @ w = s" "list_all is_ws u" "s = [] \<or> \<not> is_ws (hd s)"
  shows "u = [] \<and> w = s"
  using assms by (cases u) auto

lemma name_split:
  assumes "x @ u @ 42 # y = w @ 32 # 42 # z" "variable x" "variable w" "list_all is_ws u"
  shows "x = w"
proof -
  have "\<not> is_word (hd (u @ 42 # y))" using assms(4) word_not by (cases u) auto
  moreover have "\<not> is_word 32" by (simp add: is_word_def is_digit_def)
  ultimately show ?thesis using class_split(1) [of x "u @ 42 # y" w "32 # 42 # z" is_word] assms by (auto simp: variable_def)
qed

lemma price_reads:
  "rx_reads (rx_price i x b) p s c v c' \<longleftrightarrow>
     (\<exists>u w n t. s = x @ u @ 42 # w @ n @ t \<and> list_all is_ws u \<and> list_all is_ws w \<and> numerals n \<and>
        rx_reads b (rev (x @ u @ 42 # w @ n) @ p) t (AList.update i n c) v c')"
  unfolding rx_price_def
  by (simp only: rx_eqs numerals_def rev_append rev.simps append_assoc append_Cons append_Nil)
    (intro iffI; elim exE conjE; hypsubst; intro exI conjI; (rule refl | assumption | simp))

lemma term_reads:
  "rx_reads (rx_term i x b) p s c v c' \<longleftrightarrow>
     (\<exists>u w y. s = u @ 43 # w @ y \<and> list_all is_ws u \<and> list_all is_ws w \<and>
        rx_reads (rx_price i x b) (rev (u @ 43 # w) @ p) y c v c')"
  unfolding rx_term_def
  by (simp only: rx_eqs rev_append rev.simps append_assoc append_Cons append_Nil)
    (intro iffI; elim exE conjE; hypsubst; intro exI conjI; (rule refl | assumption | simp))

lemma price_start: "rx_reads (rx_price i x b) p s c v c' \<Longrightarrow> \<exists>y. s = x @ y"
  unfolding price_reads by blast

lemma price_other:
  assumes "variable x" "variable w" "x \<noteq> w"
  shows "\<not> rx_reads (rx_price i x b) p (price_text w n @ r) c v c'"
proof
  assume "rx_reads (rx_price i x b) p (price_text w n @ r) c v c'"
  then obtain u y where "x @ u @ 42 # y = w @ 32 # 42 # 32 # n @ r" "list_all is_ws u"
    unfolding price_reads price_text_def by (auto simp: eq_commute)
  then show False using name_split assms by blast
qed

lemma term_skip:
  assumes "variable x" "s \<noteq> []" "\<not> is_ws (hd s)"
  shows "rx_reads (rx_term i x b) p (32 # 43 # 32 # s) c v c' \<longleftrightarrow> rx_reads (rx_price i x b) (32 # 43 # 32 # p) s c v c'"
    (is "?L \<longleftrightarrow> ?R")
proof
  assume ?L
  then obtain u w y where e: "u @ 43 # w @ y = 32 # 43 # 32 # s" and ws: "list_all is_ws u" "list_all is_ws w"
    and r: "rx_reads (rx_price i x b) (rev (u @ 43 # w) @ p) y c v c'"
    unfolding term_reads by metis
  have u: "u = [32]" "w @ y = 32 # s" using space_split [OF e ws(1)] by simp_all
  obtain z where "y = x @ z" using price_start [OF r] by blast
  then have "y \<noteq> []" "\<not> is_ws (hd y)" using assms(1) variable_hd [OF assms(1)] by (auto simp: variable_def)
  then have "w = [32]" "y = s" using space_split [OF u(2) ws(2)] assms(2,3) by simp_all
  then show ?R using r u by simp
next
  assume ?R
  then show ?L unfolding term_reads by (intro exI [of _ s] exI [of _ "[32]"]) simp
qed

lemma price_text_hd: "variable x \<Longrightarrow> price_text x n @ r \<noteq> [] \<and> \<not> is_ws (hd (price_text x n @ r))"
  using variable_hd [of x] by (auto simp: price_text_def variable_def)

lemma term_skip_text:
  assumes "variable x" "variable w"
  shows "rx_reads (rx_term i x b) p (term_text w n @ r) c v c' \<longleftrightarrow>
    rx_reads (rx_price i x b) (32 # 43 # 32 # p) (price_text w n @ r) c v c'"
  using term_skip [OF assms(1), of "price_text w n @ r"] price_text_hd [OF assms(2), of n r] by (simp add: term_text_def)

lemma term_other:
  assumes "variable x" "variable w" "x \<noteq> w"
  shows "\<not> rx_reads (rx_term i x b) p (term_text w n @ r) c v c'"
  unfolding term_skip_text [OF assms(1,2)] by (rule price_other [OF assms])

lemma term_closed: "\<not> rx_reads (rx_term i x b) p (41 # r) c v c'"
proof
  assume "rx_reads (rx_term i x b) p (41 # r) c v c'"
  then obtain u y where "41 # r = u @ 43 # y" "list_all is_ws u" unfolding term_reads by blast
  then show False by (cases u) auto
qed

lemma number_tail:
  assumes "n' @ t' = n @ t" "numerals n'" "number_text n" "ends_text t"
  obtains "n' = n" "t' = t" | k where "number_text k" "t' = k @ t"
proof -
  from assms(1) consider k where "n = n' @ k" "t' = k @ t" | k where "n' = n @ k" "t = k @ t'"
    by (auto simp: append_eq_append_conv2)
  then show thesis
  proof cases
    case 1
    then show thesis
      using that assms(2,3) by (cases "k = []") (auto simp: number_text_def numerals_def)
  next
    case 2
    then have "k = []" using assms(2,4) by (cases k) (auto simp: numerals_def ends_text_def)
    then show thesis using that 2 by simp
  qed
qed

lemma price_same:
  assumes "variable x" "number_text n" "ends_text t" "rejects_tail b"
  shows "rx_reads (rx_price i x b) p (price_text x n @ t) c v c' \<longleftrightarrow>
    rx_reads b (rev (price_text x n) @ p) t (AList.update i n c) v c'" (is "?L \<longleftrightarrow> ?R")
proof
  assume ?L
  then obtain u w m y where s: "u @ 42 # w @ m @ y = 32 # 42 # 32 # n @ t"
    and ws: "list_all is_ws u" "list_all is_ws w" and m: "numerals m"
    and b: "rx_reads b (rev (x @ u @ 42 # w @ m) @ p) y (AList.update i m c) v c'"
    unfolding price_reads price_text_def by (auto simp: eq_commute)
  have u: "u = [32]" "w @ m @ y = 32 # n @ t" using space_split [OF s ws(1)] by simp_all
  have h: "m @ y \<noteq> []" "\<not> is_ws (hd (m @ y))" "n @ t \<noteq> []" "\<not> is_ws (hd (n @ t))"
    using m assms(2) by (auto simp: number_text_def numerals_def number_unit_not_ws hd_append list_all_iff)
  have w: "w = [32]" "m @ y = n @ t" using space_split [OF u(2) ws(2) h] by simp_all
  show ?R
  proof (rule number_tail [OF w(2) m assms(2,3)])
    assume "m = n" "y = t"
    then show ?R using b u w(1) by (simp add: price_text_def)
  next
    fix k assume "number_text k" "y = k @ t"
    then show ?R using b assms(4) unfolding rejects_tail_def by blast
  qed
next
  assume ?R
  then have "rx_reads b (rev (x @ [32] @ 42 # [32] @ n) @ p) t (AList.update i n c) v c'"
    by (simp add: price_text_def)
  moreover have "price_text x n @ t = x @ [32] @ 42 # [32] @ n @ t" by (simp add: price_text_def)
  moreover have "list_all is_ws [32]" "numerals n" using assms(2) by (simp_all add: number_text_def)
  ultimately show ?L unfolding price_reads by blast
qed

lemma term_same:
  assumes "variable x" "number_text n" "ends_text t" "rejects_tail b"
  shows "rx_reads (rx_term i x b) p (term_text x n @ t) c v c' \<longleftrightarrow>
    rx_reads b (rev (term_text x n) @ p) t (AList.update i n c) v c'"
  unfolding term_skip_text [OF assms(1,1)] price_same [OF assms] by (simp add: term_text_def)

lemma term_rejects_tail:
  assumes "variable x"
  shows "rejects_tail (rx_term i x b)"
  unfolding rejects_tail_def
proof (intro allI impI notI)
  fix n t p c v c' assume n: "number_text n" and "rx_reads (rx_term i x b) p (n @ t) c v c'"
  then obtain u1 u2 y where s: "n @ t = u1 @ 43 # u2 @ x @ y" and ws: "list_all is_ws u1" "list_all is_ws u2"
    unfolding term_reads using price_start by blast
  obtain a k where k: "n = a # k" "number_unit a" "list_all number_unit k"
    using n by (cases n) (auto simp: number_text_def numerals_def)
  have "u1 = []" using no_space [of u1 "43 # u2 @ x @ y" "n @ t"] s ws k number_unit_not_ws by simp
  then have a: "a = 43" "k @ t = u2 @ x @ y" using s k by simp_all
  have "k \<noteq> []" using n a(1) k(1) by (auto simp: number_text_def is_digit_def)
  then obtain e l where e: "k = e # l" "number_unit e" using k(3) by (cases k) auto
  have "u2 = []" using no_space [of u2 "x @ y" "k @ t"] a(2) ws(2) e number_unit_not_ws by simp
  then show False using a(2) e assms by (cases x) (auto simp: variable_def)
qed

section \<open>The prices of a tier\<close>

text \<open>The optional terms: group, name and price of each; a price of zero is not printed.\<close>

type_synonym extra = "nat \<times> jstring \<times> decimal"

definition extra_text :: "extra list \<Rightarrow> jstring" where
  "extra_text es = concat (map (\<lambda>(i, x, d). if fst d \<noteq> 0 then term_text x (number_to_string d) else []) es)"

primrec extra_caps :: "groups \<Rightarrow> extra list \<Rightarrow> groups" where
  "extra_caps c [] = c"
| "extra_caps c (e # es) =
     extra_caps (case e of (i, x, d) \<Rightarrow> if fst d \<noteq> 0 then AList.update i (number_to_string d) c else c) es"

definition rx_extras :: "extra list \<Rightarrow> regex list \<Rightarrow> regex" where
  "rx_extras es rs = rx_seq (map (\<lambda>(i, x, d). rx_extra i x) es @ rx_str [41] # rs)"

definition extra_names :: "extra list \<Rightarrow> jstring list" where
  "extra_names es = map (\<lambda>e. fst (snd e)) es"

lemma extra_names_simps [simp]: "extra_names [] = []" "extra_names ((i, x, d) # es) = x # extra_names es"
  by (simp_all add: extra_names_def)

definition extras_ok :: "extra list \<Rightarrow> bool" where
  "extras_ok es \<longleftrightarrow> list_all variable (extra_names es) \<and> distinct (extra_names es)"

lemma rx_seq_Cons: "rs \<noteq> [] \<Longrightarrow> rx_seq (r # rs) = RxSeq r (rx_seq rs)"
  by (cases rs) auto

lemma rx_extras_Nil: "rx_extras [] rs = rx_seq (rx_str [41] # rs)"
  by (simp add: rx_extras_def)

lemma rx_extras_Cons: "rx_extras ((i, x, d) # es) rs = RxSeq (rx_extra i x) (rx_extras es rs)"
  by (simp add: rx_extras_def rx_seq_Cons)

lemma extra_text_Cons:
  "extra_text ((i, x, d) # es) = (if fst d \<noteq> 0 then term_text x (number_to_string d) else []) @ extra_text es"
  by (simp add: extra_text_def)

lemma reads_closing: "rx_reads (rx_seq (rx_str [41] # rs)) p s c v c' \<Longrightarrow> \<exists>r. s = 41 # r"
  by (cases rs) (auto simp: rx_eqs)

lemma reads_extra:
  "rx_reads (RxSeq (rx_extra i x) b) p s c v c' \<longleftrightarrow> rx_reads (rx_term i x b) p s c v c' \<or> rx_reads b p s c v c'"
  unfolding rx_extra_def rx_term_def rx_price_def rx_seq.simps by (simp add: rx_eqs js_eval)

lemma extras_ok_Cons:
  "extras_ok ((i, x, d) # es) \<longleftrightarrow> variable x \<and> x \<notin> set (extra_names es) \<and> extras_ok es"
  by (auto simp: extras_ok_def)

lemma extras_rejects_tail: "list_all variable (extra_names es) \<Longrightarrow> rejects_tail (rx_extras es rs)"
proof (induction es)
  case Nil
  show ?case
    unfolding rejects_tail_def rx_extras_Nil
  proof (intro allI impI notI)
    fix n t p c v c' assume "number_text n" "rx_reads (rx_seq (rx_str [41] # rs)) p (n @ t) c v c'"
    then show False using reads_closing number_unit_not by (cases n) (fastforce simp: number_text_def numerals_def)+
  qed
next
  case (Cons e es)
  then show ?case
    using term_rejects_tail by (cases e) (auto simp: rx_extras_Cons rejects_tail_def reads_extra)
qed

lemma extras_other:
  assumes "list_all variable (extra_names es)" "variable w" "w \<notin> set (extra_names es)"
  shows "\<not> rx_reads (rx_extras es rs) p (term_text w n @ r) c v c'"
  using assms
proof (induction es)
  case Nil
  then show ?case using reads_closing [of rs p "term_text w n @ r"] by (auto simp: rx_extras_Nil term_text_def)
next
  case (Cons e es)
  then show ?case using term_other by (cases e) (auto simp: rx_extras_Cons reads_extra)
qed

lemma extra_text_start:
  assumes "extras_ok es"
  obtains "extra_text es @ 41 # r = 41 # r" | w n t where "extra_text es @ 41 # r = term_text w n @ t" "variable w"
    "w \<in> set (extra_names es)"
proof -
  have "extra_text es = [] \<or> (\<exists>w n t. extra_text es = term_text w n @ t \<and> variable w \<and> w \<in> set (extra_names es))"
    using assms
  proof (induction es)
    case (Cons e es)
    obtain i x d where e: "e = (i, x, d)" by (cases e)
    show ?case
    proof (cases "fst d = 0")
      case True
      then show ?thesis using Cons.IH Cons.prems unfolding e extra_text_Cons extras_ok_Cons by auto
    next
      case False
      then show ?thesis using Cons.prems unfolding e extra_text_Cons extras_ok_Cons by auto
    qed
  qed (simp add: extra_text_def)
  then show thesis using that by fastforce
qed

lemma extras_read:
  assumes "extras_ok es"
  shows "rx_reads (rx_extras es rs) p (extra_text es @ 41 # r) c v c' \<longleftrightarrow>
    rx_reads (rx_seq (rx_str [41] # rs)) (rev (extra_text es) @ p) (41 # r) (extra_caps c es) v c'"
  using assms
proof (induction es arbitrary: p c)
  case Nil
  then show ?case by (simp add: rx_extras_Nil extra_text_def)
next
  case (Cons e es)
  obtain i x d where e: "e = (i, x, d)" by (cases e)
  have ok: "variable x" "x \<notin> set (extra_names es)" "extras_ok es"
    using Cons.prems by (simp_all add: e extras_ok_Cons)
  then have vs: "list_all variable (extra_names es)" by (simp add: extras_ok_def)
  let ?b = "rx_extras es rs" and ?t = "extra_text es @ 41 # r"
  have ends: "ends_text ?t"
    by (rule extra_text_start [OF ok(3), of r]) (auto simp: ends_text_def term_text_def number_unit_not)
  have rest: "\<not> rx_reads (rx_term i x ?b) p ?t c v c'"
  proof (rule extra_text_start [OF ok(3), of r])
    assume "?t = 41 # r"
    then show ?thesis using term_closed by simp
  next
    fix w n t assume w: "?t = term_text w n @ t" "variable w" "w \<in> set (extra_names es)"
    then have "x \<noteq> w" using ok(2) by auto
    then show ?thesis unfolding w(1) using term_other [OF ok(1) w(2)] by simp
  qed
  show ?case
  proof (cases "fst d = 0")
    case True
    then show ?thesis using rest Cons.IH [OF ok(3)] by (simp add: e rx_extras_Cons reads_extra extra_text_Cons)
  next
    case False
    let ?n = "number_to_string d"
    have "rx_reads (rx_extras (e # es) rs) p (extra_text (e # es) @ 41 # r) c v c' \<longleftrightarrow>
        rx_reads (rx_term i x ?b) p (term_text x ?n @ ?t) c v c' \<or> rx_reads ?b p (term_text x ?n @ ?t) c v c'"
      using False by (simp add: e rx_extras_Cons reads_extra extra_text_Cons)
    also have "\<dots> \<longleftrightarrow> rx_reads ?b (rev (term_text x ?n) @ p) ?t (AList.update i ?n c) v c'"
      using term_same [OF ok(1) number_to_string_text ends extras_rejects_tail [OF vs]] extras_other [OF vs ok(1,2)] by blast
    finally show ?thesis using False Cons.IH [OF ok(3)] by (simp add: e extra_text_Cons)
  qed
qed

text \<open>The body of a tier: two prices that are always there, and the optional ones.\<close>

definition tier_extras :: "nat \<Rightarrow> visual_tier \<Rightarrow> extra list" where
  "tier_extras k t =
     map (\<lambda>(i, cv). (i, cv_exprVar cv, or_zero (cost (partial_of_tier t) (cv_field cv)))) (enumerate k BILLING_CACHE_VAR_MAP)"

lemma cache_vars:
  "map cv_exprVar BILLING_CACHE_VAR_MAP = map js [''cr'', ''cc'', ''cc1h'', ''img'', ''img_o'', ''ai'', ''ao'']"
  by (simp add: BILLING_CACHE_VAR_MAP_def BILLING_EXTRA_VARS_def BILLING_VARS_def)

lemma enumerate_map_snd: "map (\<lambda>(i, x). f x) (enumerate k xs) = map f xs"
  by (induction xs arbitrary: k) auto

lemma tier_extras_names: "extra_names (tier_extras k t) = map cv_exprVar BILLING_CACHE_VAR_MAP"
  using enumerate_map_snd [of cv_exprVar k BILLING_CACHE_VAR_MAP]
  by (simp add: extra_names_def tier_extras_def case_prod_beta' comp_def)

lemma tier_extras_ok: "extras_ok (tier_extras k t)"
proof -
  have "list_all variable (extra_names (tier_extras k t)) \<and> distinct (extra_names (tier_extras k t))"
    unfolding tier_extras_names cache_vars
    by (simp add: js_eval variable_def is_word_def is_digit_def number_unit_def)
  then show ?thesis by (simp add: extras_ok_def)
qed

lemma variable_pc: "variable [112]" "variable [99]"
  by (simp_all add: js_eval variable_def is_word_def is_digit_def number_unit_def)

lemma join_concat_Cons: "join sep (x # xs) = x @ concat (map (\<lambda>y. sep @ y) xs)"
  by (induction xs arbitrary: x) auto

lemma body_text:
  "buildTierBodyExpr t = price_text [112] (number_to_string (or_zero (vt_input_unit_cost t))) @
     term_text [99] (number_to_string (or_zero (vt_output_unit_cost t))) @ extra_text (tier_extras k t)"
proof -
  have "concat (map (\<lambda>y. js '' + '' @ y) (List.map_filter (\<lambda>cv. let v = f cv in
      if fst v \<noteq> 0 then Some (cv_exprVar cv @ js '' * '' @ number_to_string v) else None) cvs)) =
    extra_text (map (\<lambda>(i, cv). (i, cv_exprVar cv, f cv)) (enumerate k cvs))" for f :: "cache_var \<Rightarrow> decimal" and cvs
    by (induction cvs arbitrary: k)
      (auto simp: List.map_filter_simps extra_text_def Let_def term_text_def price_text_def js_eval)
  then show ?thesis
    by (simp add: buildTierBodyExpr_def Let_def join_concat_Cons tier_extras_def) (simp add: js_eval term_text_def price_text_def)
qed

definition body_caps :: "nat \<Rightarrow> visual_tier \<Rightarrow> groups \<Rightarrow> groups" where
  "body_caps k t c = extra_caps (AList.update (k + 1) (number_to_string (or_zero (vt_output_unit_cost t)))
     (AList.update k (number_to_string (or_zero (vt_input_unit_cost t))) c)) (tier_extras (k + 2) t)"

lemma bodyPat_term:
  "rx_seq (bodyPat k @ rx_str [41] # rs) = rx_price k [112] (rx_term (k + 1) [99] (rx_extras (tier_extras (k + 2) t) rs))"
proof -
  have "map (\<lambda>(i, cv). rx_extra i (cv_exprVar cv)) (enumerate (k + 2) BILLING_CACHE_VAR_MAP) =
      map (\<lambda>(i, x, d). rx_extra i x) (tier_extras (k + 2) t)"
    by (simp add: tier_extras_def case_prod_beta' comp_def)
  then show ?thesis
    unfolding bodyPat_def rx_price_def rx_term_def rx_extras_def append_assoc append_Cons append_Nil by (simp add: rx_seq_Cons js_eval)
qed

lemma body_read:
  "rx_reads (rx_seq (bodyPat k @ rx_str [41] # rs)) p (buildTierBodyExpr t @ 41 # r) c v c' \<longleftrightarrow>
   rx_reads (rx_seq (rx_str [41] # rs)) (rev (buildTierBodyExpr t) @ p) (41 # r) (body_caps k t c) v c'"
proof -
  let ?es = "tier_extras (k + 2) t" and ?oc = "number_to_string (or_zero (vt_output_unit_cost t))"
  have ends: "ends_text (term_text x n @ s)" for x n s by (simp add: ends_text_def term_text_def number_unit_not)
  have ends': "ends_text (extra_text ?es @ 41 # r)"
    by (rule extra_text_start [OF tier_extras_ok [of "k + 2" t], of r]) (auto simp: ends_text_def term_text_def number_unit_not)
  have rej: "rejects_tail (rx_extras ?es rs)"
    using tier_extras_ok [of "k + 2" t] by (intro extras_rejects_tail) (simp add: extras_ok_def)
  show ?thesis
    unfolding bodyPat_term [of k rs t] body_text [of t "k + 2"] append_assoc
      price_same [OF variable_pc(1) number_to_string_text ends term_rejects_tail [OF variable_pc(2)]]
      term_same [OF variable_pc(2) number_to_string_text ends' rej] extras_read [OF tier_extras_ok] body_caps_def rev_append
    by (rule refl)
qed

section \<open>A tier\<close>

definition rx_call :: "nat \<Rightarrow> regex list \<Rightarrow> regex" where
  "rx_call k rs = RxSeq (rx_str (js ''tier(\"'')) (RxSeq (RxGroup k (RxStar (RxChar (\<lambda>c. c \<noteq> 34)))) (RxSeq (rx_str [34, 44])
     (RxSeq (RxStar rx_space) (rx_seq (bodyPat (k + 1) @ rx_str [41] # rs)))))"

lemma body_start: "\<exists>y. buildTierBodyExpr t = 112 # y"
  by (simp add: body_text [of t 0] price_text_def)

lemma bodyPat_start: "rx_reads (rx_seq (bodyPat k @ rx_str [41] # rs)) p s c v c' \<Longrightarrow> \<exists>y. s = 112 # y"
  unfolding bodyPat_term [of k rs t] by (drule price_start) simp

lemma call_read:
  assumes "34 \<notin> set label"
  shows "rx_reads (rx_call k rs) p (tier_call label t @ r) c v c' \<longleftrightarrow>
    rx_reads (rx_seq (rx_str [41] # rs)) (rev (js ''tier(\"'' @ label @ js ''\", '' @ buildTierBodyExpr t) @ p) (41 # r)
      (body_caps (k + 1) t (AList.update k label c)) v c'" (is "?L \<longleftrightarrow> ?R")
proof -
  let ?b = "rx_seq (bodyPat (k + 1) @ rx_str [41] # rs)" and ?t = "buildTierBodyExpr t @ 41 # r"
  have tx: "tier_call label t @ r = js ''tier(\"'' @ label @ 34 # 44 # 32 # ?t"
    by (simp add: tier_call_def js_eval)
  have "?L \<longleftrightarrow> (\<exists>u w y. label @ 34 # 44 # 32 # ?t = u @ 34 # 44 # w @ y \<and> list_all (\<lambda>c. c \<noteq> 34) u \<and> list_all is_ws w \<and>
      rx_reads ?b (rev (js ''tier(\"'' @ u @ 34 # 44 # w) @ p) y (AList.update k u c) v c')"
    unfolding tx rx_call_def
    by (simp only: rx_eqs rev_append rev.simps append_assoc append_Cons append_Nil same_append_eq)
      (intro iffI; elim exE conjE; hypsubst?; intro exI conjI; (rule refl | assumption | simp))
  also have "\<dots> \<longleftrightarrow> rx_reads ?b (rev (js ''tier(\"'' @ label @ js ''\", '') @ p) ?t (AList.update k label c) v c'" (is "?A \<longleftrightarrow> ?B")
  proof
    assume ?A
    then obtain u w y where e: "label @ 34 # 44 # 32 # ?t = u @ 34 # 44 # w @ y" "list_all (\<lambda>c. c \<noteq> 34) u" "list_all is_ws w"
      and b: "rx_reads ?b (rev (js ''tier(\"'' @ u @ 34 # 44 # w) @ p) y (AList.update k u c) v c'" by blast
    have u: "u = label" "w @ y = 32 # ?t" using quote_split [OF assms, of "44 # 32 # ?t" u "44 # w @ y"] e by auto
    obtain z where z: "y = 112 # z" using bodyPat_start [OF b] by blast
    have "\<not> is_ws 112" by (simp add: is_ws_def)
    then have "w = [32] \<and> y = ?t" using body_start [of t] z by (intro space_split [OF u(2) e(3)]) auto
    then show ?B using b u(1) by (simp add: js_eval)
  next
    assume ?B
    then have "rx_reads ?b (rev (js ''tier(\"'' @ label @ 34 # 44 # [32]) @ p) ?t (AList.update k label c) v c'"
      by (simp add: js_eval)
    moreover have "list_all (\<lambda>c. c \<noteq> 34) label" "list_all is_ws [32]" using assms by (auto simp: list_all_iff)
    ultimately show ?A by (intro exI [of _ label] exI [of _ "[32]"] exI [of _ ?t]) simp
  qed
  also have "\<dots> \<longleftrightarrow> ?R" unfolding body_read rev_append append_assoc by (rule refl)
  finally show ?thesis .
qed

lemma call_start: "rx_reads (rx_call k rs) p s c v c' \<Longrightarrow> \<exists>y. s = 116 # y"
  unfolding rx_call_def by (auto simp: reads_after_str js_eval)

section \<open>The conditions of a tier\<close>

definition condition_ok :: "tier_condition_input \<Rightarrow> bool" where
  "condition_ok c \<longleftrightarrow>
     ti_var c \<in> {js ''p'', js ''c'', js ''len''} \<and> ti_op c \<in> {js ''<'', js ''<='', js ''>'', js ''>=''} \<and>
     (case ti_value c of
        NumberValue (Some d) \<Rightarrow> dec_normal d \<and> list_all bound_unit (number_to_string d)
      | _ \<Rightarrow> False)"

definition condition_text :: "tier_condition_input \<Rightarrow> jstring" where
  "condition_text c = ti_var c @ 32 # ti_op c @ 32 # value_str (ti_value c)"

lemma condition_okE:
  assumes "condition_ok c"
  obtains x o' d where "c = \<lparr>ti_var = x, ti_op = o', ti_value = NumberValue (Some d)\<rparr>"
    "x \<in> {js ''p'', js ''c'', js ''len''}" "o' \<in> {js ''<'', js ''<='', js ''>'', js ''>=''}"
    "dec_normal d" "list_all bound_unit (number_to_string d)" "number_to_string d \<noteq> []"
    "condition_text c = x @ 32 # o' @ 32 # number_to_string d"
proof (cases c)
  case (fields x o' v)
  then show thesis
    using assms number_to_string_text that
    by (auto simp: condition_ok_def condition_text_def number_str_def number_text_def numerals_def
        split: condition_value.splits option.splits)
qed

lemma build_conditions:
  assumes "list_all condition_ok cs"
  shows "buildConditionStr cs = join (js '' && '') (map condition_text cs)"
proof -
  have "filter (\<lambda>c. ti_var c \<noteq> [] \<and> ti_op c \<noteq> [] \<and> ti_value c \<noteq> TextValue []) cs = cs"
    using assms by (auto simp: filter_id_conv list_all_iff js_eval elim!: condition_okE dest!: bspec)
  then show ?thesis by (simp add: buildConditionStr_def condition_text_def [abs_def] js_eval)
qed

text \<open>What a reading of a conjunction looks like.\<close>

definition condition_like :: "jstring \<Rightarrow> bool" where
  "condition_like u \<longleftrightarrow> u \<noteq> [] \<and> 63 \<notin> set u \<and> \<not> is_ws (last u)"

lemma bound_unit_not: "bound_unit c \<Longrightarrow> c \<noteq> 63 \<and> \<not> is_ws c \<and> c \<noteq> 38 \<and> c \<noteq> 61"
  by (auto simp: bound_unit_def is_digit_def js_eval is_ws_def)

lemma bounds_like: "list_all bound_unit n \<Longrightarrow> n \<noteq> [] \<Longrightarrow> condition_like n"
  using bound_unit_not by (auto simp: condition_like_def list_all_iff)

lemma like_append: "63 \<notin> set u \<Longrightarrow> condition_like w \<Longrightarrow> condition_like (u @ w)"
  by (simp add: condition_like_def)

lemma ws_not_question: "list_all is_ws u \<Longrightarrow> 63 \<notin> set u"
  by (auto simp: list_all_iff)

abbreviation condition_vars :: "jstring list" where
  "condition_vars \<equiv> [js ''p'', js ''c'', js ''len'']"

abbreviation condition_ops :: "jstring list" where
  "condition_ops \<equiv> [js ''<'', js ''<='', js ''>'', js ''>='']"

lemma reads_after_words:
  "rx_reads (RxSeq (rx_alt (map rx_str ws)) b) p s c v c' \<longleftrightarrow>
     (\<exists>u \<in> set ws. \<exists>w. s = u @ w \<and> rx_reads b (rev u @ p) w c v c')"
  unfolding reads_RxSeq reads_words by auto

lemma condition_reads:
  "rx_reads rx_condition p s c w c1 \<longleftrightarrow>
     (\<exists>x \<in> set condition_vars. \<exists>o' \<in> set condition_ops. \<exists>u1 u2 n. s = x @ u1 @ o' @ u2 @ n @ w \<and> c1 = c \<and>
        list_all is_ws u1 \<and> list_all is_ws u2 \<and> n \<noteq> [] \<and> list_all bound_unit n)"
proof -
  have e: "rx_condition = RxSeq (rx_alt (map rx_str condition_vars)) (RxSeq (RxStar rx_space)
      (RxSeq (rx_alt (map rx_str condition_ops)) (RxSeq (RxStar rx_space) (rx_plus (RxChar bound_unit)))))"
    unfolding rx_condition_def by simp
  show ?thesis
    unfolding e
    by (simp only: reads_after_words reads_after_star_class reads_plus_class Bex_def)
      (intro iffI; elim exE conjE; hypsubst?; intro exI conjI; (rule refl | assumption | simp))
qed

lemma condition_sound:
  assumes "rx_reads rx_condition p s c w c1"
  shows "c1 = c \<and> (\<exists>u. s = u @ w \<and> condition_like u)"
proof -
  obtain x o' u1 u2 n where *: "x \<in> set condition_vars" "o' \<in> set condition_ops" "s = (x @ u1 @ o' @ u2 @ n) @ w" "c1 = c"
    "list_all is_ws u1" "list_all is_ws u2" "n \<noteq> []" "list_all bound_unit n"
    using assms unfolding condition_reads append_assoc by blast
  have "63 \<notin> set x" "63 \<notin> set o'" using *(1,2) by (auto simp: js_eval)
  then have "condition_like (x @ u1 @ o' @ u2 @ n)"
    using * ws_not_question by (intro like_append bounds_like) simp_all
  then show ?thesis using *(3,4) by blast
qed

lemma conjunct_sound:
  assumes "rx_reads (RxSeq rx_and rx_condition) p s c w c1"
  shows "c1 = c \<and> (\<exists>u. s = u @ w \<and> condition_like u)"
proof -
  obtain u1 u2 y q where "s = (u1 @ 38 # 38 # u2) @ y" "list_all is_ws u1" "list_all is_ws u2" "rx_reads rx_condition q y c w c1"
    using assms unfolding rx_and_def by (auto simp: rx_eqs js_eval)
  moreover from this(2,3) have "63 \<notin> set (u1 @ 38 # 38 # u2)" using ws_not_question by auto
  ultimately show ?thesis using condition_sound like_append append_assoc by metis
qed

lemma rx_groups_condition [simp]: "rx_groups rx_and = []" "rx_groups rx_condition = []"
  by (simp_all add: rx_and_def rx_condition_def rx_plus_def rx_str_def js_eval)

lemma conjuncts_sound:
  "rx_reads (RxStar (RxSeq rx_and rx_condition)) p s c w c1 \<Longrightarrow> c1 = c \<and> (w = s \<or> (\<exists>u. s = u @ w \<and> condition_like u))"
proof (induction "length s" arbitrary: p s c rule: less_induct)
  case less
  from less.prems show ?case
    unfolding reads_RxStar [of _ p s]
  proof (elim disjE exE conjE)
    fix u y c2 assume *: "u \<noteq> []" "s = u @ y"
      "rx_reads (RxSeq rx_and rx_condition) p s (filter (\<lambda>(i, t). i \<notin> set (rx_groups (RxSeq rx_and rx_condition))) c) y c2"
      "rx_reads (RxStar (RxSeq rx_and rx_condition)) (rev u @ p) y c2 w c1"
    have "c2 = c" "condition_like u" using conjunct_sound [OF *(3)] *(2) by (auto simp: case_prod_beta')
    moreover have "c1 = c2 \<and> (w = y \<or> (\<exists>u. y = u @ w \<and> condition_like u))"
      using less.hyps [OF _ *(4)] * by simp
    ultimately show ?thesis using * like_append [of u] by (auto simp: condition_like_def) 
  qed simp
qed

lemma conjunction_sound:
  assumes "rx_reads (RxSeq rx_condition (RxStar (RxSeq rx_and rx_condition))) p s c w c1"
  shows "c1 = c \<and> (\<exists>u. s = u @ w \<and> condition_like u)"
proof -
  obtain y q c2 where y: "rx_reads rx_condition p s c y c2" "rx_reads (RxStar (RxSeq rx_and rx_condition)) q y c2 w c1"
    using assms unfolding reads_RxSeq by blast
  from condition_sound [OF y(1)] conjuncts_sound [OF y(2)] show ?thesis
    using like_append by (auto simp: condition_like_def)
qed

lemma condition_exists:
  assumes "condition_ok x"
  shows "rx_reads rx_condition p (condition_text x @ r) c r c"
proof -
  obtain y o' d where *: "y \<in> set condition_vars" "o' \<in> set condition_ops" "list_all bound_unit (number_to_string d)"
    "number_to_string d \<noteq> []" "condition_text x = y @ 32 # o' @ 32 # number_to_string d"
    using assms by (elim condition_okE) auto
  have "condition_text x @ r = y @ [32] @ o' @ [32] @ number_to_string d @ r" "list_all is_ws [32]" using *(5) by simp_all
  then show ?thesis unfolding condition_reads using * by blast
qed

lemma conjunct_exists:
  assumes "condition_ok x"
  shows "rx_reads (RxSeq rx_and rx_condition) p (js '' && '' @ condition_text x @ r) c r c"
proof -
  have "js '' && '' @ condition_text x @ r = [32] @ [38, 38] @ [32] @ condition_text x @ r" "list_all is_ws [32]" by (simp_all add: js_eval)
  moreover have "rx_reads rx_condition (rev [32] @ rev [38, 38] @ rev [32] @ p) (condition_text x @ r) c r c"
    by (rule condition_exists [OF assms])
  moreover have "js ''&&'' = [38, 38]" by (simp add: js_eval)
  ultimately show ?thesis
    unfolding rx_and_def rx_seq.simps reads_after_seq reads_after_star_class reads_after_str by metis
qed

lemma conjuncts_exist:
  "list_all condition_ok cs \<Longrightarrow>
   rx_reads (RxStar (RxSeq rx_and rx_condition)) p (concat (map (\<lambda>x. js '' && '' @ condition_text x) cs) @ r) c r c"
proof (induction cs arbitrary: p)
  case Nil
  show ?case by (subst reads_RxStar) simp
next
  case (Cons x cs)
  let ?u = "js '' && '' @ condition_text x" and ?y = "concat (map (\<lambda>x. js '' && '' @ condition_text x) cs) @ r"
  have "rx_reads (RxSeq rx_and rx_condition) p (?u @ ?y) c ?y c"
    using conjunct_exists [of x p ?y c] Cons.prems by simp
  moreover have "rx_reads (RxStar (RxSeq rx_and rx_condition)) (rev ?u @ p) ?y c r c" using Cons by simp
  moreover have "?u \<noteq> []" by (simp add: js_eval)
  moreover have "filter (\<lambda>(i, t). i \<notin> set (rx_groups (RxSeq rx_and rx_condition))) c = c" by (simp add: case_prod_beta')
  moreover have "concat (map (\<lambda>x. js '' && '' @ condition_text x) (x # cs)) @ r = ?u @ ?y" by simp
  ultimately show ?case unfolding reads_RxStar [of _ p] by metis
qed

abbreviation conjunction :: "tier_condition_input list \<Rightarrow> jstring" where
  "conjunction cs \<equiv> join (js '' && '') (map condition_text cs)"

lemma conjunction_exists:
  assumes "list_all condition_ok cs" "cs \<noteq> []"
  shows "rx_reads (RxSeq rx_condition (RxStar (RxSeq rx_and rx_condition))) p (conjunction cs @ r) c r c"
proof -
  obtain x xs where cs: "cs = x # xs" using assms(2) by (cases cs) auto
  let ?y = "concat (map (\<lambda>x. js '' && '' @ condition_text x) xs) @ r"
  have "rx_reads rx_condition p (condition_text x @ ?y) c ?y c"
    "rx_reads (RxStar (RxSeq rx_and rx_condition)) (rev (condition_text x) @ p) ?y c r c"
    using assms(1) by (auto simp: cs intro!: condition_exists conjuncts_exist)
  moreover have "conjunction cs @ r = condition_text x @ ?y" by (simp add: cs join_concat_Cons comp_def)
  ultimately show ?thesis unfolding reads_RxSeq [of rx_condition] by metis
qed

lemma conjunction_like:
  assumes "list_all condition_ok cs" "cs \<noteq> []"
  shows "condition_like (conjunction cs)"
  using conjunction_sound [OF conjunction_exists [OF assms, of "[]" "[]" "[]"]] by simp

text \<open>The conditions and their question mark are read in one way.\<close>

lemma question_split:
  assumes "u @ w @ 63 # y = k @ 32 # 63 # z" "condition_like u" "condition_like k" "list_all is_ws w"
  shows "u = k" "w = [32]" "y = z"
proof -
  have *: "u @ w = k @ [32]" "63 # y = 63 # z"
    using class_split [of "u @ w" "63 # y" "k @ [32]" "63 # z" "\<lambda>c. c \<noteq> 63"] assms ws_not_question [OF assms(4)]
    by (auto simp: condition_like_def list_all_iff)
  have "rev w @ rev u = [32] @ rev k" using arg_cong [OF *(1), of rev] by simp
  then have "rev w = [32]" "rev u = rev k"
    using class_split [of "rev w" "rev u" "[32]" "rev k" is_ws] assms(2-4) by (auto simp: condition_like_def hd_rev)
  then show "u = k" "w = [32]" "y = z" using *(2) by (simp_all add: rev_swap)
qed

lemma visual_split: "visualTierRe =
  RxSeq (rx_opt (rx_seq [condGroup, RxStar rx_space, rx_str (js ''?''), RxStar rx_space])) (rx_call 2 [])"
  unfolding visualTierRe_def rx_call_def bodyPat_def append_assoc append_Cons append_Nil
  by (simp add: rx_seq_Cons js_eval rx_not_in_def)

definition rx_question :: "nat \<Rightarrow> regex \<Rightarrow> regex" where
  "rx_question i b = RxSeq (RxGroup i (RxSeq rx_condition (RxStar (RxSeq rx_and rx_condition))))
     (RxSeq (RxStar rx_space) (RxSeq (rx_str [63]) (RxSeq (RxStar rx_space) b)))"

lemma visual_reads:
  "rx_reads visualTierRe p s c v c' \<longleftrightarrow>
     rx_reads (rx_question 1 (rx_call 2 [])) p s c v c' \<or> rx_reads (rx_call 2 []) p s c v c'"
  unfolding visual_split rx_question_def condGroup_def rx_seq.simps reads_opt(2)
  by (simp add: reads_after_seq reads_after_group reads_after_star_class reads_after_str js_eval)

lemma question_reads:
  "rx_reads (rx_question i b) p s c v c' \<Longrightarrow>
     \<exists>u w w' y. s = u @ w @ 63 # w' @ y \<and> condition_like u \<and> list_all is_ws w \<and> list_all is_ws w' \<and>
       rx_reads b (rev (u @ w @ 63 # w') @ p) y (AList.update i u c) v c'"
  unfolding rx_question_def reads_after_group
proof (elim exE conjE)
  fix u y c1 assume s: "s = u @ y" and r: "rx_reads (RxSeq rx_condition (RxStar (RxSeq rx_and rx_condition))) p s c y c1"
    and b: "rx_reads (RxSeq (RxStar rx_space) (RxSeq (rx_str [63]) (RxSeq (RxStar rx_space) b))) (rev u @ p) y (AList.update i u c1) v c'"
  obtain w w' z where z: "y = w @ 63 # w' @ z" "list_all is_ws w" "list_all is_ws w'"
    "rx_reads b (rev (u @ w @ 63 # w') @ p) z (AList.update i u c1) v c'"
    using b by (auto simp: rx_eqs)
  then show ?thesis using conjunction_sound [OF r] s by auto
qed

lemma question_same:
  assumes "list_all condition_ok cs" "cs \<noteq> []" "s \<noteq> []" "\<not> is_ws (hd s)"
    and b: "\<And>p s c v c'. rx_reads b p s c v c' \<Longrightarrow> s \<noteq> [] \<and> \<not> is_ws (hd s)"
  shows "rx_reads (rx_question i b) p (conjunction cs @ 32 # 63 # 32 # s) c v c' \<longleftrightarrow>
    rx_reads b (rev (conjunction cs @ js '' ? '') @ p) s (AList.update i (conjunction cs) c) v c'" (is "?L \<longleftrightarrow> ?R")
proof
  assume ?L
  then obtain u w w' y where *: "u @ w @ 63 # w' @ y = conjunction cs @ 32 # 63 # 32 # s" "condition_like u" "list_all is_ws w"
    "list_all is_ws w'" "rx_reads b (rev (u @ w @ 63 # w') @ p) y (AList.update i u c) v c'"
    using question_reads by metis
  note q = question_split [OF *(1,2) conjunction_like [OF assms(1,2)] *(3)]
  have "w' = [32] \<and> y = s" using b [OF *(5)] assms(3,4) by (intro space_split [OF q(3) *(4)]) simp_all
  then show ?R using *(5) q by (simp add: js_eval)
next
  assume ?R
  then have "rx_reads b (rev [32] @ rev [63] @ rev [32] @ rev (conjunction cs) @ p) s (AList.update i (conjunction cs) c) v c'"
    by (simp add: js_eval)
  then have "rx_reads (RxSeq (RxStar rx_space) (RxSeq (rx_str [63]) (RxSeq (RxStar rx_space) b))) (rev (conjunction cs) @ p)
      (32 # 63 # 32 # s) (AList.update i (conjunction cs) c) v c'"
    unfolding reads_after_star_class reads_after_str
    by (intro exI [of _ "[32]"] exI [of _ "63 # 32 # s"] exI [of _ "32 # s"] exI [of _ s] conjI; simp)
  then show ?L
    unfolding rx_question_def reads_after_group using conjunction_exists [OF assms(1,2)] by blast
qed

section \<open>The parts of an expression\<close>

definition price_ok :: "js_number \<Rightarrow> bool" where
  "price_ok n \<longleftrightarrow> (case n of Some d \<Rightarrow> dec_normal d | None \<Rightarrow> False)"

text \<open>
  A tier that the expression can hold: a label without quotes, conditions that the patterns know, and the
  cache mode that its prices stand for.
\<close>

definition tier_ok :: "visual_tier \<Rightarrow> bool" where
  "tier_ok t \<longleftrightarrow>
     vt_label t \<noteq> [] \<and> 34 \<notin> set (vt_label t) \<and> list_all condition_ok (vt_conditions t) \<and>
     list_all price_ok (map snd (pt_costs (partial_of_tier t))) \<and>
     vt_cache_mode t = (if positive (vt_cache_create_1h_unit_cost t) then CACHE_MODE_TIMED else CACHE_MODE_GENERIC)"

definition part :: "visual_tier \<Rightarrow> jstring" where
  "part t = (if vt_conditions t = [] then [] else conjunction (vt_conditions t) @ js '' ? '') @ tier_call (vt_label t) t"

definition part_caps :: "visual_tier \<Rightarrow> groups" where
  "part_caps t = body_caps 3 t (AList.update 2 (vt_label t)
     (if vt_conditions t = [] then [] else [(1, conjunction (vt_conditions t))]))"

lemma tier_call_start: "\<exists>y. tier_call l t @ r = 116 # y"
  by (simp add: tier_call_def js_eval)

lemma question_start:
  assumes "rx_reads (rx_question i b) p s c v c'"
  shows "\<exists>x \<in> set condition_vars. \<exists>u o' y. s = x @ u @ o' @ y \<and> list_all is_ws u \<and> o' \<in> set condition_ops"
proof -
  obtain w c1 where "rx_reads rx_condition p s c w c1"
    using assms unfolding rx_question_def reads_after_group reads_RxSeq [of rx_condition] by blast
  then show ?thesis unfolding condition_reads by blast
qed

lemma conjunction_start:
  assumes "list_all condition_ok cs" "cs \<noteq> []"
  shows "\<exists>x \<in> {112, 99, 108}. \<exists>y. conjunction cs = x # y"
proof -
  obtain c ds where cs: "cs = c # ds" "condition_ok c" using assms by (cases cs) auto
  from cs(2) have "\<exists>x \<in> {112, 99, 108}. \<exists>y. condition_text c = x # y" by (elim condition_okE) (auto simp: js_eval)
  then show ?thesis by (auto simp: cs(1) join_concat_Cons)
qed

lemma call_one:
  assumes "34 \<notin> set label"
  shows "rx_reads (rx_call k []) p (tier_call label t @ r) c v c' \<longleftrightarrow>
    v = r \<and> c' = body_caps (k + 1) t (AList.update k label c)"
  unfolding call_read [OF assms] by (auto simp: reads_rx_str)

lemma part_read:
  assumes "tier_ok t"
  shows "rx_reads visualTierRe p (part t @ r) [] v c' \<longleftrightarrow> v = r \<and> c' = part_caps t"
proof (cases "vt_conditions t = []")
  case True
  have "\<not> rx_reads (rx_question 1 (rx_call 2 [])) p (tier_call (vt_label t) t @ r) [] v c'"
  proof
    assume "rx_reads (rx_question 1 (rx_call 2 [])) p (tier_call (vt_label t) t @ r) [] v c'"
    from question_start [OF this] tier_call_start [of "vt_label t" t r] show False by (auto simp: js_eval)
  qed
  then show ?thesis
    using True call_one [of "vt_label t" 2 p t r "[]" v c'] assms by (simp add: visual_reads part_def part_caps_def tier_ok_def)
next
  case False
  let ?k = "conjunction (vt_conditions t)" and ?s = "tier_call (vt_label t) t @ r"
  have cs: "list_all condition_ok (vt_conditions t)" and l: "34 \<notin> set (vt_label t)" using assms by (simp_all add: tier_ok_def)
  have tx: "part t @ r = ?k @ 32 # 63 # 32 # ?s" using False by (simp add: part_def js_eval)
  have "\<not> rx_reads (rx_call 2 []) p (?k @ 32 # 63 # 32 # ?s) [] v c'"
    using call_start [of 2 "[]" p "?k @ 32 # 63 # 32 # ?s"] conjunction_start [OF cs False] by fastforce
  moreover have "\<not> is_ws 116" by (simp add: is_ws_def)
  then have "rx_reads (rx_question 1 (rx_call 2 [])) p (?k @ 32 # 63 # 32 # ?s) [] v c' \<longleftrightarrow>
      rx_reads (rx_call 2 []) (rev (?k @ js '' ? '') @ p) ?s (AList.update 1 ?k []) v c'"
    using tier_call_start [of "vt_label t" t r] call_start by (intro question_same [OF cs False]) force+
  ultimately show ?thesis
    unfolding visual_reads tx call_one [OF l] using False by (simp add: part_caps_def)
qed

section \<open>All matches\<close>

lemma no_reads_Nil: "rx r (start_at p s) = [] \<longleftrightarrow> (\<nexists>v c. rx_reads r p s [] v c)"
proof -
  have "set (rx r (start_at p s)) = {} \<longleftrightarrow> (\<nexists>v c. rx_reads r p s [] v c)"
    unfolding rx_reads_def start_at_def by (metis (no_types) all_not_in_conv position.cases)
  then show ?thesis by simp
qed

lemma all_here:
  assumes "rx_reads r p (u @ v) [] v c" "\<And>v' c'. rx_reads r p (u @ v) [] v' c' \<Longrightarrow> v' = v \<and> c' = c" "u \<noteq> []"
  shows "\<exists>m. m_caps m = c \<and> rx_all r p (u @ v) = m # rx_all r (rev u @ p) v"
proof -
  obtain t ts where t: "rx r (start_at p (u @ v)) = t # ts"
    using assms(1) no_reads_Nil [of r p "u @ v"] by (cases "rx r (start_at p (u @ v))") auto
  then have "rx_reads r p (u @ v) [] (rest t) (caps t)" by (intro rx_readsI) (simp add: start_at_def)
  then have rc: "rest t = v" "caps t = c" using assms(2) by blast+
  have "follows t (start_at p (u @ v))" using rx_follows [of t r "start_at p (u @ v)"] t by simp
  then have "behind t = rev u @ p" using rc by (auto simp: follows_def start_at_def)
  then show ?thesis
    using t rc assms(3) by (subst rx_all.simps, subst rx_search.simps) simp
qed

lemma search_skip:
  assumes "\<nexists>v c. rx_reads r p (x # s) [] v c"
  shows "rx_search r p (x # s) = rx_search r (x # p) s"
  using no_reads_Nil [THEN iffD2, OF assms] by (subst rx_search.simps) simp

lemma all_skip:
  assumes "\<nexists>v c. rx_reads r p (x # s) [] v c"
  shows "rx_all r p (x # s) = rx_all r (x # p) s"
  by (subst rx_all.simps, subst (2) rx_all.simps) (simp add: search_skip [OF assms])

lemma all_end:
  assumes "\<nexists>v c. rx_reads r p [] [] v c"
  shows "rx_all r p [] = []"
  using no_reads_Nil [THEN iffD2, OF assms] by (subst rx_all.simps, subst rx_search.simps) simp

lemma visual_start:
  assumes "rx_reads visualTierRe p s c v c'"
  shows "\<exists>y. s = 116 # y \<or> (\<exists>x \<in> set condition_vars. \<exists>u o'. s = x @ u @ o' @ y \<and> list_all is_ws u \<and> o' \<in> set condition_ops)"
  using assms unfolding visual_reads
proof
  assume "rx_reads (rx_question 1 (rx_call 2 [])) p s c v c'"
  from question_start [OF this] show ?thesis by blast
next
  assume "rx_reads (rx_call 2 []) p s c v c'"
  from call_start [OF this] show ?thesis by blast
qed

lemma visual_not:
  "x \<notin> {116, 112, 99, 108} \<Longrightarrow> \<not> rx_reads visualTierRe p (x # s) c v c'"
  "\<not> rx_reads visualTierRe p [] c v c'"
  by (auto dest!: visual_start simp: js_eval)

lemma visual_not_product: "x \<in> {112, 99} \<Longrightarrow> \<not> rx_reads visualTierRe p (x # 32 # 42 # s) c v c'"
proof
  assume x: "x \<in> {112, 99}" and "rx_reads visualTierRe p (x # 32 # 42 # s) c v c'"
  from visual_start [OF this(2)] x obtain u o' y where "32 # 42 # s = u @ o' @ y" "list_all is_ws u" "o' \<in> set condition_ops"
    by (auto simp: js_eval)
  then show False by (cases u; cases "tl u") (auto simp: js_eval)
qed

lemma all_zero: "rx_all visualTierRe p (js '' : p * 0 + c * 0'') = []"
  by (simp add: js_eval all_skip all_end visual_not visual_not_product)

lemma part_neq_Nil: "part t \<noteq> []"
  by (simp add: part_def tier_call_def js_eval)

lemma all_part:
  assumes "tier_ok t"
  shows "\<exists>m. m_caps m = part_caps t \<and> rx_all visualTierRe p (part t @ r) = m # rx_all visualTierRe (rev (part t) @ p) r"
  using part_read [OF assms] by (intro all_here part_neq_Nil) simp_all

lemma all_parts:
  assumes "list_all tier_ok ts" "ts \<noteq> []"
  shows "map m_caps (rx_all visualTierRe p (join (js '' : '') (map part ts))) = map part_caps ts"
  using assms
proof (induction ts arbitrary: p)
  case (Cons t ts)
  have t: "tier_ok t" using Cons.prems by simp
  show ?case
  proof (cases "ts = []")
    case True
    then show ?thesis using all_part [OF t, of p "[]"] all_end visual_not(2) by auto
  next
    case False
    let ?r = "join (js '' : '') (map part ts)"
    have "rx_all visualTierRe q (js '' : '' @ ?r) = rx_all visualTierRe (rev (js '' : '') @ q) ?r" for q
      by (simp add: js_eval all_skip visual_not)
    then show ?thesis
      using all_part [OF t, of p "js '' : '' @ ?r"] Cons.IH Cons.prems False by (auto simp: join_Cons)
  qed
qed simp

section \<open>Reading conditions back\<close>

lemma and_start: "rx_reads rx_and p s c v c' \<Longrightarrow> \<exists>u y. s = u @ 38 # y \<and> list_all is_ws u"
  unfolding rx_and_def by (auto simp: rx_eqs js_eval)

text \<open>A text that no separator starts in, even with what follows.\<close>

definition solid :: "jstring \<Rightarrow> bool" where
  "solid s \<longleftrightarrow> s = [] \<or> (38 \<notin> set s \<and> \<not> is_ws (last s))"

lemma solid_no_and:
  assumes "solid s" "s \<noteq> []"
  shows "\<not> rx_reads rx_and p (s @ r) c v c'"
proof
  assume "rx_reads rx_and p (s @ r) c v c'"
  then obtain u y where *: "s @ r = u @ 38 # y" "list_all is_ws u" using and_start by blast
  from *(1) consider k where "s = u @ 38 # k" | k where "u = s @ k"
    by (auto simp: append_eq_append_conv2) (metis append_Cons append_Nil2 list.exhaust list.inject)
  then show False using assms *(2) by cases (auto simp: solid_def list_all_iff)
qed

lemma solid_tl: "solid (x # s) \<Longrightarrow> solid s"
  by (auto simp: solid_def split: if_splits)

lemma search_solid: "solid s \<Longrightarrow> rx_search rx_and p (s @ r) = rx_search rx_and (rev s @ p) r"
proof (induction s arbitrary: p)
  case (Cons x s)
  have "rx_search rx_and p ((x # s) @ r) = rx_search rx_and (x # p) (s @ r)"
    using search_skip [of rx_and p x "s @ r"] solid_no_and [OF Cons.prems, of p r] by simp
  then show ?case using Cons solid_tl by simp
qed simp

lemma search_and:
  assumes "r = [] \<or> \<not> is_ws (hd r)"
  shows "rx_search rx_and p (js '' && '' @ r) = Some \<lparr>m_index = length p, m_text = js '' && '', m_caps = [],
    m_before = rev (js '' && '') @ p, m_rest = r\<rparr>"
proof -
  have t: "takeWhile is_ws (32 # r) = [32]" using assms by (cases r) auto
  have a: "takeWhile is_ws (32 # 38 # 38 # 32 # r) = [32]" by (simp add: is_ws_def)
  show ?thesis
    by (subst rx_search.simps)
      (simp add: rx_and_def rx_star_char start_at_def js_eval rx_str_def advance_def t a upt_rec del: rx.simps(5) upt_Suc takeWhile.simps)
qed

lemma search_and_none: "rx_search rx_and p [] = None"
  using and_start [of p "[]"] no_reads_Nil [of rx_and p "[]"] by (subst rx_search.simps) auto

lemma split_last: "solid s \<Longrightarrow> rx_split_from rx_and p s = [s]"
  using search_solid [of s p "[]"] search_and_none by (subst rx_split_from.simps) simp

lemma split_first:
  assumes "solid s" "r = [] \<or> \<not> is_ws (hd r)"
  shows "rx_split_from rx_and p (s @ js '' && '' @ r) = s # rx_split_from rx_and (rev (s @ js '' && '') @ p) r"
  using search_solid [OF assms(1), of p "js '' && '' @ r"] search_and [OF assms(2)]
  by (subst rx_split_from.simps) (simp add: js_eval)

lemma condition_text_solid:
  assumes "condition_ok c"
  shows "solid (condition_text c)" "condition_text c \<noteq> []" "\<not> is_ws (hd (condition_text c))" "trim (condition_text c) = condition_text c"
proof -
  obtain x o' d where *: "x \<in> set condition_vars" "o' \<in> set condition_ops" "list_all bound_unit (number_to_string d)"
    "number_to_string d \<noteq> []" "condition_text c = x @ 32 # o' @ 32 # number_to_string d"
    using assms by (elim condition_okE) auto
  have n: "38 \<notin> set (number_to_string d)" "\<not> is_ws (last (number_to_string d))"
    using *(3,4) bound_unit_not by (auto simp: list_all_iff)
  have x: "38 \<notin> set x" "x \<noteq> []" "\<not> is_ws (hd x)" using *(1) by (auto simp: js_eval ascii_not_ws)
  have o': "38 \<notin> set o'" using *(2) by (auto simp: js_eval)
  show s: "solid (condition_text c)" "condition_text c \<noteq> []" "\<not> is_ws (hd (condition_text c))"
    using x o' n *(4) by (simp_all add: *(5) solid_def)
  then show "trim (condition_text c) = condition_text c" by (simp add: solid_def trimmed_def)
qed

lemma split_conjunction:
  "list_all condition_ok cs \<Longrightarrow> cs \<noteq> [] \<Longrightarrow> rx_split_from rx_and p (conjunction cs) = map condition_text cs"
proof (induction cs arbitrary: p)
  case (Cons c cs)
  have c: "condition_ok c" using Cons.prems by simp
  show ?case
  proof (cases "cs = []")
    case True
    then show ?thesis using split_last [OF condition_text_solid(1) [OF c]] by simp
  next
    case False
    then obtain d ds where cs: "cs = d # ds" by (cases cs) auto
    have "\<not> is_ws (hd (conjunction cs))"
      using Cons.prems condition_text_solid(2,3) [of d] by (simp add: cs join_concat_Cons)
    then show ?thesis
      using split_first [OF condition_text_solid(1) [OF c], of "conjunction cs"] Cons False by (simp add: join_Cons)
  qed
qed simp

lemma CONDITION_REGEX_form: "CONDITION_REGEX = RxSeq RxStart (RxSeq (RxGroup 1 (rx_alt (map rx_str condition_vars)))
  (RxSeq (RxStar rx_space) (RxSeq (RxGroup 2 (rx_alt (map rx_str condition_ops))) (RxSeq (RxStar rx_space)
    (RxSeq (RxGroup 3 (rx_plus (RxChar bound_unit))) RxEnd)))))"
  unfolding CONDITION_REGEX_def by simp

lemma readings_CONDITION:
  "c \<in> readings CONDITION_REGEX e \<longleftrightarrow> (\<exists>x o' n u w. x \<in> set condition_vars \<and> o' \<in> set condition_ops \<and> n \<noteq> [] \<and>
     list_all bound_unit n \<and> e = x @ u @ o' @ w @ n \<and> list_all is_ws u \<and> list_all is_ws w \<and> c = [(1, x), (2, o'), (3, n)])"
  unfolding readings_def CONDITION_REGEX_form mem_Collect_eq reads_after_start reads_group_words reads_after_star_class
    reads_group_class reads_RxEnd Bex_def
  by (intro iffI; elim exE conjE; hypsubst?; intro exI conjI; (rule refl | assumption | simp))

lemma condition_unique:
  assumes "x @ 32 # o' @ 32 # n = x' @ u @ o2 @ w @ n'" "x \<in> set condition_vars" "x' \<in> set condition_vars"
    "o' \<in> set condition_ops" "o2 \<in> set condition_ops" "list_all is_ws u" "list_all is_ws w"
    "list_all bound_unit n" "list_all bound_unit n'" "n \<noteq> []" "n' \<noteq> []"
  shows "x' = x \<and> o2 = o' \<and> n' = n"
proof -
  have 1: "x' = x" "u @ o2 @ w @ n' = 32 # o' @ 32 # n" using assms(1-3) by (auto simp: js_eval)
  have h: "k \<noteq> [] \<and> \<not> is_ws (hd k)" if "k \<in> set condition_ops" for k using that by (auto simp: js_eval ascii_not_ws)
  have b: "k \<noteq> [] \<Longrightarrow> list_all bound_unit k \<Longrightarrow> \<not> is_ws (hd k)" for k using bound_unit_not by (cases k) auto
  have 2: "o2 @ w @ n' = o' @ 32 # n"
    using space_split [OF 1(2) assms(6)] h [OF assms(4)] h [OF assms(5)] by simp
  have e: "\<not> (w @ n' = 61 # k)" for k
    using assms(7,9,11) bound_unit_not by (cases w; cases n') (auto simp: is_ws_def)
  have 3: "o2 = o'" "w @ n' = 32 # n" using 2 assms(4,5) e by (auto simp: js_eval)
  have "n' = n" using space_split [OF 3(2) assms(7)] b assms(8-11) by simp
  then show ?thesis using 1 3 by simp
qed

lemma read_condition:
  assumes "condition_ok c"
  shows "\<exists>m. rx_exec CONDITION_REGEX (condition_text c) = Some m \<and>
    \<lparr>ti_var = cap_text m 1, ti_op = cap_text m 2, ti_value = NumberValue (Number_text (cap_text m 3))\<rparr> = c"
proof -
  obtain x o' d where c: "c = \<lparr>ti_var = x, ti_op = o', ti_value = NumberValue (Some d)\<rparr>"
    and x: "x \<in> set condition_vars" and o': "o' \<in> set condition_ops" and d: "dec_normal d"
    "list_all bound_unit (number_to_string d)" "number_to_string d \<noteq> []"
    and tx: "condition_text c = x @ 32 # o' @ 32 # number_to_string d"
    using assms by (elim condition_okE) auto
  have "readings CONDITION_REGEX (condition_text c) = {[(1, x), (2, o'), (3, number_to_string d)]}"
  proof (intro equalityI subsetI)
    fix r assume "r \<in> readings CONDITION_REGEX (condition_text c)"
    then obtain x' o2 n u w where *: "x' \<in> set condition_vars" "o2 \<in> set condition_ops" "n \<noteq> []" "list_all bound_unit n"
      "x @ 32 # o' @ 32 # number_to_string d = x' @ u @ o2 @ w @ n" "list_all is_ws u" "list_all is_ws w"
      "r = [(1, x'), (2, o2), (3, n)]"
      unfolding readings_CONDITION tx by blast
    show "r \<in> {[(1, x), (2, o'), (3, number_to_string d)]}"
      using condition_unique [OF *(5) x *(1) o' *(2) *(6,7) d(2) *(4) d(3) *(3)] *(8) by simp
  next
    fix r :: groups assume "r \<in> {[(1, x), (2, o'), (3, number_to_string d)]}"
    moreover have "condition_text c = x @ [32] @ o' @ [32] @ number_to_string d" "list_all is_ws [32]" by (simp_all add: tx)
    ultimately show "r \<in> readings CONDITION_REGEX (condition_text c)"
      unfolding readings_CONDITION using x o' d(2,3) by blast
  qed
  moreover have "anchored CONDITION_REGEX" by (simp add: anchored_def CONDITION_REGEX_form)
  ultimately obtain m where "rx_exec CONDITION_REGEX (condition_text c) = Some m" "m_caps m = [(1, x), (2, o'), (3, number_to_string d)]"
    using exec_single by blast
  then show ?thesis using Number_text_string [OF d(1)] by (auto simp: cap_text_in c)
qed

lemma read_conjunction:
  assumes "list_all condition_ok cs"
  shows "map input_of (read_conditions (conjunction cs)) = cs"
proof (cases "cs = []")
  case True
  then show ?thesis by (simp add: read_conditions_def)
next
  case False
  let ?f = "\<lambda>cp. map_option (\<lambda>cm. \<lparr>tc_var = cap_text cm 1, tc_op = cap_text cm 2, tc_value = Number_text (cap_text cm 3)\<rparr>)
    (rx_exec CONDITION_REGEX (trim cp))"
  have one: "\<exists>k. ?f (condition_text c) = Some k \<and> input_of k = c" if "condition_ok c" for c
    using read_condition [OF that] condition_text_solid(4) [OF that] by (auto simp: input_of_def)
  have "map input_of (List.map_filter ?f (map condition_text cs)) = cs" using assms
  proof (induction cs)
    case (Cons c cs)
    then show ?case using one [of c] by (auto simp: List.map_filter_simps)
  qed (simp add: List.map_filter_simps)
  moreover have "conjunction cs \<noteq> []" using conjunction_like [OF assms False] by (simp add: condition_like_def)
  ultimately show ?thesis using split_conjunction [OF assms False] by (simp add: read_conditions_def rx_split_def)
qed

section \<open>Reading a tier back\<close>

lemma extra_caps_other: "j \<notin> fst ` set es \<Longrightarrow> map_of (extra_caps c es) j = map_of c j"
  by (induction es arbitrary: c) (auto simp: update_conv)

lemma extra_caps_lookup:
  "distinct (map fst es) \<Longrightarrow> (i, x, d) \<in> set es \<Longrightarrow>
   map_of (extra_caps c es) i = (if fst d \<noteq> 0 then Some (number_to_string d) else map_of c i)"
proof (induction es arbitrary: c)
  case (Cons e es)
  obtain j y k where e: "e = (j, y, k)" by (cases e)
  show ?case
  proof (cases "(i, x, d) = e")
    case True
    then have "i \<notin> fst ` set es" using Cons.prems e by auto
    then show ?thesis using True extra_caps_other by (auto simp: e update_conv)
  next
    case False
    then have "(i, x, d) \<in> set es" "i \<noteq> j" using Cons.prems by (auto simp: e rev_image_eqI)
    then show ?thesis using Cons by (auto simp: e update_conv)
  qed
qed simp

lemma tier_extras_fst: "map fst (tier_extras k t) = [k..<k + 7]"
proof -
  have "length BILLING_CACHE_VAR_MAP = 7" using arg_cong [OF cache_vars, of length] by simp
  moreover have "map fst (tier_extras k t) = map fst (enumerate k BILLING_CACHE_VAR_MAP)"
    by (simp add: tier_extras_def case_prod_beta' comp_def del: map_fst_enumerate)
  ultimately show ?thesis by simp
qed

lemma body_caps_lookup:
  assumes "k > 0" "\<forall>i \<ge> k. map_of c i = None"
  shows "map_of (body_caps k t c) k = Some (number_to_string (or_zero (vt_input_unit_cost t)))"
    "map_of (body_caps k t c) (k + 1) = Some (number_to_string (or_zero (vt_output_unit_cost t)))"
    "j < k \<Longrightarrow> map_of (body_caps k t c) j = map_of c j"
    "(i, cv) \<in> set (enumerate (k + 2) BILLING_CACHE_VAR_MAP) \<Longrightarrow> map_of (body_caps k t c) i =
      (let v = or_zero (cost (partial_of_tier t) (cv_field cv)) in if fst v \<noteq> 0 then Some (number_to_string v) else None)"
proof -
  have s: "set (map fst (tier_extras (k + 2) t)) = {k + 2..<k + 9}" unfolding tier_extras_fst by auto
  define es where "es = tier_extras (k + 2) t"
  have f: "fst ` set es = {k + 2..<k + 9}" using s by (simp add: es_def)
  have other: "j < k + 2 \<Longrightarrow> map_of (extra_caps c es) j = map_of c j" for j c using extra_caps_other f by simp
  show "map_of (body_caps k t c) k = Some (number_to_string (or_zero (vt_input_unit_cost t)))"
    "map_of (body_caps k t c) (k + 1) = Some (number_to_string (or_zero (vt_output_unit_cost t)))"
    "j < k \<Longrightarrow> map_of (body_caps k t c) j = map_of c j"
    unfolding body_caps_def es_def [symmetric] by (simp_all add: other update_conv)
  assume i: "(i, cv) \<in> set (enumerate (k + 2) BILLING_CACHE_VAR_MAP)"
  then have m: "(i, cv_exprVar cv, or_zero (cost (partial_of_tier t) (cv_field cv))) \<in> set (tier_extras (k + 2) t)"
    by (force simp: tier_extras_def)
  have "i \<ge> k + 2" using i by (auto simp: in_set_enumerate_eq)
  moreover have "distinct (map fst (tier_extras (k + 2) t))" unfolding tier_extras_fst by simp
  ultimately show "map_of (body_caps k t c) i =
      (let v = or_zero (cost (partial_of_tier t) (cv_field cv)) in if fst v \<noteq> 0 then Some (number_to_string v) else None)"
    using extra_caps_lookup [OF _ m] assms(2) by (simp add: body_caps_def update_conv Let_def)
qed

lemma map_of_map_filter:
  assumes "distinct (map g xs)" "y \<in> set xs"
  shows "map_of (List.map_filter (\<lambda>x. map_option (\<lambda>v. (g x, h v)) (f x)) xs) (g y) = map_option h (f y)"
  using assms
proof (induction xs)
  case (Cons x xs)
  have none: "map_of (List.map_filter (\<lambda>x. map_option (\<lambda>v. (g x, h v)) (f x)) xs) (g y) = None" if "g y \<notin> g ` set xs"
    using that by (induction xs) (auto simp: List.map_filter_simps split: option.split)
  show ?case
  proof (cases "y = x")
    case True
    then show ?thesis using Cons none by (auto simp: List.map_filter_simps split: option.split)
  next
    case False
    then have "g y \<noteq> g x" using Cons.prems by (metis distinct.simps(2) image_eqI list.set_map list.simps(9) set_ConsD)
    then show ?thesis using Cons False by (auto simp: List.map_filter_simps split: option.split)
  qed
qed simp

lemma cache_fields:
  "map cv_field BILLING_CACHE_VAR_MAP = map js [''cache_read_unit_cost'', ''cache_create_unit_cost'', ''cache_create_1h_unit_cost'',
     ''image_unit_cost'', ''image_output_unit_cost'', ''audio_input_unit_cost'', ''audio_output_unit_cost'']"
  by (simp add: BILLING_CACHE_VAR_MAP_def BILLING_EXTRA_VARS_def BILLING_VARS_def)

lemma price_or_zero: "price_ok n \<Longrightarrow> Some (or_zero n) = n"
  by (auto simp: price_ok_def or_zero_def dec_normal_def prod_eq_iff split: option.splits)

lemma tier_prices:
  assumes "tier_ok t" "f \<in> fst ` set (pt_costs (partial_of_tier t))"
  shows "price_ok (cost (partial_of_tier t) f)"
proof -
  obtain n where n: "map_of (pt_costs (partial_of_tier t)) f = Some n"
    using assms(2) by (metis map_of_eq_None_iff not_None_eq)
  then have "(f, n) \<in> set (pt_costs (partial_of_tier t))" by (rule map_of_SomeD)
  then show ?thesis using assms(1) n by (force simp: tier_ok_def list_all_iff cost_def)
qed

text \<open>The prices that a match holds.\<close>

definition holds_tier :: "nat \<Rightarrow> rx_match \<Rightarrow> visual_tier \<Rightarrow> bool" where
  "holds_tier k m t \<longleftrightarrow>
     cap m (k - 1) = Some (vt_label t) \<and>
     cap m k = Some (number_to_string (or_zero (vt_input_unit_cost t))) \<and>
     cap m (k + 1) = Some (number_to_string (or_zero (vt_output_unit_cost t))) \<and>
     (\<forall>(i, cv) \<in> set (enumerate (k + 2) BILLING_CACHE_VAR_MAP). cap m i =
       (let v = or_zero (cost (partial_of_tier t) (cv_field cv)) in if fst v \<noteq> 0 then Some (number_to_string v) else None))"

lemma caps_hold:
  assumes "m_caps m = body_caps (Suc k) t (AList.update k (vt_label t) c)" "\<forall>i \<ge> k. map_of c i = None"
  shows "holds_tier (Suc k) m t"
proof -
  have "\<forall>i \<ge> Suc k. map_of (AList.update k (vt_label t) c) i = None" using assms(2) by (simp add: update_conv)
  note L = body_caps_lookup [OF zero_less_Suc this, where t = t]
  have "cap m k = Some (vt_label t)" using L(3) [where j = k] by (simp add: cap_def assms(1) update_conv)
  then show ?thesis
    unfolding holds_tier_def using L(1,2,4) by (auto simp: cap_def assms(1))
qed

lemma extra_back:
  assumes "tier_ok t" "holds_tier k m t" "f \<in> set (map cv_field BILLING_CACHE_VAR_MAP)"
  shows "cost_or_zero (tier_of_match k m cs) f = cost (partial_of_tier t) f"
proof -
  obtain i cv where cv: "(i, cv) \<in> set (enumerate (k + 2) BILLING_CACHE_VAR_MAP)" "f = cv_field cv"
    using assms(3) by (metis (no_types, lifting) imageE list.set_map map_snd_enumerate prod.collapse)
  have fs: "distinct (map (\<lambda>x. cv_field (snd x)) (enumerate (k + 2) BILLING_CACHE_VAR_MAP))"
    using cache_fields by (simp add: map_map [symmetric, of cv_field snd, unfolded comp_def] js_eval del: map_map)
  have ne: "f \<noteq> js ''input_unit_cost''" "f \<noteq> js ''output_unit_cost''"
    using assms(3) unfolding cache_fields by (auto simp: js_eval)
  let ?d = "or_zero (cost (partial_of_tier t) f)"
  have "f \<in> fst ` set (pt_costs (partial_of_tier t))" using assms(3) unfolding cache_fields by (auto simp: partial_of_tier_def)
  then have ok: "price_ok (cost (partial_of_tier t) f)" by (rule tier_prices [OF assms(1)])
  then have d: "cost (partial_of_tier t) f = Some ?d" "dec_normal ?d"
    using price_or_zero [OF ok] by (auto simp: price_ok_def split: option.splits)
  have "map_of (pt_costs (tier_of_match k m cs)) f = map_option Number_text (cap m i)"
    using map_of_map_filter [OF fs cv(1), of Number_text "\<lambda>x. cap m (fst x)"] ne
    by (simp add: tier_of_match_def case_prod_beta' cv(2))
  moreover have "cap m i = (if fst ?d \<noteq> 0 then Some (number_to_string ?d) else None)"
    using assms(2) cv by (auto simp: holds_tier_def Let_def)
  moreover have "fst ?d = 0 \<Longrightarrow> ?d = (0, 0)" using d(2) by (auto simp: dec_normal_def prod_eq_iff)
  ultimately show ?thesis
    using d Number_text_string [OF d(2)] by (auto simp: cost_or_zero_def cost_def or_zero_def)
qed

lemma tier_back:
  assumes "tier_ok t" "holds_tier k m t"
  shows "normalizeVisualTier (tier_of_match k m (vt_conditions t)) = t"
proof -
  have base: "price_ok (vt_input_unit_cost t)" "price_ok (vt_output_unit_cost t)"
    using assms(1) by (simp_all add: tier_ok_def partial_of_tier_def)
  have num: "price_ok n \<Longrightarrow> Number_text (number_to_string (or_zero n)) = n" for n
    using price_or_zero [of n] Number_text_string [of "or_zero n"] by (auto simp: price_ok_def split: option.splits)
  let ?p = "tier_of_match k m (vt_conditions t)"
  have extra: "cost_or_zero ?p f = cost (partial_of_tier t) f" if "f \<in> set (map cv_field BILLING_CACHE_VAR_MAP)" for f
    using extra_back [OF assms that] .
  note E = extra [unfolded cache_fields]
  have cs: "cost (partial_of_tier t) (js ''cache_read_unit_cost'') = vt_cache_read_unit_cost t"
    "cost (partial_of_tier t) (js ''cache_create_unit_cost'') = vt_cache_create_unit_cost t"
    "cost (partial_of_tier t) (js ''cache_create_1h_unit_cost'') = vt_cache_create_1h_unit_cost t"
    "cost (partial_of_tier t) (js ''image_unit_cost'') = vt_image_unit_cost t"
    "cost (partial_of_tier t) (js ''image_output_unit_cost'') = vt_image_output_unit_cost t"
    "cost (partial_of_tier t) (js ''audio_input_unit_cost'') = vt_audio_input_unit_cost t"
    "cost (partial_of_tier t) (js ''audio_output_unit_cost'') = vt_audio_output_unit_cost t"
    by (simp_all add: cost_def partial_of_tier_def js_eval)
  have pos: "positive (cost ?p (js ''cache_create_1h_unit_cost'')) = positive (vt_cache_create_1h_unit_cost t)"
  proof -
    have "positive (Some (or_zero n)) = positive n" for n by (auto simp: positive_def or_zero_def split: option.splits)
    moreover have "Some (or_zero (cost ?p (js ''cache_create_1h_unit_cost''))) = vt_cache_create_1h_unit_cost t"
      using E [of "js ''cache_create_1h_unit_cost''"] by (simp add: cs(3) cost_or_zero_def)
    ultimately show ?thesis by metis
  qed
  have mode: "getTierCacheMode ?p = vt_cache_mode t"
    using assms(1) pos by (simp add: getTierCacheMode_def tier_of_match_def tier_ok_def)
  have lab: "pt_label' ?p = Some (vt_label t)" "pt_conditions' ?p = Some (vt_conditions t)" "pt_cache_mode' ?p = None"
    "map_of (pt_costs ?p) (js ''input_unit_cost'') = Some (vt_input_unit_cost t)"
    "map_of (pt_costs ?p) (js ''output_unit_cost'') = Some (vt_output_unit_cost t)"
    using assms(2) num base by (auto simp: tier_of_match_def holds_tier_def cap_text_def js_eval)
  show ?thesis
    unfolding normalizeVisualTier_def lab mode option.case using E cs by simp
qed

lemma tier_normal:
  assumes "tier_ok t"
  shows "normalizeVisualTier (partial_of_tier t) = t"
proof -
  have *: "list_all price_ok (map snd (pt_costs (partial_of_tier t)))" using assms by (simp add: tier_ok_def)
  show ?thesis
    using * by (simp add: normalizeVisualTier_def cost_or_zero_def cost_def partial_of_tier_def js_eval price_or_zero)
qed

section \<open>The round trip\<close>

text \<open>A configuration whose last tier, when there are others, is the one for everything else.\<close>

definition config_ok :: "visual_config \<Rightarrow> bool" where
  "config_ok cfg \<longleftrightarrow> vc_tiers cfg \<noteq> [] \<and> list_all tier_ok (vc_tiers cfg) \<and>
     (length (vc_tiers cfg) = 1 \<or> vt_conditions (last (vc_tiers cfg)) = [])"

lemma part_conditions:
  assumes "tier_ok t"
  shows "(if buildConditionStr (vt_conditions t) \<noteq> [] then buildConditionStr (vt_conditions t) @ js '' ? '' @ tier_call (vt_label t) t
    else tier_call (vt_label t) t) = part t"
    "buildConditionStr (vt_conditions t) = [] \<longleftrightarrow> vt_conditions t = []"
proof -
  have cs: "list_all condition_ok (vt_conditions t)" using assms by (simp add: tier_ok_def)
  show b: "buildConditionStr (vt_conditions t) = [] \<longleftrightarrow> vt_conditions t = []"
    using conjunction_like [OF cs] build_conditions [OF cs] by (auto simp: condition_like_def)
  show "(if buildConditionStr (vt_conditions t) \<noteq> [] then buildConditionStr (vt_conditions t) @ js '' ? '' @ tier_call (vt_label t) t
    else tier_call (vt_label t) t) = part t"
    using b build_conditions [OF cs] by (auto simp: part_def)
qed

lemma label_kept: "tier_ok t \<Longrightarrow> label_or (vt_label t) d = vt_label t"
  by (simp add: label_or_def tier_ok_def)

lemma tier_part_text:
  assumes "tier_ok t" "i + 1 < n \<or> vt_conditions t = []"
  shows "tier_part n i t = part t"
  using part_conditions [OF assms(1)] assms by (auto simp: tier_part_def Let_def label_kept)

lemma generate_one:
  assumes "tier_ok t"
  shows "generateExprFromVisualConfig (Some \<lparr>vc_tiers = [t]\<rparr>) =
    part t @ (if vt_conditions t = [] then [] else js '' : p * 0 + c * 0'')"
  using part_conditions [OF assms] by (auto simp: generateExprFromVisualConfig_def Let_def label_kept [OF assms])

lemma generate_many:
  assumes "list_all tier_ok ts" "length ts > 1" "vt_conditions (last ts) = []"
  shows "generateExprFromVisualConfig (Some \<lparr>vc_tiers = ts\<rparr>) = join (js '' : '') (map part ts)"
proof -
  obtain a b xs where ts: "ts = a # b # xs" using assms(2) by (cases ts; cases "tl ts") auto
  have "map (\<lambda>(i, t). tier_part (length ts) i t) (enumerate 0 ts) = map part ts"
  proof (rule nth_equalityI)
    fix i assume "i < length (map (\<lambda>(i, t). tier_part (length ts) i t) (enumerate 0 ts))"
    then have i: "i < length ts" by simp
    have "vt_conditions (ts ! i) = []" if "\<not> i + 1 < length ts"
    proof -
      have "i = length ts - 1" using that i by simp
      then have "ts ! i = last ts" using i by (metis last_conv_nth length_0_conv not_less0)
      then show ?thesis using assms(3) by simp
    qed
    then have "i + 1 < length ts \<or> vt_conditions (ts ! i) = []" by blast
    then show "map (\<lambda>(i, t). tier_part (length ts) i t) (enumerate 0 ts) ! i = map part ts ! i"
      using i assms(1) by (simp add: nth_enumerate_eq tier_part_text list_all_length)
  qed simp
  then show ?thesis by (simp add: generateExprFromVisualConfig_def ts)
qed

text \<open>No version is read from a generated text.\<close>

lemma part_start: "tier_ok t \<Longrightarrow> \<exists>x \<in> {112, 99, 108, 116}. \<exists>y. part t @ r = x # y"
  using conjunction_start [of "vt_conditions t"] tier_call_start [of "vt_label t" t r]
  by (cases "vt_conditions t = []") (auto simp: part_def tier_ok_def)

lemma no_version: "x \<noteq> 118 \<Longrightarrow> rx_exec versionBodyRe (x # y) = None"
  by (subst exec_None_readings) (auto simp: versionBodyRe_def anchored_def readings_def rx_eqs js_eval)

lemma singleRe_call: "singleRe = RxSeq RxStart (rx_call 1 [RxEnd])"
proof -
  have "(1 :: nat) + 1 = 2" by simp
  then show ?thesis
    unfolding singleRe_def rx_call_def bodyPat_def append_assoc append_Cons append_Nil
    by (simp only:) (simp add: rx_seq_Cons js_eval rx_not_in_def)
qed

lemma single_readings:
  "readings singleRe e = {c. \<exists>v. rx_reads (rx_call 1 [RxEnd]) [] e [] v c}" "anchored singleRe"
  by (simp_all add: singleRe_call readings_def reads_after_start anchored_def)

lemma single_match:
  assumes "tier_ok t" "vt_conditions t = []"
  obtains m where "rx_exec singleRe (part t) = Some m" "holds_tier 2 m t"
proof -
  have l: "34 \<notin> set (vt_label t)" using assms(1) by (simp add: tier_ok_def)
  have "readings singleRe (part t) = {body_caps (1 + 1) t (AList.update 1 (vt_label t) [])}"
    using call_read [OF l, of 1 "[RxEnd]" "[]" t "[]" "[]"] assms(2) by (auto simp: single_readings(1) part_def rx_eqs)
  from exec_single [OF single_readings(2) this] show thesis
    using that caps_hold [of _ 1 t "[]", unfolded Suc_1] by (auto simp: numeral_2_eq_2 [symmetric])
qed

lemma no_single:
  assumes "tier_ok t" "vt_conditions t \<noteq> [] \<or> r \<noteq> []"
  shows "rx_exec singleRe (part t @ r) = None"
proof -
  have l: "34 \<notin> set (vt_label t)" using assms(1) by (simp add: tier_ok_def)
  have "\<not> rx_reads (rx_call 1 [RxEnd]) [] (part t @ r) [] v c" for v c
  proof (cases "vt_conditions t = []")
    case True
    then show ?thesis
      using call_read [OF l, of 1 "[RxEnd]" "[]" t r "[]" v c] assms(2) by (auto simp: part_def rx_eqs)
  next
    case False
    have "list_all condition_ok (vt_conditions t)" using assms(1) by (simp add: tier_ok_def)
    from conjunction_start [OF this False] False show ?thesis by (auto simp: part_def dest!: call_start)
  qed
  then show ?thesis unfolding exec_None_readings [OF single_readings(2)] single_readings(1) by blast
qed

lemma match_back:
  assumes "tier_ok t" "m_caps m = part_caps t"
  shows "normalizeVisualTier (tier_of_match 3 m (map input_of (read_conditions (cap_text m 1)))) = t"
proof -
  let ?c = "if vt_conditions t = [] then [] else [(1 :: nat, conjunction (vt_conditions t))]"
  have m: "m_caps m = body_caps (Suc 2) t (AList.update 2 (vt_label t) ?c)" using assms(2) by (simp add: part_caps_def)
  have h: "holds_tier 3 m t" using caps_hold [OF m] by simp
  have "map_of (body_caps 3 t (AList.update 2 (vt_label t) ?c)) 1 = map_of (AList.update 2 (vt_label t) ?c) 1"
    by (intro body_caps_lookup(3)) (auto simp: update_conv)
  then have "cap_text m 1 = conjunction (vt_conditions t)"
    by (simp add: cap_text_def cap_def m update_conv)
  then show ?thesis
    using tier_back [OF assms(1) h] read_conjunction [of "vt_conditions t"] assms(1) by (simp add: tier_ok_def)
qed

lemma matches_back:
  assumes "list_all tier_ok ts" "map m_caps ms = map part_caps ts"
  shows "map (\<lambda>m. normalizeVisualTier (tier_of_match 3 m (map input_of (read_conditions (cap_text m 1))))) ms = ts"
proof (rule nth_equalityI)
  show l: "length (map (\<lambda>m. normalizeVisualTier (tier_of_match 3 m (map input_of (read_conditions (cap_text m 1))))) ms) = length ts"
    using arg_cong [OF assms(2), of length] by simp
  fix i assume "i < length (map (\<lambda>m. normalizeVisualTier (tier_of_match 3 m (map input_of (read_conditions (cap_text m 1))))) ms)"
  then have i: "i < length ms" "i < length ts" using l by simp_all
  have "m_caps (ms ! i) = part_caps (ts ! i)" using arg_cong [OF assms(2), of "\<lambda>xs. xs ! i"] i by simp
  then show "map (\<lambda>m. normalizeVisualTier (tier_of_match 3 m (map input_of (read_conditions (cap_text m 1))))) ms ! i = ts ! i"
    using match_back assms(1) i by (simp add: list_all_length)
qed

lemma config_normal: "list_all tier_ok ts \<Longrightarrow> ts \<noteq> [] \<Longrightarrow> normalizeVisualConfig (Some \<lparr>vc_tiers = ts\<rparr>) = \<lparr>vc_tiers = ts\<rparr>"
  by (auto simp: normalizeVisualConfig_def list_all_iff tier_normal intro: map_idI)

text \<open>From the parts that the expression is made of to the configuration.\<close>

lemma parse_parts:
  assumes "list_all tier_ok ts" "ts \<noteq> []" "generateExprFromVisualConfig (Some \<lparr>vc_tiers = ts\<rparr>) = part (hd ts) @ r"
    "vt_conditions (hd ts) \<noteq> [] \<or> r \<noteq> []" "map m_caps (matchAll visualTierRe (part (hd ts) @ r)) = map part_caps ts"
  shows "tryParseVisualConfig (Some (generateExprFromVisualConfig (Some \<lparr>vc_tiers = ts\<rparr>))) = Some \<lparr>vc_tiers = ts\<rparr>"
proof -
  have t: "tier_ok (hd ts)" using assms(1,2) by (cases ts) auto
  obtain x y where xy: "part (hd ts) @ r = x # y" "x \<noteq> 118" using part_start [OF t, of r] by auto
  have v: "rx_exec versionBodyRe (part (hd ts) @ r) = None" "part (hd ts) @ r \<noteq> []" using no_version xy by simp_all
  have "map (\<lambda>m. normalizeVisualTier (tier_of_match 3 m (map input_of (read_conditions (cap_text m 1)))))
      (matchAll visualTierRe (part (hd ts) @ r)) = ts"
    by (rule matches_back [OF assms(1,5)])
  then show ?thesis
    unfolding assms(3) tryParseVisualConfig_def
    using v no_single [OF t assms(4)] config_normal [OF assms(1,2)] assms(2,3) by (simp add: Let_def)
qed

lemma parse_generate:
  assumes "config_ok cfg"
  shows "tryParseVisualConfig (Some (generateExprFromVisualConfig (Some cfg))) = Some cfg"
proof -
  obtain ts where cfg: "cfg = \<lparr>vc_tiers = ts\<rparr>" by (cases cfg)
  have ok: "list_all tier_ok ts" "ts \<noteq> []" "length ts = 1 \<or> vt_conditions (last ts) = []"
    using assms by (simp_all add: cfg config_ok_def)
  consider t where "ts = [t]" "vt_conditions t = []" | t where "ts = [t]" "vt_conditions t \<noteq> []" | "length ts > 1"
    using ok(2) by (cases ts; cases "tl ts") auto
  then show ?thesis
  proof cases
    case 1
    have t: "tier_ok t" using ok(1) 1 by simp
    obtain m where m: "rx_exec singleRe (part t) = Some m" "holds_tier 2 m t" using single_match [OF t 1(2)] .
    obtain x y where xy: "part t = x # y" "x \<noteq> 118" using part_start [OF t, of "[]"] by auto
    show ?thesis
      using m(1) tier_back [OF t m(2)] no_version [OF xy(2), of y] generate_one [OF t] config_normal [OF ok(1,2)] 1 xy(1)
      by (simp add: cfg tryParseVisualConfig_def)
  next
    case 2
    have t: "tier_ok t" using ok(1) 2 by simp
    have "map m_caps (matchAll visualTierRe (part t @ js '' : p * 0 + c * 0'')) = [part_caps t]"
      using all_part [OF t, of "[]" "js '' : p * 0 + c * 0''"] all_zero by (auto simp: matchAll_def)
    then show ?thesis
      unfolding cfg using generate_one [OF t] 2 by (intro parse_parts [OF ok(1,2)]) simp_all
  next
    case 3
    then obtain t u us where ts: "ts = t # u # us" by (cases ts; cases "tl ts") auto
    let ?r = "js '' : '' @ join (js '' : '') (map part (u # us))"
    have j: "join (js '' : '') (map part ts) = part (hd ts) @ ?r" by (simp add: ts)
    have "generateExprFromVisualConfig (Some \<lparr>vc_tiers = ts\<rparr>) = part (hd ts) @ ?r"
      using generate_many [OF ok(1) 3] ok(3) 3 j by simp
    moreover have "map m_caps (matchAll visualTierRe (part (hd ts) @ ?r)) = map part_caps ts"
      unfolding matchAll_def j [symmetric] by (rule all_parts [OF ok(1,2)])
    ultimately show ?thesis unfolding cfg by (intro parse_parts [OF ok(1,2)]) (simp_all add: js_eval)
  qed
qed

section \<open>What an expression keeps of a configuration\<close>

text \<open>
  The editor shows more than an expression holds: a tier without a label is printed with a default label, the
  conditions of the last of several tiers are not printed, and the cache mode is found from the prices.
  \<open>canonical\<close> is what is left.
\<close>

definition canonical_tier :: "nat \<Rightarrow> nat \<Rightarrow> visual_tier \<Rightarrow> visual_tier" where
  "canonical_tier n i t = t\<lparr>
     vt_label := label_or (vt_label t) (if n = 1 then js ''default'' else js ''tier_'' @ nat_str (i + 1)),
     vt_conditions := (if n = 1 \<or> i + 1 < n then vt_conditions t else []),
     vt_cache_mode := (if positive (vt_cache_create_1h_unit_cost t) then CACHE_MODE_TIMED else CACHE_MODE_GENERIC)\<rparr>"

definition canonical :: "visual_config \<Rightarrow> visual_config" where
  "canonical cfg = \<lparr>vc_tiers = map (\<lambda>(i, t). canonical_tier (length (vc_tiers cfg)) i t) (enumerate 0 (vc_tiers cfg))\<rparr>"

definition visual_tier_ok :: "visual_tier \<Rightarrow> bool" where
  "visual_tier_ok t \<longleftrightarrow> 34 \<notin> set (vt_label t) \<and> list_all condition_ok (vt_conditions t) \<and>
     list_all price_ok (map snd (pt_costs (partial_of_tier t)))"

definition visual_ok :: "visual_config \<Rightarrow> bool" where
  "visual_ok cfg \<longleftrightarrow> vc_tiers cfg \<noteq> [] \<and> list_all visual_tier_ok (vc_tiers cfg)"

lemma canonical_costs: "pt_costs (partial_of_tier (canonical_tier n i t)) = pt_costs (partial_of_tier t)"
  by (simp add: canonical_tier_def partial_of_tier_def)

lemma canonical_tier_ok: "visual_tier_ok t \<Longrightarrow> tier_ok (canonical_tier n i t)"
proof -
  assume t: "visual_tier_ok t"
  have "34 \<notin> set (nat_str k)" for k using nat_str_digits [of k] by (auto simp: is_digit_def)
  then have "34 \<notin> set (label_or (vt_label t) (if n = 1 then js ''default'' else js ''tier_'' @ nat_str (i + 1)))"
    using t by (auto simp: label_or_def visual_tier_ok_def js_eval)
  moreover have "label_or (vt_label t) (if n = 1 then js ''default'' else js ''tier_'' @ nat_str (i + 1)) \<noteq> []"
    by (auto simp: label_or_def js_eval)
  ultimately show ?thesis
    using t unfolding tier_ok_def canonical_costs visual_tier_ok_def by (simp add: canonical_tier_def)
qed

lemma canonical_ok:
  assumes "visual_ok cfg"
  shows "config_ok (canonical cfg)"
proof -
  let ?ts = "vc_tiers cfg"
  have "list_all tier_ok (vc_tiers (canonical cfg))"
    using assms canonical_tier_ok by (auto simp: canonical_def visual_ok_def list_all_length nth_enumerate_eq)
  moreover have "vt_conditions (last (vc_tiers (canonical cfg))) = []" if "length ?ts \<noteq> 1"
  proof -
    have ne: "?ts \<noteq> []" using assms by (simp add: visual_ok_def)
    then have "last (vc_tiers (canonical cfg)) = canonical_tier (length ?ts) (length ?ts - 1) (last ?ts)"
      by (simp add: canonical_def last_map last_conv_nth nth_enumerate_eq enumerate_eq_zip)
    then show ?thesis using ne that by (simp add: canonical_tier_def)
  qed
  moreover have "length (vc_tiers (canonical cfg)) = length ?ts" by (simp add: canonical_def)
  ultimately show ?thesis using assms by (auto simp: config_ok_def visual_ok_def simp flip: length_greater_0_conv)
qed

lemma canonical_body: "buildTierBodyExpr (canonical_tier n i t) = buildTierBodyExpr t"
  by (simp add: buildTierBodyExpr_def cost_def canonical_costs Let_def) (simp add: canonical_tier_def)

lemma canonical_call:
  "tier_call (label_or (vt_label (canonical_tier n i t)) d) (canonical_tier n i t) =
   tier_call (label_or (vt_label t) (if n = 1 then js ''default'' else js ''tier_'' @ nat_str (i + 1))) t"
proof -
  have "label_or (vt_label (canonical_tier n i t)) d = label_or (vt_label t) (if n = 1 then js ''default'' else js ''tier_'' @ nat_str (i + 1))"
    by (auto simp: canonical_tier_def label_or_def js_eval)
  then show ?thesis by (simp add: tier_call_def canonical_body)
qed

lemma canonical_part: "n \<noteq> 1 \<Longrightarrow> tier_part n i (canonical_tier n i t) = tier_part n i t"
  unfolding tier_part_def canonical_call by (simp add: Let_def) (simp add: canonical_tier_def)

lemma generate_canonical: "generateExprFromVisualConfig (Some (canonical cfg)) = generateExprFromVisualConfig (Some cfg)"
proof -
  obtain ts where cfg: "cfg = \<lparr>vc_tiers = ts\<rparr>" by (cases cfg)
  consider "ts = []" | t where "ts = [t]" | "length ts > 1" by (cases ts; cases "tl ts") auto
  then show ?thesis
  proof cases
    case 1
    then show ?thesis by (simp add: cfg canonical_def)
  next
    case 2
    have "vt_conditions (canonical_tier 1 0 t) = vt_conditions t" by (simp add: canonical_tier_def)
    then show ?thesis
      using canonical_call [of 1 0 t "js ''default''"] by (simp add: cfg canonical_def 2 generateExprFromVisualConfig_def Let_def)
  next
    case 3
    then obtain a b xs where ts: "ts = a # b # xs" by (cases ts; cases "tl ts") auto
    let ?cs = "map (\<lambda>(i, t). canonical_tier (length ts) i t) (enumerate 0 ts)"
    have many: "generateExprFromVisualConfig (Some \<lparr>vc_tiers = us\<rparr>) =
        join (js '' : '') (map (\<lambda>(i, t). tier_part (length us) i t) (enumerate 0 us))" if "length us = length ts" for us
      using that by (cases us; cases "tl us") (auto simp: ts generateExprFromVisualConfig_def)
    have "map (\<lambda>(i, t). tier_part (length ts) i t) (enumerate 0 ?cs) = map (\<lambda>(i, t). tier_part (length ts) i t) (enumerate 0 ts)"
      by (rule nth_equalityI) (use 3 in \<open>auto simp: nth_enumerate_eq canonical_part\<close>)
    then show ?thesis using many [of ?cs] many [of ts] by (simp add: cfg canonical_def)
  qed
qed

lemma parse_canonical:
  assumes "visual_ok cfg"
  shows "tryParseVisualConfig (Some (generateExprFromVisualConfig (Some cfg))) = Some (canonical cfg)"
  using parse_generate [OF canonical_ok [OF assms]] by (simp add: generate_canonical)

lemma config_visual_ok: "config_ok cfg \<Longrightarrow> visual_ok cfg"
  by (auto simp: config_ok_def visual_ok_def list_all_iff tier_ok_def visual_tier_ok_def)

interpretation config_text: printed_form visual_ok "\<lambda>cfg. generateExprFromVisualConfig (Some cfg)"
  "\<lambda>s. tryParseVisualConfig (Some s)" Some canonical
  by unfold_locales (simp_all add: parse_canonical generate_canonical config_visual_ok canonical_ok)

lemma canonical_fixed:
  assumes "config_ok cfg"
  shows "canonical cfg = cfg"
proof -
  let ?ts = "vc_tiers cfg" and ?n = "length (vc_tiers cfg)"
  have "canonical_tier ?n i (?ts ! i) = ?ts ! i" if i: "i < ?n" for i
  proof -
    have t: "tier_ok (?ts ! i)" using assms i by (simp add: config_ok_def list_all_length)
    have "vt_conditions (?ts ! i) = []" if "?n \<noteq> 1" "\<not> i + 1 < ?n"
    proof -
      have "?ts ! i = last ?ts" using that i by (metis Suc_eq_plus1 Suc_lessI diff_Suc_1 last_conv_nth list.size(3) not_less_zero)
      then show ?thesis using assms that by (simp add: config_ok_def)
    qed
    then show ?thesis using t by (cases "?ts ! i") (auto simp: canonical_tier_def label_kept tier_ok_def label_or_def)
  qed
  then have "map (\<lambda>(i, t). canonical_tier ?n i t) (enumerate 0 ?ts) = ?ts"
    by (intro nth_equalityI) (simp_all add: nth_enumerate_eq)
  then show ?thesis by (cases cfg) (simp add: canonical_def)
qed

section \<open>The property\<close>

text \<open>
  C7: What the visual editor prints it reads back. For a configuration with labels without quotes, conditions on \<open>p\<close>, \<open>c\<close> and
  \<open>len\<close> with the four comparisons and bounds that print with digits, point, \<open>e\<close> and plus only, and prices that are numbers,
  \<open>tryParseVisualConfig\<close> of \<open>generateExprFromVisualConfig\<close> is the canonical form of the configuration. The configuration is its own
  canonical form when every tier has a name, the last of several tiers has no condition and every tier has the cache mode its
  prices stand for.
\<close>

theorem visual_config_roundtrip:
  assumes "visual_ok cfg"
  shows "tryParseVisualConfig (Some (generateExprFromVisualConfig (Some cfg))) = Some (canonical cfg) \<and>
    (config_ok cfg \<longrightarrow> canonical cfg = cfg)"
  using parse_canonical [OF assms] canonical_fixed by blast

definition sample_tier :: visual_tier where
  "sample_tier = \<lparr>vt_label = js ''short'',
     vt_conditions = [\<lparr>ti_var = js ''len'', ti_op = js ''<='', ti_value = NumberValue (Some (32, 3))\<rparr>],
     vt_input_unit_cost = Some (12, -1), vt_output_unit_cost = Some (6, 0), vt_cache_mode = CACHE_MODE_GENERIC,
     vt_cache_read_unit_cost = Some (24, -2), vt_cache_create_unit_cost = Some (0, 0), vt_cache_create_1h_unit_cost = Some (0, 0),
     vt_image_unit_cost = Some (0, 0), vt_image_output_unit_cost = Some (1, -7), vt_audio_input_unit_cost = Some (0, 0),
     vt_audio_output_unit_cost = Some (0, 0)\<rparr>"

definition sample_config :: visual_config where
  "sample_config = \<lparr>vc_tiers = [sample_tier, sample_tier\<lparr>vt_label := js ''long'', vt_conditions := []\<rparr>]\<rparr>"

lemma sample_config_ok: "visual_ok sample_config" "config_ok sample_config"
  by code_simp+

theorem visual_config_roundtrip_witness:
  "tryParseVisualConfig (Some (generateExprFromVisualConfig (Some sample_config))) = Some sample_config"
  using visual_config_roundtrip [OF sample_config_ok(1)] sample_config_ok(2) by simp

end
