(* ===== verification/Tier_Editor.thy ===== *)
theory Tier_Editor
  imports Tier_Rules
begin

text \<open>
  The editor of tiered prices: \<open>features/system-settings/models/tiered-pricing-editor.tsx\<close>. The handlers of the
  tier cards and of the list of tiers change a configuration; \<open>TieredPricingEditor\<close> keeps it beside the raw text
  and the groups of request rules, and four effects keep it in step with the two expressions that the
  sheet holds (\<open>model-pricing-sheet.tsx\<close> passes its \<open>setBillingExpr\<close> and \<open>setRequestRuleExpr\<close>).

  A render and its effects are one step \<open>commit\<close>: the effects run in the order of the source on the values of
  that render, and what they set is there in the next render. An exception of the readers is \<open>Inl\<close>.
\<close>

section \<open>Presets\<close>

record preset =
  pr_key :: jstring
  pr_label :: jstring
  pr_expr :: jstring
  pr_requestRules :: "request_rule_group list"

text \<open>A preset without request rules has none: the only use of them is \<open>preset.requestRules || []\<close>.\<close>

definition PRESET_GROUPS :: "(jstring \<times> preset list) list" where
  "PRESET_GROUPS =
    [
     (js ''Fixed price'',
      [
       \<lparr>pr_key = js ''flat'', pr_label = js ''Flat'',
        pr_expr = js ''tier(\"base\", p * 2 + c * 4)'',
        pr_requestRules = []\<rparr>,
       \<lparr>pr_key = js ''claude-opus'', pr_label = js ''Claude Opus 4.6'',
        pr_expr = js ''tier(\"base\", p * 5 + c * 25 + cr * 0.5 + cc * 6.25 + cc1h * 10)'',
        pr_requestRules = []\<rparr>,
       \<lparr>pr_key = js ''gpt-5.4'', pr_label = js ''GPT-5.4'',
        pr_expr = js ''len <= 272000 ? tier(\"standard\", p * 2.5 + c * 15 + cr * 0.25) : tier(\"long_context\", p * 5 + c * 22.5 + cr * 0.5)'',
        pr_requestRules = []\<rparr>]),
     (js ''Tiered'',
      [
       \<lparr>pr_key = js ''claude-sonnet'', pr_label = js ''Claude Sonnet 4.5'',
        pr_expr = js ''len <= 200000 ? tier(\"standard\", p * 3 + c * 15 + cr * 0.3 + cc * 3.75 + cc1h * 6) : tier(\"long_context\", p * 6 + c * 22.5 + cr * 0.6 + cc * 7.5 + cc1h * 12)'',
        pr_requestRules = []\<rparr>,
       \<lparr>pr_key = js ''qwen3-max'', pr_label = js ''Qwen3 Max'',
        pr_expr = js ''len <= 32000 ? tier(\"short\", p * 1.2 + c * 6 + cr * 0.24 + cc * 1.5) : len <= 128000 ? tier(\"mid\", p * 2.4 + c * 12 + cr * 0.48 + cc * 3) : tier(\"long\", p * 3 + c * 15 + cr * 0.6 + cc * 3.75)'',
        pr_requestRules = []\<rparr>,
       \<lparr>pr_key = js ''glm-4.5-air'', pr_label = js ''GLM-4.5 Air'',
        pr_expr = js ''len < 32000 && c < 200 ? tier(\"short_output\", p * 0.8 + c * 2 + cr * 0.16) : len < 32000 && c >= 200 ? tier(\"long_output\", p * 0.8 + c * 6 + cr * 0.16) : tier(\"mid_context\", p * 1.2 + c * 8 + cr * 0.24)'',
        pr_requestRules = []\<rparr>,
       \<lparr>pr_key = js ''doubao-seed-1.8'', pr_label = js ''Doubao Seed 1.8'',
        pr_expr = js ''len <= 32000 && c <= 200 ? tier(\"discount\", p * 0.8 + c * 2 + cr * 0.16 + cc * 0.17) : len <= 32000 ? tier(\"short\", p * 0.8 + c * 8 + cr * 0.16 + cc * 0.17) : len <= 128000 ? tier(\"mid\", p * 1.2 + c * 16 + cr * 0.16 + cc * 0.17) : tier(\"long\", p * 2.4 + c * 24 + cr * 0.16 + cc * 0.17)'',
        pr_requestRules = []\<rparr>]),
     (js ''Multimodal'',
      [
       \<lparr>pr_key = js ''gpt-image-1-mini'', pr_label = js ''GPT Image 1 Mini'',
        pr_expr = js ''tier(\"base\", p * 2 + c * 8 + img * 2.5)'',
        pr_requestRules = []\<rparr>,
       \<lparr>pr_key = js ''gemini-2.5-flash'', pr_label = js ''Gemini 2.5 Flash'',
        pr_expr = js ''tier(\"base\", p * 0.3 + c * 2.5 + cr * 0.03 + ai * 1.0)'',
        pr_requestRules = []\<rparr>,
       \<lparr>pr_key = js ''gemini-3-pro-image'', pr_label = js ''Gemini 3 Pro Image'',
        pr_expr = js ''tier(\"base\", p * 2 + c * 12 + img_o * 120)'',
        pr_requestRules = []\<rparr>,
       \<lparr>pr_key = js ''qwen3-omni-flash'', pr_label = js ''Qwen3 Omni Flash'',
        pr_expr = js ''tier(\"base\", p * 0.43 + c * 3.06 + img * 0.78 + ai * 3.81 + ao * 15.11)'',
        pr_requestRules = []\<rparr>]),
     (js ''Request rule'',
      [
       \<lparr>pr_key = js ''claude-opus-fast'', pr_label = js ''Claude Opus 4.6 Fast'',
        pr_expr = js ''tier(\"base\", p * 5 + c * 25 + cr * 0.5 + cc * 6.25 + cc1h * 10)'',
        pr_requestRules = [\<lparr>rg_conditions = [param_header SOURCE_HEADER (js ''anthropic-beta'') MATCH_CONTAINS (js ''fast-mode-2026-02-01'')],
           rg_multiplier = js ''6''\<rparr>]\<rparr>,
       \<lparr>pr_key = js ''gpt-5.4-tiers'', pr_label = js ''GPT-5.4 Priority/Flex'',
        pr_expr = js ''len <= 272000 ? tier(\"standard\", p * 2.5 + c * 15 + cr * 0.25) : tier(\"long_context\", p * 5 + c * 22.5 + cr * 0.5)'',
        pr_requestRules = [\<lparr>rg_conditions = [param_header SOURCE_PARAM (js ''service_tier'') MATCH_EQ (js ''priority'')], rg_multiplier = js ''2''\<rparr>,
         \<lparr>rg_conditions = [param_header SOURCE_PARAM (js ''service_tier'') MATCH_EQ (js ''flex'')], rg_multiplier = js ''0.5''\<rparr>]\<rparr>]),
     (js ''Time-based'',
      [
       \<lparr>pr_key = js ''night-discount'', pr_label = js ''Night discount (50%)'',
        pr_expr = js ''tier(\"base\", p * 3 + c * 15)'',
        pr_requestRules = [\<lparr>rg_conditions = [TimeCondition \<lparr>tm_timeFunc = js ''hour'', tm_timezone = js ''Asia/Shanghai'', tm_mode = MATCH_RANGE,
           tm_value = [], tm_rangeStart = js ''21'', tm_rangeEnd = js ''6''\<rparr>], rg_multiplier = js ''0.5''\<rparr>]\<rparr>,
       \<lparr>pr_key = js ''weekend-discount'', pr_label = js ''Weekend discount (80%)'',
        pr_expr = js ''tier(\"base\", p * 3 + c * 15)'',
        pr_requestRules = [\<lparr>rg_conditions = [TimeCondition \<lparr>tm_timeFunc = js ''weekday'', tm_timezone = js ''Asia/Shanghai'', tm_mode = MATCH_EQ,
           tm_value = js ''0'', tm_rangeStart = [], tm_rangeEnd = []\<rparr>], rg_multiplier = js ''0.8''\<rparr>,
         \<lparr>rg_conditions = [TimeCondition \<lparr>tm_timeFunc = js ''weekday'', tm_timezone = js ''Asia/Shanghai'', tm_mode = MATCH_EQ,
           tm_value = js ''6'', tm_rangeStart = [], tm_rangeEnd = []\<rparr>], rg_multiplier = js ''0.8''\<rparr>]\<rparr>])]"

section \<open>A tier card\<close>

definition unitCostToPrice :: "js_number \<Rightarrow> js_number" where
  "unitCostToPrice uc = Some (or_zero uc)"

definition priceToUnitCost :: "js_number \<Rightarrow> js_number" where
  "priceToUnitCost price = Some (or_zero price)"

text \<open>\<open>{ ...tier, [field]: value }\<close> for the cost fields.\<close>

definition set_cost :: "jstring \<Rightarrow> js_number \<Rightarrow> visual_tier \<Rightarrow> visual_tier" where
  "set_cost field n t =
     (if field = js ''input_unit_cost'' then t\<lparr>vt_input_unit_cost := n\<rparr>
      else if field = js ''output_unit_cost'' then t\<lparr>vt_output_unit_cost := n\<rparr>
      else if field = js ''cache_read_unit_cost'' then t\<lparr>vt_cache_read_unit_cost := n\<rparr>
      else if field = js ''cache_create_unit_cost'' then t\<lparr>vt_cache_create_unit_cost := n\<rparr>
      else if field = js ''cache_create_1h_unit_cost'' then t\<lparr>vt_cache_create_1h_unit_cost := n\<rparr>
      else if field = js ''image_unit_cost'' then t\<lparr>vt_image_unit_cost := n\<rparr>
      else if field = js ''image_output_unit_cost'' then t\<lparr>vt_image_output_unit_cost := n\<rparr>
      else if field = js ''audio_input_unit_cost'' then t\<lparr>vt_audio_input_unit_cost := n\<rparr>
      else if field = js ''audio_output_unit_cost'' then t\<lparr>vt_audio_output_unit_cost := n\<rparr>
      else t)"

definition remove_nth :: "nat \<Rightarrow> 'a list \<Rightarrow> 'a list" where
  "remove_nth i xs = map snd (filter (\<lambda>(j, x). j \<noteq> i) (enumerate 0 xs))"

definition tier_handleConditionChange :: "visual_tier \<Rightarrow> nat \<Rightarrow> tier_condition_input \<Rightarrow> visual_tier" where
  "tier_handleConditionChange tier conditionIndex next' = tier\<lparr>vt_conditions := (vt_conditions tier)[conditionIndex := next']\<rparr>"

definition tier_handleConditionRemove :: "visual_tier \<Rightarrow> nat \<Rightarrow> visual_tier" where
  "tier_handleConditionRemove tier conditionIndex = tier\<lparr>vt_conditions := remove_nth conditionIndex (vt_conditions tier)\<rparr>"

definition tier_handlePriceChange :: "visual_tier \<Rightarrow> jstring \<Rightarrow> js_number \<Rightarrow> visual_tier" where
  "tier_handlePriceChange tier field value' = set_cost field value' tier"

definition tier_handleCacheModeChange :: "visual_tier \<Rightarrow> jstring \<Rightarrow> visual_tier" where
  "tier_handleCacheModeChange tier mode = tier\<lparr>
     vt_cache_mode := mode,
     vt_cache_create_1h_unit_cost := (if mode = CACHE_MODE_TIMED then vt_cache_create_1h_unit_cost tier else Some (0, 0))\<rparr>"

definition MEDIA_PRICE_VARS :: "billing_var list" where
  "MEDIA_PRICE_VARS = filter (\<lambda>variable. bv_group variable = Some (js ''media'')) BILLING_EXTRA_VARS"

definition hasMediaPricing :: "visual_tier \<Rightarrow> bool" where
  "hasMediaPricing tier =
     list_ex (\<lambda>variable. positive (unitCostToPrice (cost (partial_of_tier tier) (the (bv_tierField variable))))) MEDIA_PRICE_VARS"

text \<open>What the user does in a card; a price goes through \<open>priceToUnitCost\<close>.\<close>

datatype tier_edit =
    SetLabel jstring
  | ConditionChange nat tier_condition_input
  | ConditionRemove nat
  | PriceChange jstring js_number
  | CacheModeChange jstring

fun VisualTierCard :: "visual_tier \<Rightarrow> tier_edit \<Rightarrow> visual_tier" where
  "VisualTierCard tier (SetLabel l) = tier\<lparr>vt_label := l\<rparr>"
| "VisualTierCard tier (ConditionChange i c) = tier_handleConditionChange tier i c"
| "VisualTierCard tier (ConditionRemove i) = tier_handleConditionRemove tier i"
| "VisualTierCard tier (PriceChange field n) = tier_handlePriceChange tier field (priceToUnitCost n)"
| "VisualTierCard tier (CacheModeChange mode) = tier_handleCacheModeChange tier mode"

section \<open>The list of tiers\<close>

definition handleTierChange :: "visual_config \<Rightarrow> nat \<Rightarrow> visual_tier \<Rightarrow> visual_config" where
  "handleTierChange config index next' =
     config\<lparr>vc_tiers := (vc_tiers config)[index := normalizeVisualTier (partial_of_tier next')]\<rparr>"

definition default_bound :: tier_condition_input where
  "default_bound = \<lparr>ti_var = js ''len'', ti_op = js ''<'', ti_value = NumberValue (Some (2, 5))\<rparr>"

definition handleAddTier :: "visual_config \<Rightarrow> visual_config" where
  "handleAddTier config =
     (let tiers = vc_tiers config; lastIndex = length tiers - 1;
          tiers = (if tiers \<noteq> [] \<and> vt_conditions (tiers ! lastIndex) = []
            then tiers[lastIndex := normalizeVisualTier (partial_of_tier ((tiers ! lastIndex)\<lparr>vt_conditions := [default_bound]\<rparr>))]
            else tiers) in
      config\<lparr>vc_tiers := tiers @ [normalizeVisualTier
        \<lparr>pt_label' = Some (js ''tier_'' @ nat_str (length tiers + 1)), pt_conditions' = Some [], pt_cache_mode' = None,
         pt_costs = [(js ''input_unit_cost'', Some (0, 0)), (js ''output_unit_cost'', Some (0, 0))]\<rparr>]\<rparr>)"

definition handleRemoveTier :: "visual_config \<Rightarrow> nat \<Rightarrow> visual_config" where
  "handleRemoveTier config index =
     (let tiers = remove_nth index (vc_tiers config) in
      config\<lparr>vc_tiers := (if tiers \<noteq> [] then tiers else vc_tiers config)\<rparr>)"

text \<open>\<open>None\<close>: the handler returns without calling \<open>onChange\<close>.\<close>

definition handleAddCondition :: "visual_config \<Rightarrow> nat \<Rightarrow> visual_config option" where
  "handleAddCondition config index =
     (let tier = vc_tiers config ! index in
      if length (vt_conditions tier) \<ge> 2 then None
      else
        let nextVar = (if js ''len'' \<in> set (map ti_var (vt_conditions tier)) then js ''c'' else js ''len'') in
        Some (config\<lparr>vc_tiers := map (\<lambda>(i, current).
          if i = index then current\<lparr>vt_conditions := vt_conditions tier @
            [\<lparr>ti_var = nextVar, ti_op = js ''<'', ti_value = NumberValue (Some (2, 5))\<rparr>]\<rparr>
          else current) (enumerate 0 (vc_tiers config))\<rparr>))"

text \<open>
  The handlers work on the normalised configuration; an index is one of a card that is shown. The result is what
  \<open>onChange\<close> gets, \<open>None\<close> when it is not called.
\<close>

datatype visual_edit =
    TierEdit nat tier_edit
  | AddTier
  | RemoveTier nat
  | AddCondition nat

definition VisualEditor :: "visual_config option \<Rightarrow> visual_edit \<Rightarrow> visual_config option" where
  "VisualEditor visualConfig edit =
     (let config = normalizeVisualConfig visualConfig in
      case edit of
        TierEdit i e \<Rightarrow> Some (handleTierChange config i (VisualTierCard (vc_tiers config ! i) e))
      | AddTier \<Rightarrow> Some (handleAddTier config)
      | RemoveTier i \<Rightarrow> Some (handleRemoveTier config i)
      | AddCondition i \<Rightarrow> handleAddCondition config i)"

section \<open>Request rules\<close>

definition rule_handleSourceChange :: "request_condition \<Rightarrow> jstring \<Rightarrow> request_condition" where
  "rule_handleSourceChange condition source =
     (if source = SOURCE_TIME then TimeCondition createEmptyTimeCondition
      else if source = SOURCE_HEADER \<or> source = SOURCE_PARAM
      then ParamHeaderCondition (createEmptyCondition\<lparr>ph_source := source\<rparr>)
      else condition)"

fun rule_handleModeChange :: "request_condition \<Rightarrow> jstring \<Rightarrow> request_condition" where
  "rule_handleModeChange (ParamHeaderCondition c) mode = ParamHeaderCondition (c\<lparr>ph_mode := mode\<rparr>)"
| "rule_handleModeChange (TimeCondition c) mode = TimeCondition (c\<lparr>tm_mode := mode\<rparr>)"

definition group_handleConditionChange :: "request_rule_group \<Rightarrow> nat \<Rightarrow> request_condition \<Rightarrow> request_rule_group" where
  "group_handleConditionChange group' conditionIndex next' =
     group'\<lparr>rg_conditions := (rg_conditions group')[conditionIndex := next']\<rparr>"

definition group_handleAddCondition :: "request_rule_group \<Rightarrow> bool \<Rightarrow> request_rule_group" where
  "group_handleAddCondition group' timeMode =
     group'\<lparr>rg_conditions := rg_conditions group' @
       [if timeMode then TimeCondition createEmptyTimeCondition else ParamHeaderCondition createEmptyCondition]\<rparr>"

section \<open>The main editor\<close>

datatype editor_mode = Visual | Raw

text \<open>
  The state of the component, the reference \<open>initRef\<close>, the values on which the first two effects ran last
  (\<open>None\<close> before the first time), and the properties: the name of the model and the two expressions of the sheet.
\<close>

record editor =
  ed_editorMode :: editor_mode
  ed_visualConfig :: "visual_config option"
  ed_rawExpr :: jstring
  ed_requestRuleGroups :: "request_rule_group list"
  ed_initRef :: bool
  ed_exprDeps :: "(jstring \<times> jstring) option"
  ed_nameDep :: "jstring option"
  ed_modelName :: jstring
  ed_billingExpr :: jstring
  ed_requestRuleExpr :: jstring

definition groups_or_none :: "request_rule_group list option \<Rightarrow> request_rule_group list" where
  "groups_or_none r = (case r of Some gs \<Rightarrow> gs | None \<Rightarrow> [])"

text \<open>The first render: the initial values of the state.\<close>

definition TieredPricingEditor :: "jstring \<Rightarrow> jstring \<Rightarrow> jstring \<Rightarrow> js_error + editor" where
  "TieredPricingEditor modelName currentExpr currentRequestRuleExpr =
     (case tryParseRequestRuleExpr currentRequestRuleExpr of
        Inl e \<Rightarrow> Inl e
      | Inr r \<Rightarrow> Inr
          \<lparr>ed_editorMode = Visual, ed_visualConfig = tryParseVisualConfig (Some currentExpr),
           ed_rawExpr = combineBillingExpr currentExpr currentRequestRuleExpr, ed_requestRuleGroups = groups_or_none r,
           ed_initRef = False, ed_exprDeps = None, ed_nameDep = None, ed_modelName = modelName,
           ed_billingExpr = currentExpr, ed_requestRuleExpr = currentRequestRuleExpr\<rparr>)"

definition canUseVisualRules :: "editor \<Rightarrow> js_error + bool" where
  "canUseVisualRules s =
     (if ed_requestRuleExpr s = [] then Inr True
      else case tryParseRequestRuleExpr (ed_requestRuleExpr s) of Inl e \<Rightarrow> Inl e | Inr r \<Rightarrow> Inr (r \<noteq> None))"

definition effectiveExpr :: "editor \<Rightarrow> js_error + jstring" where
  "effectiveExpr s =
     (if ed_editorMode s = Visual then Inr (generateExprFromVisualConfig (ed_visualConfig s))
      else case splitBillingExprAndRequestRules (ed_rawExpr s) of Inl e \<Rightarrow> Inl e | Inr p \<Rightarrow> Inr (se_billingExpr p))"

text \<open>The body of the first effect, on the values of the render \<open>s\<close>, for the next render \<open>n\<close>.\<close>

definition init_effect :: "editor \<Rightarrow> editor \<Rightarrow> js_error + editor" where
  "init_effect s n =
     (if ed_initRef n then Inr n
      else
        let n = n\<lparr>ed_initRef := True\<rparr>;
            n = (case tryParseVisualConfig (Some (ed_billingExpr s)) of
                   Some cfg \<Rightarrow> n\<lparr>ed_visualConfig := Some cfg, ed_editorMode := Visual\<rparr>
                 | None \<Rightarrow>
                     if ed_billingExpr s \<noteq> [] then n\<lparr>ed_visualConfig := None, ed_editorMode := Raw\<rparr>
                     else n\<lparr>ed_visualConfig := Some createDefaultVisualConfig\<rparr>);
            n = n\<lparr>ed_rawExpr := combineBillingExpr (ed_billingExpr s) (ed_requestRuleExpr s)\<rparr> in
        case tryParseRequestRuleExpr (ed_requestRuleExpr s) of
          Inl e \<Rightarrow> Inl e
        | Inr r \<Rightarrow> Inr (n\<lparr>ed_requestRuleGroups := groups_or_none r\<rparr>))"

text \<open>
  A render with its effects. The third and the fourth effect compare before they set, so that running them again on
  values they have seen changes nothing.
\<close>

definition commit :: "editor \<Rightarrow> js_error + editor" where
  "commit s =
     (case canUseVisualRules s of Inl e \<Rightarrow> Inl e | Inr _ \<Rightarrow>
      case effectiveExpr s of Inl e \<Rightarrow> Inl e | Inr expr \<Rightarrow>
      case (if ed_exprDeps s = Some (ed_billingExpr s, ed_requestRuleExpr s) then Inr s else init_effect s s) of
        Inl e \<Rightarrow> Inl e
      | Inr n \<Rightarrow>
          (let n = n\<lparr>ed_exprDeps := Some (ed_billingExpr s, ed_requestRuleExpr s)\<rparr>;
               n = (if ed_nameDep s = Some (ed_modelName s) then n
                    else n\<lparr>ed_initRef := False, ed_nameDep := Some (ed_modelName s)\<rparr>);
               n = (if expr \<noteq> ed_billingExpr s then n\<lparr>ed_billingExpr := expr\<rparr> else n) in
           if ed_editorMode s \<noteq> Visual then Inr n
           else
             let ruleExpr = buildRequestRuleExpr (ed_requestRuleGroups s) in
             Inr (if ruleExpr \<noteq> ed_requestRuleExpr s then n\<lparr>ed_requestRuleExpr := ruleExpr\<rparr> else n)))"

text \<open>\<open>k\<close> renders.\<close>

fun commits :: "nat \<Rightarrow> editor \<Rightarrow> js_error + editor" where
  "commits 0 s = Inr s"
| "commits (Suc k) s = (case commit s of Inl e \<Rightarrow> Inl e | Inr n \<Rightarrow> commits k n)"

text \<open>The handlers. An exception leaves what was set before it.\<close>

definition handleVisualChange :: "editor \<Rightarrow> visual_config \<Rightarrow> editor" where
  "handleVisualChange s next' = s\<lparr>ed_visualConfig := Some next'\<rparr>"

definition handleRuleGroupsChange :: "editor \<Rightarrow> request_rule_group list \<Rightarrow> editor" where
  "handleRuleGroupsChange s next' = s\<lparr>ed_requestRuleGroups := next'\<rparr>"

definition handleRawChange :: "editor \<Rightarrow> jstring \<Rightarrow> js_error option \<times> editor" where
  "handleRawChange s value' =
     (let s = s\<lparr>ed_rawExpr := value'\<rparr> in
      case splitBillingExprAndRequestRules value' of
        Inl e \<Rightarrow> (Some e, s)
      | Inr p \<Rightarrow> (None, s\<lparr>ed_requestRuleExpr := se_requestRuleExpr p\<rparr>))"

definition or_expr :: "jstring \<Rightarrow> jstring \<Rightarrow> jstring" where
  "or_expr a b = (if a \<noteq> [] then a else b)"

definition handleModeChange :: "editor \<Rightarrow> editor_mode \<Rightarrow> js_error option \<times> editor" where
  "handleModeChange s next' =
     (case next' of
        Visual \<Rightarrow>
          (case splitBillingExprAndRequestRules (ed_rawExpr s) of
             Inl e \<Rightarrow> (Some e, s)
           | Inr p \<Rightarrow>
               (let s = s\<lparr>ed_visualConfig := Some (case tryParseVisualConfig (Some (se_billingExpr p)) of
                      Some cfg \<Rightarrow> cfg | None \<Rightarrow> createDefaultVisualConfig)\<rparr> in
                case tryParseRequestRuleExpr (se_requestRuleExpr p) of
                  Inl e \<Rightarrow> (Some e, s)
                | Inr r \<Rightarrow> (None, s\<lparr>ed_requestRuleGroups := groups_or_none r,
                    ed_requestRuleExpr := se_requestRuleExpr p, ed_editorMode := Visual\<rparr>)))
      | Raw \<Rightarrow>
          (let expr = generateExprFromVisualConfig (ed_visualConfig s);
               ruleExpr = buildRequestRuleExpr (ed_requestRuleGroups s) in
           (None, s\<lparr>ed_rawExpr := or_expr (combineBillingExpr expr ruleExpr) expr, ed_editorMode := Raw\<rparr>)))"

definition applyPreset :: "editor \<Rightarrow> preset \<Rightarrow> editor" where
  "applyPreset s preset' =
     (let presetGroups = pr_requestRules preset';
          ruleExpr = buildRequestRuleExpr presetGroups;
          combined = or_expr (combineBillingExpr (pr_expr preset') ruleExpr) (pr_expr preset');
          s = s\<lparr>ed_rawExpr := combined\<rparr>;
          s = (case tryParseVisualConfig (Some (pr_expr preset')) of
                 Some cfg \<Rightarrow> s\<lparr>ed_visualConfig := Some cfg, ed_editorMode := Visual\<rparr>
               | None \<Rightarrow> s\<lparr>ed_editorMode := Raw, ed_visualConfig := None\<rparr>) in
      s\<lparr>ed_requestRuleGroups := presetGroups, ed_requestRuleExpr := ruleExpr\<rparr>)"

section \<open>Edits of a configuration\<close>

text \<open>
  The edits an expression can hold: a label without quotes, a condition on a known variable whose bound prints with
  digits, point, \<open>e\<close> and plus only, a price that is a number. The inputs of the cards take more than that: the label is
  free text, and the smallest value of the number field is only a hint.
\<close>

fun tier_edit_ok :: "tier_edit \<Rightarrow> bool" where
  "tier_edit_ok (SetLabel l) \<longleftrightarrow> 34 \<notin> set l"
| "tier_edit_ok (ConditionChange i c) \<longleftrightarrow> condition_ok c"
| "tier_edit_ok (ConditionRemove i) \<longleftrightarrow> True"
| "tier_edit_ok (PriceChange field n) \<longleftrightarrow> price_ok n"
| "tier_edit_ok (CacheModeChange mode) \<longleftrightarrow> True"

fun visual_edit_ok :: "visual_config \<Rightarrow> visual_edit \<Rightarrow> bool" where
  "visual_edit_ok cfg (TierEdit i e) \<longleftrightarrow> i < length (vc_tiers cfg) \<and> tier_edit_ok e"
| "visual_edit_ok cfg AddTier \<longleftrightarrow> True"
| "visual_edit_ok cfg (RemoveTier i) \<longleftrightarrow> i < length (vc_tiers cfg)"
| "visual_edit_ok cfg (AddCondition i) \<longleftrightarrow> i < length (vc_tiers cfg)"

lemma set_remove_nth: "set (remove_nth i xs) \<subseteq> set xs"
proof -
  have "snd ` set (enumerate 0 xs) = set xs" by (metis list.set_map map_snd_enumerate)
  then show ?thesis by (auto simp: remove_nth_def)
qed

lemma price_ok_zero [simp]: "price_ok (Some (0, 0))"
  by (simp add: price_ok_def dec_normal_def)

lemma price_ok_or_zero: "price_ok n \<Longrightarrow> price_ok (Some (or_zero n))"
  by (simp add: price_or_zero)

lemma visual_tier_normal:
  assumes "visual_tier_ok t"
  shows "normalizeVisualTier (partial_of_tier t) = t"
proof -
  have *: "list_all price_ok (map snd (pt_costs (partial_of_tier t)))" using assms by (simp add: visual_tier_ok_def)
  show ?thesis
    using * by (simp add: normalizeVisualTier_def cost_or_zero_def cost_def partial_of_tier_def js_eval price_or_zero)
qed

lemma visual_config_normal:
  assumes "visual_ok cfg"
  shows "normalizeVisualConfig (Some cfg) = cfg"
proof -
  have "map (\<lambda>t. normalizeVisualTier (partial_of_tier t)) (vc_tiers cfg) = vc_tiers cfg"
    using assms by (intro map_idI) (auto simp: visual_ok_def list_all_iff visual_tier_normal)
  then show ?thesis using assms by (simp add: normalizeVisualConfig_def visual_ok_def)
qed

lemma tier_edit_keeps:
  assumes "visual_tier_ok t" "tier_edit_ok e"
  shows "visual_tier_ok (VisualTierCard t e)"
proof (cases e)
  case (ConditionChange i c)
  then show ?thesis
    using assms set_update_subset_insert [of "vt_conditions t" i c]
    by (auto simp: visual_tier_ok_def tier_handleConditionChange_def partial_of_tier_def list_all_iff)
next
  case (ConditionRemove i)
  then show ?thesis
    using assms set_remove_nth [of i "vt_conditions t"]
    by (auto simp: visual_tier_ok_def tier_handleConditionRemove_def partial_of_tier_def list_all_iff)
next
  case (PriceChange f n)
  then have "price_ok (priceToUnitCost n)" using assms(2) by (simp add: priceToUnitCost_def price_ok_or_zero)
  then show ?thesis
    using assms PriceChange by (simp add: visual_tier_ok_def tier_handlePriceChange_def set_cost_def partial_of_tier_def)
qed (use assms in \<open>auto simp: visual_tier_ok_def tier_handleCacheModeChange_def partial_of_tier_def\<close>)

lemma default_bound_ok: "condition_ok default_bound"
  "condition_ok \<lparr>ti_var = js ''c'', ti_op = js ''<'', ti_value = NumberValue (Some (2, 5))\<rparr>"
  by code_simp+

lemma new_tier_ok: "visual_tier_ok (normalizeVisualTier \<lparr>pt_label' = Some (js ''tier_'' @ nat_str k), pt_conditions' = Some [],
  pt_cache_mode' = None, pt_costs = [(js ''input_unit_cost'', Some (0, 0)), (js ''output_unit_cost'', Some (0, 0))]\<rparr>)"
proof -
  have "34 \<notin> set (nat_str k)" using nat_str_digits [of k] by (auto simp: is_digit_def)
  then show ?thesis
    by (simp add: visual_tier_ok_def normalizeVisualTier_def cost_or_zero_def cost_def or_zero_def partial_of_tier_def js_eval)
qed

lemma tier_with_conditions:
  "visual_tier_ok t \<Longrightarrow> list_all condition_ok cs \<Longrightarrow> visual_tier_ok (t\<lparr>vt_conditions := cs\<rparr>)"
  by (simp add: visual_tier_ok_def partial_of_tier_def)

text \<open>What each edit should do to the list of tiers, on the list itself.\<close>

definition next_bound :: "visual_tier \<Rightarrow> tier_condition_input" where
  "next_bound t = default_bound\<lparr>ti_var := (if js ''len'' \<in> ti_var ` set (vt_conditions t) then js ''c'' else js ''len'')\<rparr>"

definition fresh_tier :: "nat \<Rightarrow> visual_tier" where
  "fresh_tier k = \<lparr>vt_label = js ''tier_'' @ nat_str k, vt_conditions = [],
     vt_input_unit_cost = Some (0, 0), vt_output_unit_cost = Some (0, 0), vt_cache_mode = CACHE_MODE_GENERIC, vt_cache_read_unit_cost = Some (0, 0),
     vt_cache_create_unit_cost = Some (0, 0), vt_cache_create_1h_unit_cost = Some (0, 0), vt_image_unit_cost = Some (0, 0),
     vt_image_output_unit_cost = Some (0, 0), vt_audio_input_unit_cost = Some (0, 0), vt_audio_output_unit_cost = Some (0, 0)\<rparr>"

fun edited_tiers :: "visual_tier list \<Rightarrow> visual_edit \<Rightarrow> visual_tier list option" where
  "edited_tiers ts (TierEdit i e) = Some (take i ts @ VisualTierCard (ts ! i) e # drop (Suc i) ts)"
| "edited_tiers ts AddTier = Some (butlast ts @
     [if vt_conditions (last ts) = [] then (last ts)\<lparr>vt_conditions := [default_bound]\<rparr> else last ts, fresh_tier (length ts + 1)])"
| "edited_tiers ts (RemoveTier i) = Some (if length ts = 1 then ts else take i ts @ drop (Suc i) ts)"
| "edited_tiers ts (AddCondition i) =
     (if length (vt_conditions (ts ! i)) \<ge> 2 then None
      else Some (take i ts @ (ts ! i)\<lparr>vt_conditions := vt_conditions (ts ! i) @ [next_bound (ts ! i)]\<rparr> # drop (Suc i) ts))"

lemma remove_enumerated:
  "map snd (filter (\<lambda>(j, x). j \<noteq> n + i) (enumerate n xs)) = take i xs @ drop (Suc i) xs"
proof (induction xs arbitrary: n i)
  case (Cons x xs)
  have "filter (\<lambda>(j, x). j \<noteq> n) (enumerate (Suc n) xs) = enumerate (Suc n) xs"
    by (rule filter_True) (auto simp: in_set_enumerate_eq)
  then show ?case using Cons.IH [of "Suc n"] by (cases i) simp_all
qed simp

lemma remove_nth_take_drop: "remove_nth i xs = take i xs @ drop (Suc i) xs"
  using remove_enumerated [of 0 i xs] by (simp add: remove_nth_def)

lemma map_enumerated_at:
  assumes "i < length xs"
  shows "map (\<lambda>(j, x). if j = i then f x else x) (enumerate 0 xs) = take i xs @ f (xs ! i) # drop (Suc i) xs"
proof -
  have "map (\<lambda>(j, x). if j = i then f x else x) (enumerate 0 xs) = xs[i := f (xs ! i)]"
    by (rule nth_equalityI) (auto simp: nth_enumerate_eq nth_list_update)
  then show ?thesis using assms by (simp add: upd_conv_take_nth_drop)
qed

lemma fresh_tier: "fresh_tier k = normalizeVisualTier \<lparr>pt_label' = Some (js ''tier_'' @ nat_str k), pt_conditions' = Some [],
  pt_cache_mode' = None, pt_costs = [(js ''input_unit_cost'', Some (0, 0)), (js ''output_unit_cost'', Some (0, 0))]\<rparr>"
  by (simp add: fresh_tier_def normalizeVisualTier_def cost_or_zero_def cost_def or_zero_def getTierCacheMode_def positive_def js_eval)

lemma default_bound_tier: "visual_tier_ok t \<Longrightarrow> visual_tier_ok (t\<lparr>vt_conditions := [default_bound]\<rparr>)"
  using tier_with_conditions default_bound_ok(1) by simp

lemma add_tier_effect:
  assumes "visual_ok cfg"
  shows "Some (handleAddTier cfg) = map_option (\<lambda>ts. cfg\<lparr>vc_tiers := ts\<rparr>) (edited_tiers (vc_tiers cfg) AddTier)"
proof -
  obtain ts t where ts: "vc_tiers cfg = ts @ [t]" using assms by (cases "vc_tiers cfg" rule: rev_cases) (auto simp: visual_ok_def)
  then have "normalizeVisualTier (partial_of_tier (t\<lparr>vt_conditions := [default_bound]\<rparr>)) = t\<lparr>vt_conditions := [default_bound]\<rparr>"
    using assms by (intro visual_tier_normal default_bound_tier) (simp add: visual_ok_def)
  then show ?thesis using ts by (simp add: handleAddTier_def fresh_tier nth_append)
qed

lemma tier_change_effect:
  assumes "visual_ok cfg" "i < length (vc_tiers cfg)" "tier_edit_ok e"
  shows "Some (handleTierChange cfg i (VisualTierCard (vc_tiers cfg ! i) e)) =
    map_option (\<lambda>ts. cfg\<lparr>vc_tiers := ts\<rparr>) (edited_tiers (vc_tiers cfg) (TierEdit i e))"
proof -
  have "visual_tier_ok (VisualTierCard (vc_tiers cfg ! i) e)"
    using assms tier_edit_keeps by (simp add: visual_ok_def list_all_length)
  then show ?thesis
    using assms(2) by (simp add: handleTierChange_def visual_tier_normal upd_conv_take_nth_drop)
qed

lemma remove_tier_effect:
  assumes "i < length (vc_tiers cfg)"
  shows "Some (handleRemoveTier cfg i) = map_option (\<lambda>ts. cfg\<lparr>vc_tiers := ts\<rparr>) (edited_tiers (vc_tiers cfg) (RemoveTier i))"
proof -
  have "length (remove_nth i (vc_tiers cfg)) = length (vc_tiers cfg) - 1" using assms by (simp add: remove_nth_take_drop)
  then have "remove_nth i (vc_tiers cfg) = [] \<longleftrightarrow> length (vc_tiers cfg) = 1" using assms by (auto simp flip: length_0_conv)
  then show ?thesis by (simp add: handleRemoveTier_def Let_def) (simp add: remove_nth_take_drop)
qed

lemma add_condition_effect:
  assumes "i < length (vc_tiers cfg)"
  shows "handleAddCondition cfg i = map_option (\<lambda>ts. cfg\<lparr>vc_tiers := ts\<rparr>) (edited_tiers (vc_tiers cfg) (AddCondition i))"
proof -
  let ?t = "vc_tiers cfg ! i"
  have "next_bound ?t = \<lparr>ti_var = (if js ''len'' \<in> set (map ti_var (vt_conditions ?t)) then js ''c'' else js ''len''),
      ti_op = js ''<'', ti_value = NumberValue (Some (2, 5))\<rparr>"
    by (simp add: next_bound_def default_bound_def)
  then show ?thesis
    unfolding handleAddCondition_def Let_def by (simp only: map_enumerated_at [OF assms] edited_tiers.simps) simp
qed

lemma editor_effect:
  assumes "visual_ok cfg" "visual_edit_ok cfg e"
  shows "VisualEditor (Some cfg) e = map_option (\<lambda>ts. cfg\<lparr>vc_tiers := ts\<rparr>) (edited_tiers (vc_tiers cfg) e)"
  using assms add_tier_effect tier_change_effect remove_tier_effect add_condition_effect
  by (cases e) (simp_all add: VisualEditor_def visual_config_normal del: edited_tiers.simps)

lemma editor_changed:
  assumes "visual_ok cfg" "visual_edit_ok cfg e" "VisualEditor (Some cfg) e = Some cfg'"
  shows "edited_tiers (vc_tiers cfg) e = Some (vc_tiers cfg')"
  using editor_effect [OF assms(1,2)] assms(3) by (cases "edited_tiers (vc_tiers cfg) e") auto

lemma next_bound_ok: "condition_ok (next_bound t)"
  using default_bound_ok by (simp add: next_bound_def default_bound_def)

lemma fresh_tier_ok: "visual_tier_ok (fresh_tier k)"
  unfolding fresh_tier by (rule new_tier_ok)

lemma part_ok: "list_all P xs \<Longrightarrow> list_all P (take i xs) \<and> list_all P (drop j xs) \<and> list_all P (butlast xs)"
  by (auto simp: list_all_iff dest: in_set_takeD in_set_dropD in_set_butlastD)

lemma edited_tiers_ok:
  assumes "edited_tiers ts e = Some us" "list_all visual_tier_ok ts" "ts \<noteq> []" "visual_edit_ok \<lparr>vc_tiers = ts\<rparr> e"
  shows "list_all visual_tier_ok us \<and> us \<noteq> []"
proof (cases e)
  case (TierEdit i d)
  then have "visual_tier_ok (ts ! i)" using assms by (simp add: list_all_length)
  then show ?thesis using TierEdit assms tier_edit_keeps part_ok [of visual_tier_ok ts] by auto
next
  case AddTier
  have "visual_tier_ok (last ts)" using assms(2,3) by (simp add: list_all_iff)
  then show ?thesis
    using AddTier assms default_bound_tier fresh_tier_ok part_ok [of visual_tier_ok ts] by auto
next
  case (RemoveTier i)
  have "take i ts @ drop (Suc i) ts = [] \<Longrightarrow> length ts = 1"
    using assms(3) by (cases ts; cases i) auto
  then show ?thesis using RemoveTier assms part_ok [of visual_tier_ok ts] by (auto split: if_splits)
next
  case (AddCondition i)
  have t: "visual_tier_ok (ts ! i)" using assms AddCondition by (simp add: list_all_length)
  then have "visual_tier_ok ((ts ! i)\<lparr>vt_conditions := vt_conditions (ts ! i) @ [next_bound (ts ! i)]\<rparr>)"
    using tier_with_conditions [OF t] next_bound_ok by (simp add: visual_tier_ok_def)
  then show ?thesis using AddCondition assms part_ok [of visual_tier_ok ts] by (auto split: if_splits)
qed

lemma visual_edit_keeps:
  assumes "visual_ok cfg" "visual_edit_ok cfg e" "VisualEditor (Some cfg) e = Some cfg'"
  shows "visual_ok cfg'"
  using edited_tiers_ok [OF editor_changed [OF assms]] assms(1,2) by (cases cfg) (simp add: visual_ok_def)

text \<open>The configurations that edits reach.\<close>

inductive edited :: "visual_config \<Rightarrow> visual_config \<Rightarrow> bool" for start where
  edited_start: "edited start start"
| edited_step: "edited start cfg \<Longrightarrow> visual_edit_ok cfg e \<Longrightarrow> VisualEditor (Some cfg) e = Some cfg' \<Longrightarrow> edited start cfg'"

lemma edited_ok: "edited start cfg \<Longrightarrow> visual_ok start \<Longrightarrow> visual_ok cfg"
  by (induction rule: edited.induct) (simp_all add: visual_edit_keeps)

text \<open>A card offers two conditions at most.\<close>

definition few_conditions :: "visual_tier \<Rightarrow> bool" where
  "few_conditions t \<longleftrightarrow> length (vt_conditions t) \<le> 2"

lemma card_keeps_few: "few_conditions t \<Longrightarrow> few_conditions (VisualTierCard t d)"
  by (cases d) (auto simp: few_conditions_def tier_handleConditionChange_def tier_handleConditionRemove_def remove_nth_take_drop
    tier_handlePriceChange_def set_cost_def tier_handleCacheModeChange_def)

lemma edited_tiers_few:
  assumes "edited_tiers ts e = Some us" "list_all few_conditions ts" "ts \<noteq> []" "visual_edit_ok \<lparr>vc_tiers = ts\<rparr> e"
  shows "list_all few_conditions us"
proof (cases e)
  case (TierEdit i d)
  then have "few_conditions (ts ! i)" using assms by (simp add: list_all_length)
  then show ?thesis using TierEdit assms card_keeps_few part_ok [of few_conditions ts] by auto
next
  case AddTier
  have "few_conditions (last ts)" using assms(2,3) by (simp add: list_all_iff)
  then show ?thesis
    using AddTier assms part_ok [of few_conditions ts] by (auto simp: few_conditions_def fresh_tier_def)
next
  case (RemoveTier i)
  then show ?thesis using assms part_ok [of few_conditions ts] by (auto split: if_splits)
next
  case (AddCondition i)
  then show ?thesis using assms part_ok [of few_conditions ts] by (auto simp: few_conditions_def split: if_splits)
qed

lemma edited_few:
  "edited start cfg \<Longrightarrow> visual_ok start \<Longrightarrow> list_all few_conditions (vc_tiers start) \<Longrightarrow> list_all few_conditions (vc_tiers cfg)"
proof (induction rule: edited.induct)
  case (edited_step cfg e cfg')
  have ok: "visual_ok cfg" using edited_ok [OF edited_step.hyps(1)] edited_step.prems by simp
  then show ?case
    using edited_tiers_few [OF editor_changed [OF ok edited_step.hyps(2,3)]] edited_step by (cases cfg) (simp add: visual_ok_def)
qed simp

lemma default_config_ok: "visual_ok createDefaultVisualConfig" "config_ok createDefaultVisualConfig"
  by code_simp+

section \<open>The editor settles\<close>

text \<open>The visual editor and the two expressions agree, and the first two effects have seen them.\<close>

definition in_step :: "editor \<Rightarrow> bool" where
  "in_step s \<longleftrightarrow>
     ed_editorMode s = Visual \<and> (\<exists>cfg. ed_visualConfig s = Some cfg \<and> visual_ok cfg) \<and> rules_ok (ed_requestRuleGroups s) \<and>
     ed_billingExpr s = generateExprFromVisualConfig (ed_visualConfig s) \<and>
     ed_requestRuleExpr s = buildRequestRuleExpr (ed_requestRuleGroups s) \<and>
     ed_exprDeps s = Some (ed_billingExpr s, ed_requestRuleExpr s) \<and> ed_nameDep s = Some (ed_modelName s)"

lemma rules_usable: "rules_ok gs \<Longrightarrow> ed_requestRuleExpr s = buildRequestRuleExpr gs \<Longrightarrow> canUseVisualRules s = Inr True"
  by (simp add: canUseVisualRules_def rule_text.read_back)

lemma in_step_settled:
  assumes "in_step s"
  shows "commit s = Inr s"
proof -
  have "s\<lparr>ed_exprDeps := Some (ed_billingExpr s, ed_requestRuleExpr s)\<rparr> = s" using assms by (cases s) (simp add: in_step_def)
  then show ?thesis
    using assms rules_usable [of "ed_requestRuleGroups s" s] by (auto simp: in_step_def commit_def effectiveExpr_def Let_def)
qed

text \<open>The render after a change of the configuration and of the rules.\<close>

lemma commit_changed:
  assumes "in_step s"
  shows "commit (s\<lparr>ed_visualConfig := Some cfg, ed_requestRuleGroups := gs\<rparr>) =
    Inr (s\<lparr>ed_visualConfig := Some cfg, ed_requestRuleGroups := gs, ed_billingExpr := generateExprFromVisualConfig (Some cfg),
      ed_requestRuleExpr := buildRequestRuleExpr gs\<rparr>)"
proof -
  have "canUseVisualRules (s\<lparr>ed_visualConfig := Some cfg, ed_requestRuleGroups := gs\<rparr>) = Inr True"
    using assms by (intro rules_usable [of "ed_requestRuleGroups s"]) (auto simp: in_step_def)
  moreover have "s\<lparr>ed_exprDeps := Some (ed_billingExpr s, ed_requestRuleExpr s)\<rparr> = s" using assms by (cases s) (simp add: in_step_def)
  ultimately show ?thesis
    using assms by (cases s) (auto simp: in_step_def commit_def effectiveExpr_def Let_def)
qed

text \<open>The render after that: the first effect has seen the expressions, or reads them once more.\<close>

definition reread :: "editor \<Rightarrow> visual_config \<Rightarrow> visual_config" where
  "reread s cfg = (if ed_initRef s \<or> ed_exprDeps s = Some (ed_billingExpr s, ed_requestRuleExpr s) then cfg else canonical cfg)"

lemma commit_reread:
  assumes "ed_editorMode s = Visual" "ed_visualConfig s = Some cfg" "visual_ok cfg" "rules_ok (ed_requestRuleGroups s)"
    "ed_billingExpr s = generateExprFromVisualConfig (Some cfg)" "ed_requestRuleExpr s = buildRequestRuleExpr (ed_requestRuleGroups s)"
    "ed_nameDep s = Some (ed_modelName s)"
  shows "\<exists>s'. commit s = Inr s' \<and> in_step s' \<and> ed_visualConfig s' = Some (reread s cfg) \<and>
    ed_requestRuleGroups s' = ed_requestRuleGroups s \<and> ed_billingExpr s' = ed_billingExpr s \<and> ed_requestRuleExpr s' = ed_requestRuleExpr s"
proof -
  have usable: "canUseVisualRules s = Inr True" using rules_usable assms(4,6) by blast
  have ef: "effectiveExpr s = Inr (ed_billingExpr s)" using assms(1,2,5) by (simp add: effectiveExpr_def)
  have bk: "tryParseVisualConfig (Some (ed_billingExpr s)) = Some (canonical cfg)"
    "tryParseRequestRuleExpr (ed_requestRuleExpr s) = Inr (Some (ed_requestRuleGroups s))"
    using config_text.read_back [OF assms(3)] rule_text.read_back [OF assms(4)] assms(5,6) by simp_all
  have ok: "visual_ok (canonical cfg)" by (rule config_text.canon_ok [OF assms(3)])
  show ?thesis
    using assms usable ef bk ok
    by (auto simp: commit_def init_effect_def reread_def in_step_def Let_def groups_or_none_def generate_canonical)
qed

lemma commits_settle:
  assumes "in_step s" "visual_ok cfg" "rules_ok gs"
  shows "\<exists>s'. commits 2 (s\<lparr>ed_visualConfig := Some cfg, ed_requestRuleGroups := gs\<rparr>) = Inr s' \<and> in_step s' \<and>
    ed_visualConfig s' \<in> {Some cfg, Some (canonical cfg)} \<and> ed_requestRuleGroups s' = gs \<and>
    ed_billingExpr s' = generateExprFromVisualConfig (Some cfg) \<and> ed_requestRuleExpr s' = buildRequestRuleExpr gs"
proof -
  define n where "n = s\<lparr>ed_visualConfig := Some cfg, ed_requestRuleGroups := gs,
    ed_billingExpr := generateExprFromVisualConfig (Some cfg), ed_requestRuleExpr := buildRequestRuleExpr gs\<rparr>"
  have c: "commit (s\<lparr>ed_visualConfig := Some cfg, ed_requestRuleGroups := gs\<rparr>) = Inr n"
    unfolding n_def by (rule commit_changed [OF assms(1)])
  have "\<exists>s'. commit n = Inr s' \<and> in_step s' \<and> ed_visualConfig s' = Some (reread n cfg) \<and>
      ed_requestRuleGroups s' = ed_requestRuleGroups n \<and> ed_billingExpr s' = ed_billingExpr n \<and> ed_requestRuleExpr s' = ed_requestRuleExpr n"
    by (rule commit_reread) (use assms in \<open>simp_all add: n_def in_step_def\<close>)
  then obtain s' where s': "commit n = Inr s'" "in_step s'" "ed_visualConfig s' = Some (reread n cfg)" "ed_requestRuleGroups s' = gs"
    "ed_billingExpr s' = generateExprFromVisualConfig (Some cfg)" "ed_requestRuleExpr s' = buildRequestRuleExpr gs"
    by (auto simp: n_def)
  have "commits 2 (s\<lparr>ed_visualConfig := Some cfg, ed_requestRuleGroups := gs\<rparr>) = Inr s'"
    by (simp add: numeral_2_eq_2 c s'(1))
  moreover have "ed_visualConfig s' \<in> {Some cfg, Some (canonical cfg)}" using s'(3) by (simp add: reread_def)
  ultimately show ?thesis using s' by blast
qed

section \<open>Opening the editor\<close>

definition opened :: "jstring \<Rightarrow> jstring \<Rightarrow> jstring \<Rightarrow> js_error + editor" where
  "opened name expr rules = (case TieredPricingEditor name expr rules of Inl e \<Rightarrow> Inl e | Inr s \<Rightarrow> commit s)"

lemma opened_state:
  assumes "config_ok cfg" "rules_ok gs"
  shows "opened name (generateExprFromVisualConfig (Some cfg)) (buildRequestRuleExpr gs) = Inr
    \<lparr>ed_editorMode = Visual, ed_visualConfig = Some cfg,
     ed_rawExpr = combineBillingExpr (generateExprFromVisualConfig (Some cfg)) (buildRequestRuleExpr gs),
     ed_requestRuleGroups = gs, ed_initRef = False,
     ed_exprDeps = Some (generateExprFromVisualConfig (Some cfg), buildRequestRuleExpr gs), ed_nameDep = Some name, ed_modelName = name,
     ed_billingExpr = generateExprFromVisualConfig (Some cfg), ed_requestRuleExpr = buildRequestRuleExpr gs\<rparr>"
proof -
  let ?e = "generateExprFromVisualConfig (Some cfg)" and ?r = "buildRequestRuleExpr gs"
  let ?s = "\<lparr>ed_editorMode = Visual, ed_visualConfig = Some cfg, ed_rawExpr = combineBillingExpr ?e ?r, ed_requestRuleGroups = gs,
    ed_initRef = False, ed_exprDeps = None, ed_nameDep = None, ed_modelName = name, ed_billingExpr = ?e, ed_requestRuleExpr = ?r\<rparr>"
  have "TieredPricingEditor name ?e ?r = Inr ?s"
    using parse_generate [OF assms(1)] rule_text.read_back [OF assms(2)] by (simp add: TieredPricingEditor_def groups_or_none_def)
  moreover have "canUseVisualRules ?s = Inr True" by (rule rules_usable [OF assms(2)]) simp
  ultimately show ?thesis
    using parse_generate [OF assms(1)] rule_text.read_back [OF assms(2)]
    by (simp add: opened_def commit_def effectiveExpr_def init_effect_def Let_def groups_or_none_def)
qed

lemma opened_in_step:
  assumes "config_ok cfg" "rules_ok gs"
  shows "\<exists>s. opened name (generateExprFromVisualConfig (Some cfg)) (buildRequestRuleExpr gs) = Inr s \<and> in_step s \<and>
    ed_visualConfig s = Some cfg \<and> ed_requestRuleGroups s = gs"
  using assms config_visual_ok by (simp add: opened_state in_step_def)

text \<open>An unreadable rule, entered while the editor has not yet read the expressions back.\<close>

lemma unread_steps:
  assumes "in_step s" "\<not> ed_initRef s" "ed_visualConfig s = Some cfg" "config_ok cfg" "list_all printable_group gs" "list_ex unread gs"
    "buildRequestRuleExpr gs \<noteq> ed_requestRuleExpr s"
  shows "\<exists>s'. commits 3 (handleRuleGroupsChange s gs) = Inr s' \<and> ed_requestRuleGroups s' = [] \<and> ed_requestRuleExpr s' = [] \<and>
    ed_billingExpr s' = generateExprFromVisualConfig (Some cfg)"
proof -
  let ?e = "generateExprFromVisualConfig (Some cfg)" and ?r = "buildRequestRuleExpr gs"
  have none: "tryParseRequestRuleExpr ?r = Inr None" using rules_read [OF assms(5)] assms(6) by (simp add: unread_def [abs_def])
  have use': "ed_requestRuleExpr t = ?r \<Longrightarrow> canUseVisualRules t = Inr (?r = [])" for t
    using none by (simp add: canUseVisualRules_def)
  have "handleRuleGroupsChange s gs = s\<lparr>ed_visualConfig := Some cfg, ed_requestRuleGroups := gs\<rparr>"
    using assms(3) by (cases s) (simp add: handleRuleGroupsChange_def)
  then have 1: "commit (handleRuleGroupsChange s gs) =
      Inr (s\<lparr>ed_visualConfig := Some cfg, ed_requestRuleGroups := gs, ed_billingExpr := ?e, ed_requestRuleExpr := ?r\<rparr>)"
    using commit_changed [OF assms(1)] by simp
  have 2: "commit (s\<lparr>ed_visualConfig := Some cfg, ed_requestRuleGroups := gs, ed_billingExpr := ?e, ed_requestRuleExpr := ?r\<rparr>) =
      Inr (s\<lparr>ed_visualConfig := Some cfg, ed_requestRuleGroups := [], ed_billingExpr := ?e, ed_requestRuleExpr := ?r,
        ed_initRef := True, ed_rawExpr := combineBillingExpr ?e ?r, ed_exprDeps := Some (?e, ?r)\<rparr>)" (is "commit ?s = _")
    using use' [of ?s] none parse_generate [OF assms(4)] assms(1,2,7)
    by (cases s) (auto simp: commit_def effectiveExpr_def init_effect_def in_step_def Let_def groups_or_none_def)
  have 3: "commit (s\<lparr>ed_visualConfig := Some cfg, ed_requestRuleGroups := [], ed_billingExpr := ?e, ed_requestRuleExpr := ?r,
        ed_initRef := True, ed_rawExpr := combineBillingExpr ?e ?r, ed_exprDeps := Some (?e, ?r)\<rparr>) =
      Inr (s\<lparr>ed_visualConfig := Some cfg, ed_requestRuleGroups := [], ed_billingExpr := ?e, ed_requestRuleExpr := [],
        ed_initRef := True, ed_rawExpr := combineBillingExpr ?e ?r, ed_exprDeps := Some (?e, ?r)\<rparr>)" (is "commit ?t = _")
    using use' [of ?t] assms(1)
    by (cases s) (auto simp: commit_def effectiveExpr_def in_step_def Let_def buildRequestRuleExpr_def nonempty_def)
  show ?thesis by (simp add: numeral_3_eq_3 1 2 3)
qed

section \<open>What the presets stand for\<close>

definition presets :: "preset list" where
  "presets = concat (map snd PRESET_GROUPS)"

definition bound :: "string \<Rightarrow> string \<Rightarrow> decimal \<Rightarrow> tier_condition_input" where
  "bound x o' d = \<lparr>ti_var = js x, ti_op = js o', ti_value = NumberValue (Some d)\<rparr>"

definition tier_with :: "string \<Rightarrow> tier_condition_input list \<Rightarrow> decimal \<Rightarrow> decimal \<Rightarrow> (string \<times> decimal) list \<Rightarrow> visual_tier" where
  "tier_with label cs ic oc extras =
     (let price = (\<lambda>x. case map_of extras x of Some d \<Rightarrow> Some d | None \<Rightarrow> Some (0, 0)) in
      \<lparr>vt_label = js label, vt_conditions = cs, vt_input_unit_cost = Some ic, vt_output_unit_cost = Some oc,
       vt_cache_mode = (if positive (price ''cc1h'') then CACHE_MODE_TIMED else CACHE_MODE_GENERIC),
       vt_cache_read_unit_cost = price ''cr'', vt_cache_create_unit_cost = price ''cc'', vt_cache_create_1h_unit_cost = price ''cc1h'',
       vt_image_unit_cost = price ''img'', vt_image_output_unit_cost = price ''img_o'', vt_audio_input_unit_cost = price ''ai'',
       vt_audio_output_unit_cost = price ''ao''\<rparr>)"

text \<open>The configurations of the presets, in their order.\<close>

definition preset_configs :: "visual_config list" where
  "preset_configs =
    [
     \<lparr>vc_tiers = [tier_with ''base'' [] (2, 0) (4, 0) []]\<rparr>,
     \<lparr>vc_tiers = [tier_with ''base'' [] (5, 0) (25, 0) [(''cr'', (5, -1)), (''cc'', (625, -2)), (''cc1h'', (1, 1))]]\<rparr>,
     \<lparr>vc_tiers = [tier_with ''standard'' [bound ''len'' ''<='' (272, 3)] (25, -1) (15, 0) [(''cr'', (25, -2))],
       tier_with ''long_context'' [] (5, 0) (225, -1) [(''cr'', (5, -1))]]\<rparr>,
     \<lparr>vc_tiers = [tier_with ''standard'' [bound ''len'' ''<='' (2, 5)] (3, 0) (15, 0) [(''cr'', (3, -1)), (''cc'', (375, -2)), (''cc1h'', (6, 0))],
       tier_with ''long_context'' [] (6, 0) (225, -1) [(''cr'', (6, -1)), (''cc'', (75, -1)), (''cc1h'', (12, 0))]]\<rparr>,
     \<lparr>vc_tiers = [tier_with ''short'' [bound ''len'' ''<='' (32, 3)] (12, -1) (6, 0) [(''cr'', (24, -2)), (''cc'', (15, -1))],
       tier_with ''mid'' [bound ''len'' ''<='' (128, 3)] (24, -1) (12, 0) [(''cr'', (48, -2)), (''cc'', (3, 0))],
       tier_with ''long'' [] (3, 0) (15, 0) [(''cr'', (6, -1)), (''cc'', (375, -2))]]\<rparr>,
     \<lparr>vc_tiers = [tier_with ''short_output'' [bound ''len'' ''<'' (32, 3), bound ''c'' ''<'' (2, 2)] (8, -1) (2, 0) [(''cr'', (16, -2))],
       tier_with ''long_output'' [bound ''len'' ''<'' (32, 3), bound ''c'' ''>='' (2, 2)] (8, -1) (6, 0) [(''cr'', (16, -2))],
       tier_with ''mid_context'' [] (12, -1) (8, 0) [(''cr'', (24, -2))]]\<rparr>,
     \<lparr>vc_tiers = [tier_with ''discount'' [bound ''len'' ''<='' (32, 3), bound ''c'' ''<='' (2, 2)] (8, -1) (2, 0) [(''cr'', (16, -2)), (''cc'', (17, -2))],
       tier_with ''short'' [bound ''len'' ''<='' (32, 3)] (8, -1) (8, 0) [(''cr'', (16, -2)), (''cc'', (17, -2))],
       tier_with ''mid'' [bound ''len'' ''<='' (128, 3)] (12, -1) (16, 0) [(''cr'', (16, -2)), (''cc'', (17, -2))],
       tier_with ''long'' [] (24, -1) (24, 0) [(''cr'', (16, -2)), (''cc'', (17, -2))]]\<rparr>,
     \<lparr>vc_tiers = [tier_with ''base'' [] (2, 0) (8, 0) [(''img'', (25, -1))]]\<rparr>,
     \<lparr>vc_tiers = [tier_with ''base'' [] (3, -1) (25, -1) [(''cr'', (3, -2)), (''ai'', (1, 0))]]\<rparr>,
     \<lparr>vc_tiers = [tier_with ''base'' [] (2, 0) (12, 0) [(''img_o'', (12, 1))]]\<rparr>,
     \<lparr>vc_tiers = [tier_with ''base'' [] (43, -2) (306, -2) [(''img'', (78, -2)), (''ai'', (381, -2)), (''ao'', (1511, -2))]]\<rparr>,
     \<lparr>vc_tiers = [tier_with ''base'' [] (5, 0) (25, 0) [(''cr'', (5, -1)), (''cc'', (625, -2)), (''cc1h'', (1, 1))]]\<rparr>,
     \<lparr>vc_tiers = [tier_with ''standard'' [bound ''len'' ''<='' (272, 3)] (25, -1) (15, 0) [(''cr'', (25, -2))],
       tier_with ''long_context'' [] (5, 0) (225, -1) [(''cr'', (5, -1))]]\<rparr>,
     \<lparr>vc_tiers = [tier_with ''base'' [] (3, 0) (15, 0) []]\<rparr>,
     \<lparr>vc_tiers = [tier_with ''base'' [] (3, 0) (15, 0) []]\<rparr>
    ]"

definition preset_stands :: "preset \<Rightarrow> visual_config \<Rightarrow> bool" where
  "preset_stands p cfg \<longleftrightarrow> tryParseVisualConfig (Some (pr_expr p)) = Some cfg \<and> config_ok cfg \<and> rules_ok (pr_requestRules p)"

lemma preset_configs_ok: "list_all config_ok preset_configs" "list_all (\<lambda>p. rules_ok (pr_requestRules p)) presets"
  by code_simp+

text \<open>All but one are printed as they are written; that one has a price \<open>1.0\<close>.\<close>

lemma preset_texts:
  "list_all (\<lambda>i. i = 8 \<or> pr_expr (presets ! i) = generateExprFromVisualConfig (Some (preset_configs ! i))) [0..<15]"
  by code_simp

lemma preset_lengths: "length presets = 15" "length preset_configs = 15"
  by code_simp+

lemma preset_other: "tryParseVisualConfig (Some (pr_expr (presets ! 8))) = Some (preset_configs ! 8)"
  by code_simp

lemma presets_stand: "list_all2 preset_stands presets preset_configs"
  unfolding list_all2_conv_all_nth
proof (intro conjI allI impI)
  fix i assume i: "i < length presets"
  then have ok: "config_ok (preset_configs ! i)" "rules_ok (pr_requestRules (presets ! i))"
    using preset_configs_ok preset_lengths by (auto simp: list_all_length)
  have "tryParseVisualConfig (Some (pr_expr (presets ! i))) = Some (preset_configs ! i)"
  proof (cases "i = 8")
    case False
    then have "pr_expr (presets ! i) = generateExprFromVisualConfig (Some (preset_configs ! i))"
      using preset_texts i preset_lengths unfolding list_all_iff by auto
    then show ?thesis using parse_generate [OF ok(1)] by simp
  qed (simp add: preset_other)
  then show "preset_stands (presets ! i) (preset_configs ! i)" using ok by (simp add: preset_stands_def)
qed (simp add: preset_lengths)

lemma presetE:
  assumes "p \<in> set presets"
  obtains cfg where "preset_stands p cfg"
  using presets_stand assms by (metis list_all2_conv_all_nth in_set_conv_nth)

text \<open>A preset with the rules that are there already, or once the editor has read the expressions back.\<close>

lemma apply_form:
  assumes "preset_stands p cfg"
  shows "applyPreset s p = s\<lparr>ed_rawExpr := or_expr (combineBillingExpr (pr_expr p) (buildRequestRuleExpr (pr_requestRules p))) (pr_expr p),
    ed_visualConfig := Some cfg, ed_editorMode := Visual, ed_requestRuleGroups := pr_requestRules p,
    ed_requestRuleExpr := buildRequestRuleExpr (pr_requestRules p)\<rparr>"
  using assms by (simp add: applyPreset_def preset_stands_def Let_def)

lemma commit_preset:
  assumes "in_step s" "preset_stands p cfg"
    "ed_initRef s \<or> buildRequestRuleExpr (pr_requestRules p) = ed_requestRuleExpr s"
  shows "commit (applyPreset s p) = Inr ((applyPreset s p)\<lparr>ed_billingExpr := generateExprFromVisualConfig (Some cfg),
    ed_exprDeps := Some (ed_billingExpr s, buildRequestRuleExpr (pr_requestRules p))\<rparr>)"
proof -
  have gs: "rules_ok (pr_requestRules p)" using assms(2) by (simp add: preset_stands_def)
  have "canUseVisualRules (applyPreset s p) = Inr True"
    by (rule rules_usable [OF gs]) (simp add: apply_form [OF assms(2)])
  moreover have "effectiveExpr (applyPreset s p) = Inr (generateExprFromVisualConfig (Some cfg))"
    by (simp add: effectiveExpr_def apply_form [OF assms(2)])
  ultimately show ?thesis
    using assms(1,3) unfolding commit_def apply_form [OF assms(2)]
    by (cases s) (auto simp: in_step_def init_effect_def Let_def)
qed

lemma preset_settles:
  assumes "in_step s" "preset_stands p cfg"
    "ed_initRef s \<or> buildRequestRuleExpr (pr_requestRules p) = ed_requestRuleExpr s"
  shows "\<exists>s'. commits 2 (applyPreset s p) = Inr s' \<and> in_step s' \<and> ed_visualConfig s' = Some cfg \<and>
    ed_requestRuleGroups s' = pr_requestRules p \<and> ed_billingExpr s' = generateExprFromVisualConfig (Some cfg)"
proof -
  define n where "n = (applyPreset s p)\<lparr>ed_billingExpr := generateExprFromVisualConfig (Some cfg),
    ed_exprDeps := Some (ed_billingExpr s, buildRequestRuleExpr (pr_requestRules p))\<rparr>"
  have ok: "config_ok cfg" "rules_ok (pr_requestRules p)" using assms(2) by (simp_all add: preset_stands_def)
  have f: "ed_visualConfig n = Some cfg" "ed_requestRuleGroups n = pr_requestRules p"
    "ed_billingExpr n = generateExprFromVisualConfig (Some cfg)" by (simp_all add: n_def apply_form [OF assms(2)])
  have "\<exists>s'. commit n = Inr s' \<and> in_step s' \<and> ed_visualConfig s' = Some (reread n cfg) \<and>
      ed_requestRuleGroups s' = ed_requestRuleGroups n \<and> ed_billingExpr s' = ed_billingExpr n \<and> ed_requestRuleExpr s' = ed_requestRuleExpr n"
    by (rule commit_reread) (use assms(1) ok config_visual_ok [OF ok(1)] in \<open>simp_all add: n_def apply_form [OF assms(2)] in_step_def\<close>)
  then obtain s' where "commit n = Inr s'" "in_step s'" "ed_visualConfig s' = Some cfg" "ed_requestRuleGroups s' = pr_requestRules p"
    "ed_billingExpr s' = generateExprFromVisualConfig (Some cfg)"
    using canonical_fixed [OF ok(1)] f by (auto simp: reread_def)
  then show ?thesis using commit_preset [OF assms] by (simp add: numeral_2_eq_2 n_def)
qed

text \<open>A preset that changes the rules, before the editor has read the expressions back: the effect reads the old prices.\<close>

lemma preset_overwritten:
  assumes "in_step s" "ed_visualConfig s = Some old" "config_ok old" "\<not> ed_initRef s" "preset_stands p cfg"
    "buildRequestRuleExpr (pr_requestRules p) \<noteq> ed_requestRuleExpr s"
  shows "\<exists>s'. commits 2 (applyPreset s p) = Inr s' \<and> ed_visualConfig s' = Some old \<and> ed_editorMode s' = Visual \<and>
    ed_billingExpr s' = generateExprFromVisualConfig (Some old) \<and> ed_requestRuleExpr s' = buildRequestRuleExpr (pr_requestRules p) \<and>
    ed_requestRuleGroups s' = pr_requestRules p"
proof -
  let ?r = "buildRequestRuleExpr (pr_requestRules p)" and ?o = "generateExprFromVisualConfig (Some old)"
  have ok: "config_ok cfg" "rules_ok (pr_requestRules p)" using assms(5) by (simp_all add: preset_stands_def)
  define n where "n = (applyPreset s p)\<lparr>ed_visualConfig := Some old, ed_initRef := True, ed_rawExpr := combineBillingExpr ?o ?r,
    ed_exprDeps := Some (?o, ?r), ed_billingExpr := generateExprFromVisualConfig (Some cfg)\<rparr>"
  have u: "canUseVisualRules t = Inr True" if "ed_requestRuleExpr t = ?r" for t using rules_usable [OF ok(2)] that by blast
  have 1: "commit (applyPreset s p) = Inr n"
    using assms(1,2,4,6) u [of "applyPreset s p"] parse_generate [OF assms(3)] rule_text.read_back [OF ok(2)]
    unfolding commit_def n_def apply_form [OF assms(5)]
    by (cases s) (auto simp: in_step_def effectiveExpr_def init_effect_def Let_def groups_or_none_def)
  have 2: "\<exists>s'. commit n = Inr s' \<and> ed_visualConfig s' = Some old \<and> ed_editorMode s' = Visual \<and> ed_billingExpr s' = ?o \<and>
      ed_requestRuleExpr s' = ?r \<and> ed_requestRuleGroups s' = pr_requestRules p"
    using assms(1) u [of n] unfolding commit_def n_def apply_form [OF assms(5)]
    by (auto simp: in_step_def effectiveExpr_def init_effect_def Let_def)
  show ?thesis using 1 2 by (auto simp: numeral_2_eq_2)
qed

section \<open>Switching the mode\<close>

text \<open>Labels without parentheses; one tier without conditions, or several.\<close>

definition unnested :: "visual_config \<Rightarrow> bool" where
  "unnested cfg \<longleftrightarrow> list_all (\<lambda>t. 40 \<notin> set (vt_label t) \<and> 41 \<notin> set (vt_label t)) (vc_tiers cfg) \<and>
     (length (vc_tiers cfg) = 1 \<longrightarrow> vt_conditions (hd (vc_tiers cfg)) = [])"

lemma split_plain:
  assumes "40 \<notin> set a" "41 \<notin> set a" "42 \<notin> set a" "r = [] \<or> hd r \<noteq> 42"
  shows "split_top_level (js '' * '') 0 cur (a @ r) = split_top_level (js '' * '') 0 (rev a @ cur) r"
  using assms
proof (induction a arbitrary: cur)
  case (Cons c a)
  have "take (length (js '' * '')) (c # a @ r) \<noteq> js '' * ''"
    using Cons.prems by (cases a; cases r) (auto simp: js_eval)
  then show ?case using Cons by (simp add: split_top_level.simps(2))
qed simp

lemma numeral_plain: "number_text n \<Longrightarrow> 40 \<notin> set n \<and> 41 \<notin> set n"
  using number_unit_not by (auto simp: number_text_def numerals_def list_all_iff)

lemma price_plain: "40 \<notin> set x \<Longrightarrow> 41 \<notin> set x \<Longrightarrow> 40 \<notin> set (price_text x (number_to_string d)) \<and> 41 \<notin> set (price_text x (number_to_string d))"
  using numeral_plain [OF number_to_string_text [of d]] by (simp add: price_text_def)

lemma variable_plain: "variable x \<Longrightarrow> 40 \<notin> set x \<and> 41 \<notin> set x"
  by (auto simp: variable_def list_all_iff is_word_def is_digit_def)

lemma extra_plain: "list_all variable (extra_names es) \<Longrightarrow> 40 \<notin> set (extra_text es) \<and> 41 \<notin> set (extra_text es)"
proof (induction es)
  case (Cons e es)
  obtain i x d where e: "e = (i, x, d)" by (cases e)
  have "40 \<notin> set x \<and> 41 \<notin> set x" using Cons.prems variable_plain by (simp add: e)
  then show ?case using Cons price_plain [of x d] by (simp add: e extra_text_Cons term_text_def)
qed (simp add: extra_text_def)

lemma body_plain: "40 \<notin> set (buildTierBodyExpr t)" "41 \<notin> set (buildTierBodyExpr t)"
proof -
  have "40 \<notin> set (extra_text (tier_extras 0 t)) \<and> 41 \<notin> set (extra_text (tier_extras 0 t))"
    using tier_extras_ok [of 0 t] by (intro extra_plain) (simp add: extras_ok_def)
  then show "40 \<notin> set (buildTierBodyExpr t)" "41 \<notin> set (buildTierBodyExpr t)"
    using price_plain [of "[112]"] price_plain [of "[99]"] by (simp_all add: body_text [of t 0] term_text_def)
qed

lemma condition_plain: "condition_ok c \<Longrightarrow> 40 \<notin> set (condition_text c) \<and> 41 \<notin> set (condition_text c) \<and> 42 \<notin> set (condition_text c)"
proof -
  assume "condition_ok c"
  then obtain x o' d where *: "x \<in> set condition_vars" "o' \<in> set condition_ops" "list_all bound_unit (number_to_string d)"
    "condition_text c = x @ 32 # o' @ 32 # number_to_string d"
    by (elim condition_okE) auto
  have "40 \<notin> set (number_to_string d) \<and> 41 \<notin> set (number_to_string d) \<and> 42 \<notin> set (number_to_string d)"
    using *(3) by (auto simp: list_all_iff bound_unit_def is_digit_def js_eval)
  moreover have "40 \<notin> set x \<and> 41 \<notin> set x \<and> 42 \<notin> set x" using *(1) by (auto simp: js_eval)
  moreover have "40 \<notin> set o' \<and> 41 \<notin> set o' \<and> 42 \<notin> set o'" using *(2) by (auto simp: js_eval)
  ultimately show ?thesis by (simp add: *(4))
qed

lemma conjunction_plain:
  "list_all condition_ok cs \<Longrightarrow> 40 \<notin> set (conjunction cs) \<and> 41 \<notin> set (conjunction cs) \<and> 42 \<notin> set (conjunction cs)"
proof (induction cs)
  case (Cons c cs)
  then show ?case using condition_plain [of c] by (cases "cs = []") (simp_all add: join_Cons js_eval)
qed simp

text \<open>A part is a text without parentheses and products, and one pair of parentheses.\<close>

definition part_like :: "jstring \<Rightarrow> bool" where
  "part_like s \<longleftrightarrow> (\<exists>a b. s = a @ 40 # b @ [41] \<and> matched b \<and> 40 \<notin> set a \<and> 41 \<notin> set a \<and> 42 \<notin> set a \<and>
     a \<noteq> [] \<and> \<not> is_ws (hd a))"

lemma part_part_like:
  assumes "tier_ok t" "40 \<notin> set (vt_label t)" "41 \<notin> set (vt_label t)"
  shows "part_like (part t)"
proof -
  let ?c = "if vt_conditions t = [] then [] else conjunction (vt_conditions t) @ js '' ? ''"
  let ?b = "34 # vt_label t @ 34 # 44 # 32 # buildTierBodyExpr t"
  have cs: "list_all condition_ok (vt_conditions t)" using assms(1) by (simp add: tier_ok_def)
  have "part t = (?c @ js ''tier'') @ 40 # ?b @ [41]" by (simp add: part_def tier_call_def js_eval)
  moreover have "matched ?b" using assms(2,3) body_plain by (intro matched_plain) simp_all
  moreover have "40 \<notin> set (?c @ js ''tier'') \<and> 41 \<notin> set (?c @ js ''tier'') \<and> 42 \<notin> set (?c @ js ''tier'')"
    using conjunction_plain [OF cs] by (simp add: js_eval)
  moreover have "\<not> is_ws (hd (?c @ js ''tier''))"
    using conjunction_start [OF cs] by (auto simp: js_eval ascii_not_ws)
  moreover have "?c @ js ''tier'' \<noteq> []" by (simp add: js_eval)
  ultimately show ?thesis unfolding part_like_def by blast
qed

lemma split_part_like:
  assumes "part_like s" "r = [] \<or> hd r \<noteq> 42"
  shows "split_top_level (js '' * '') 0 cur (s @ r) = split_top_level (js '' * '') 0 (rev s @ cur) r"
proof -
  obtain a b where s: "s = a @ 40 # b @ [41]" "matched b" "40 \<notin> set a" "41 \<notin> set a" "42 \<notin> set a"
    using assms(1) by (auto simp: part_like_def)
  have sep: "js '' * '' \<noteq> []" "hd (js '' * '') = 32" by (simp_all add: js_eval)
  show ?thesis
    using split_plain [OF s(3-5), of "40 # b @ 41 # r" cur] split_factor [OF s(2) sep, of "rev a @ cur" r] by (simp add: s(1))
qed

lemma part_like_ends:
  assumes "part_like p"
  shows "matched p" "p \<noteq> []" "hd p \<noteq> 40" "hd p \<noteq> 42" "last p = 41" "\<not> is_ws (hd p)"
proof -
  obtain a b where p: "p = a @ 40 # b @ [41]" "matched b" "40 \<notin> set a" "41 \<notin> set a" "42 \<notin> set a" "a \<noteq> []" "\<not> is_ws (hd a)"
    using assms by (auto simp: part_like_def)
  show "matched p" unfolding p(1) by (rule matched_append [OF matched_plain [OF p(3,4)] matched_parens [OF p(2)]])
  show "p \<noteq> []" "hd p \<noteq> 40" "hd p \<noteq> 42" "last p = 41" "\<not> is_ws (hd p)"
    using p(3-7) by (cases a; auto simp: p(1))+
qed

lemma split_parts_like:
  assumes "list_all part_like ps" "ps \<noteq> []"
  shows "split_top_level (js '' * '') 0 cur (join (js '' : '') ps) = [trim (rev cur @ join (js '' : '') ps)]"
  using assms
proof (induction ps arbitrary: cur)
  case (Cons p ps)
  have p: "part_like p" using Cons.prems by simp
  show ?case
  proof (cases "ps = []")
    case True
    then show ?thesis using split_part_like [OF p, of "[]" cur] by simp
  next
    case False
    then have h: "hd (join (js '' : '') ps) \<noteq> 42"
      using Cons.prems part_like_ends(2,4) by (cases ps) (auto simp: join_concat_Cons)
    have "split_top_level (js '' * '') 0 cur (p @ js '' : '' @ join (js '' : '') ps) =
        split_top_level (js '' * '') 0 (rev (js '' : '') @ rev p @ cur) (join (js '' : '') ps)"
      using split_part_like [OF p, of "js '' : '' @ join (js '' : '') ps" cur]
        split_plain [of "js '' : ''" "join (js '' : '') ps" "rev p @ cur"] h
      by (simp add: js_eval)
    then show ?thesis using Cons.IH Cons.prems False by (simp add: join_Cons)
  qed
qed simp

lemma parts_ends:
  assumes "list_all part_like ps" "ps \<noteq> []"
  shows "matched (join (js '' : '') ps)" "join (js '' : '') ps \<noteq> []" "hd (join (js '' : '') ps) \<noteq> 40" "last (join (js '' : '') ps) = 41"
    "\<not> is_ws (hd (join (js '' : '') ps))"
proof -
  have one: "matched p \<and> p \<noteq> [] \<and> hd p \<noteq> 40 \<and> last p = 41 \<and> \<not> is_ws (hd p)" if "part_like p" for p
    using that part_like_ends by simp
  have "matched (js '' : '')" by (rule matched_plain) (simp_all add: js_eval)
  then have "matched (join (js '' : '') ps) \<and> join (js '' : '') ps \<noteq> [] \<and> hd (join (js '' : '') ps) \<noteq> 40 \<and>
      last (join (js '' : '') ps) = 41 \<and> \<not> is_ws (hd (join (js '' : '') ps))"
    using assms
  proof (induction ps)
    case (Cons p ps)
    then show ?case using one [of p] by (cases "ps = []") (auto simp: join_Cons intro!: matched_append)
  qed simp
  then show "matched (join (js '' : '') ps)" "join (js '' : '') ps \<noteq> []" "hd (join (js '' : '') ps) \<noteq> 40"
    "last (join (js '' : '') ps) = 41" "\<not> is_ws (hd (join (js '' : '') ps))" by simp_all
qed

lemma generate_parts:
  assumes "config_ok cfg" "unnested cfg"
  shows "generateExprFromVisualConfig (Some cfg) = join (js '' : '') (map part (vc_tiers cfg))" "list_all part_like (map part (vc_tiers cfg))"
proof -
  obtain ts where cfg: "cfg = \<lparr>vc_tiers = ts\<rparr>" by (cases cfg)
  have ok: "ts \<noteq> []" "list_all tier_ok ts" "length ts = 1 \<or> vt_conditions (last ts) = []" using assms(1) by (simp_all add: cfg config_ok_def)
  show "generateExprFromVisualConfig (Some cfg) = join (js '' : '') (map part (vc_tiers cfg))"
  proof (cases "length ts = 1")
    case True
    then obtain t where t: "ts = [t]" by (cases ts) auto
    then show ?thesis using generate_one [of t] ok assms(2) by (simp add: cfg unnested_def)
  next
    case False
    moreover have "length ts > 1" using False ok(1) by (cases ts; cases "tl ts") auto
    ultimately show ?thesis using generate_many [OF ok(2)] ok(3) by (simp add: cfg)
  qed
  show "list_all part_like (map part (vc_tiers cfg))"
    using ok(2) assms(2) part_part_like by (simp add: cfg unnested_def list_all_iff)
qed

text \<open>The text is trimmed, has matched parentheses, is no rule and no product.\<close>

lemma generated_base:
  assumes "config_ok cfg" "unnested cfg"
  defines "e \<equiv> generateExprFromVisualConfig (Some cfg)"
  shows "trim e = e" "e \<noteq> []" "matched e" "tryParseRuleGroupFactor (40 # e @ [41]) = Inr None" "unwrapOuterParens e = e"
    "splitBillingExprAndRequestRules e = Inr \<lparr>se_billingExpr = e, se_requestRuleExpr = []\<rparr>"
proof -
  have ne: "map part (vc_tiers cfg) \<noteq> []" using assms(1) by (simp add: config_ok_def)
  note G = generate_parts [OF assms(1,2), folded e_def]
  note E = parts_ends [OF G(2) ne, folded G(1)]
  show tr: "trim e = e" using E by (intro trim_trimmed) (simp add: trimmed_def)
  show "e \<noteq> []" "matched e" using E by simp_all
  have "readings FACTOR_REGEX (40 # e @ [41]) = {}"
  proof -
    have "e \<noteq> u @ js '' ? '' @ n @ js '' : 1''" for u n using E(4) by (auto simp: js_eval)
    then show ?thesis unfolding readings_FACTOR by (auto simp: js_eval)
  qed
  then have "rx_exec FACTOR_REGEX (40 # e @ [41]) = None" using exec_None_readings [OF anchored_patterns(10)] by blast
  then show "tryParseRuleGroupFactor (40 # e @ [41]) = Inr None" by (simp add: tryParseRuleGroupFactor_def)
  have "\<not> hasFullOuterParens e" using E(2,3) by (cases e) (auto simp: hasFullOuterParens_def startsWith_def js_eval)
  then show "unwrapOuterParens e = e" unfolding unwrapOuterParens_def tr by (subst unwrap_loop.simps) simp
  have "splitTopLevelMultiply e = [e]"
    using split_parts_like [OF G(2) ne, of "[]"] tr E(2) by (simp add: splitTopLevelMultiply_def G(1) [symmetric] nonempty_def)
  then show "splitBillingExprAndRequestRules e = Inr \<lparr>se_billingExpr = e, se_requestRuleExpr = []\<rparr>"
    using tr E(2) by (simp add: splitBillingExprAndRequestRules_def)
qed

lemma split_whole:
  assumes "config_ok cfg" "unnested cfg" "rules_ok gs"
  shows "splitBillingExprAndRequestRules (or_expr (combineBillingExpr (generateExprFromVisualConfig (Some cfg)) (buildRequestRuleExpr gs))
      (generateExprFromVisualConfig (Some cfg))) =
    Inr \<lparr>se_billingExpr = generateExprFromVisualConfig (Some cfg), se_requestRuleExpr = buildRequestRuleExpr gs\<rparr>"
proof -
  define e where "e = generateExprFromVisualConfig (Some cfg)"
  note B = generated_base [OF assms(1,2), folded e_def]
  have c: "or_expr (combineBillingExpr e r) e = combineBillingExpr e r" for r
    using B(1,2) by (simp add: or_expr_def combineBillingExpr_def Let_def)
  show ?thesis
  proof (cases "gs = []")
    case True
    have "buildRequestRuleExpr [] = []" by (simp add: buildRequestRuleExpr_def nonempty_def)
    moreover have "combineBillingExpr e [] = e" using B(1,2) by (simp add: combineBillingExpr_def)
    ultimately show ?thesis unfolding e_def [symmetric] c using True B(6) by simp
  next
    case False
    have "\<not> list_ex unread gs" "list_all printable_group gs" using assms(3) by (simp_all add: rules_ok_def)
    then show ?thesis
      unfolding e_def [symmetric] c using split_combined [of e gs] B False by simp
  qed
qed

lemma canonical_unnested:
  assumes "unnested cfg"
  shows "unnested (canonical cfg)"
proof -
  have n: "40 \<notin> set (nat_str k)" "41 \<notin> set (nat_str k)" for k using nat_str_digits [of k] by (auto simp: is_digit_def)
  have l: "40 \<notin> set (vt_label (canonical_tier m i t)) \<and> 41 \<notin> set (vt_label (canonical_tier m i t))"
    if "40 \<notin> set (vt_label t) \<and> 41 \<notin> set (vt_label t)" for m i t
    using that n by (auto simp: canonical_tier_def label_or_def js_eval)
  have "list_all (\<lambda>t. 40 \<notin> set (vt_label t) \<and> 41 \<notin> set (vt_label t)) (vc_tiers (canonical cfg))"
    using assms l by (auto simp: canonical_def unnested_def list_all_length nth_enumerate_eq)
  moreover have "vt_conditions (hd (vc_tiers (canonical cfg))) = []" if "length (vc_tiers (canonical cfg)) = 1"
    using that assms by (cases "vc_tiers cfg") (auto simp: canonical_def unnested_def canonical_tier_def)
  ultimately show ?thesis by (simp add: unnested_def)
qed

lemma switch_and_back:
  assumes "ed_visualConfig s = Some cfg" "visual_ok cfg" "unnested cfg" "rules_ok (ed_requestRuleGroups s)"
  shows "handleModeChange (snd (handleModeChange s Raw)) Visual =
    (None, s\<lparr>ed_rawExpr := combineBillingExpr (generateExprFromVisualConfig (Some cfg)) (buildRequestRuleExpr (ed_requestRuleGroups s)),
       ed_visualConfig := Some (canonical cfg), ed_requestRuleExpr := buildRequestRuleExpr (ed_requestRuleGroups s), ed_editorMode := Visual\<rparr>)"
proof -
  have ok: "config_ok (canonical cfg)" "unnested (canonical cfg)" using canonical_ok [OF assms(2)] canonical_unnested [OF assms(3)] .
  note S = split_whole [OF ok assms(4), unfolded generate_canonical]
  have "trim (generateExprFromVisualConfig (Some cfg)) \<noteq> []"
    using generated_base(1,2) [OF ok] by (simp add: generate_canonical)
  then have "or_expr (combineBillingExpr (generateExprFromVisualConfig (Some cfg)) r) (generateExprFromVisualConfig (Some cfg)) =
      combineBillingExpr (generateExprFromVisualConfig (Some cfg)) r" for r
    by (simp add: or_expr_def combineBillingExpr_def Let_def)
  then show ?thesis
    using S config_text.read_back [OF assms(2)] rule_text.read_back [OF assms(4)] assms(1)
    by (cases s) (simp add: handleModeChange_def groups_or_none_def Let_def)
qed

section \<open>The properties\<close>

text \<open>C11: The visual editor changes the list of tiers as its buttons say, and what it prints is read back. The start is a
  configuration with labels without quotes, conditions on known variables with plain bounds and prices that are numbers, and the
  edits are those that keep to such labels, bounds and prices, on cards that are shown. Every configuration such edits reach survives
  normalising, its expression is read as its canonical form, and no tier gets more than two conditions if none had more at the start.
  The next edit has exactly its effect: a change of a card replaces that tier; adding a tier bounds a last tier without
  conditions and appends a fresh one; removing takes out that tier unless it is the only one; adding a condition appends one to
  that tier, and with two conditions \<open>onChange\<close> is not called.\<close>

theorem edits_read_back:
  assumes "edited start cfg" and "visual_ok start"
  shows "normalizeVisualConfig (Some cfg) = cfg \<and>
    tryParseVisualConfig (Some (generateExprFromVisualConfig (Some cfg))) = Some (canonical cfg) \<and>
    (list_all few_conditions (vc_tiers start) \<longrightarrow> list_all few_conditions (vc_tiers cfg)) \<and>
    (\<forall>e. visual_edit_ok cfg e \<longrightarrow>
      VisualEditor (Some cfg) e = map_option (\<lambda>ts. cfg\<lparr>vc_tiers := ts\<rparr>) (edited_tiers (vc_tiers cfg) e))"
  using edited_ok [OF assms] edited_few [OF assms] visual_config_normal config_text.read_back editor_effect by blast

text \<open>
  C10: The effects of the editor settle. Opened on the expressions of a canonical configuration and of rules that can be read back, it
  shows them. When the state agrees with the expressions of the sheet, a change to a configuration the expression can hold
  and to rules that can be read back needs two renders: after them the expressions of the sheet are the printed ones, the editor
  shows the change (or its canonical form, when the first effect has read it back), and a further render changes nothing.
\<close>

theorem editor_settles:
  assumes "config_ok cfg0" and "rules_ok gs0" and "in_step s" and "visual_ok cfg" and "rules_ok gs"
  shows "(\<exists>s0. opened name (generateExprFromVisualConfig (Some cfg0)) (buildRequestRuleExpr gs0) = Inr s0 \<and> in_step s0 \<and>
        ed_visualConfig s0 = Some cfg0 \<and> ed_requestRuleGroups s0 = gs0) \<and>
    (\<exists>s'. commits 2 (handleRuleGroupsChange (handleVisualChange s cfg) gs) = Inr s' \<and> in_step s' \<and> commit s' = Inr s' \<and>
        ed_visualConfig s' \<in> {Some cfg, Some (canonical cfg)} \<and> ed_requestRuleGroups s' = gs \<and>
        ed_billingExpr s' = generateExprFromVisualConfig (Some cfg) \<and> ed_requestRuleExpr s' = buildRequestRuleExpr gs)"
proof -
  have "handleRuleGroupsChange (handleVisualChange s cfg) gs = s\<lparr>ed_visualConfig := Some cfg, ed_requestRuleGroups := gs\<rparr>"
    by (simp add: handleRuleGroupsChange_def handleVisualChange_def)
  then show ?thesis
    using opened_in_step [OF assms(1,2)] commits_settle [OF assms(3-5)] in_step_settled by metis
qed

text \<open>
  C12: Switching to the expression and back keeps the rules and gives the canonical form of the configuration, without an exception,
  when the expression can hold the configuration, no label has a parenthesis, a single tier has no condition, and the rules can be
  read back.
\<close>

theorem mode_switch_roundtrip:
  assumes "ed_visualConfig s = Some cfg" and "visual_ok cfg" and "unnested cfg" and "rules_ok (ed_requestRuleGroups s)"
  shows "\<exists>s'. handleModeChange (snd (handleModeChange s Raw)) Visual = (None, s') \<and> ed_editorMode s' = Visual \<and>
    ed_visualConfig s' = Some (canonical cfg) \<and> ed_requestRuleGroups s' = ed_requestRuleGroups s \<and>
    ed_requestRuleExpr s' = buildRequestRuleExpr (ed_requestRuleGroups s)"
  using switch_and_back [OF assms] by simp

text \<open>
  C13: Every preset is read by the visual editor. It is applied to an editor whose state agrees with the expressions of the sheet, and
  either \<open>initRef\<close> is set, so that the first effect does not read the expressions again, or the rules of the preset are the
  ones the sheet has. Then it settles in two renders on the prices and the rules of the preset.
\<close>

theorem presets_apply:
  assumes "p \<in> set presets" and "in_step s" and "ed_initRef s \<or> buildRequestRuleExpr (pr_requestRules p) = ed_requestRuleExpr s"
  shows "\<exists>cfg s'. tryParseVisualConfig (Some (pr_expr p)) = Some cfg \<and> config_ok cfg \<and> commits 2 (applyPreset s p) = Inr s' \<and>
    in_step s' \<and> ed_visualConfig s' = Some cfg \<and> ed_requestRuleGroups s' = pr_requestRules p \<and>
    ed_billingExpr s' = generateExprFromVisualConfig (Some cfg)"
proof -
  obtain cfg where p: "preset_stands p cfg" using presetE [OF assms(1)] .
  then show ?thesis using preset_settles [OF assms(2) p assms(3)] by (auto simp: preset_stands_def)
qed

text \<open>C39: A preset that changes the rules does not change the prices of an editor that was just opened. The second effect clears
  \<open>initRef\<close> at the first render too, so the change of the rules makes the first effect read the old expression of the
  sheet back over the prices of the preset; the old prices stay, under the new rules.\<close>

theorem preset_prices_lost:
  assumes "config_ok cfg" and "rules_ok gs" and "opened name (generateExprFromVisualConfig (Some cfg)) (buildRequestRuleExpr gs) = Inr s"
    and "p \<in> set presets" and "buildRequestRuleExpr (pr_requestRules p) \<noteq> buildRequestRuleExpr gs"
  shows "\<exists>s'. commits 2 (applyPreset s p) = Inr s' \<and> ed_visualConfig s' = Some cfg \<and>
    ed_billingExpr s' = generateExprFromVisualConfig (Some cfg) \<and> ed_requestRuleExpr s' = buildRequestRuleExpr (pr_requestRules p)"
proof -
  obtain pc where p: "preset_stands p pc" using presetE [OF assms(4)] .
  have s: "in_step s" "ed_visualConfig s = Some cfg" "\<not> ed_initRef s" "ed_requestRuleExpr s = buildRequestRuleExpr gs"
    using assms(3) config_visual_ok [OF assms(1)] assms(2) by (auto simp: opened_state [OF assms(1,2)] in_step_def)
  show ?thesis using preset_overwritten [OF s(1,2) assms(1) s(3) p] assms(5) s(4) by auto
qed

text \<open>C40: The first rule entered in an editor that was just opened vanishes if it compares a parameter or looks into it: it is printed, the first
  effect reads the rules back, cannot, and takes that for no rules, which the fourth effect then writes to the sheet.\<close>

theorem guarded_rule_vanishes:
  assumes "config_ok cfg" and "opened name (generateExprFromVisualConfig (Some cfg)) [] = Inr s"
    and "list_all printable_group gs" and "list_ex unread gs"
  shows "\<exists>s'. commits 3 (handleRuleGroupsChange s gs) = Inr s' \<and> ed_requestRuleGroups s' = [] \<and> ed_requestRuleExpr s' = [] \<and>
    ed_billingExpr s' = generateExprFromVisualConfig (Some cfg)"
proof -
  have b: "buildRequestRuleExpr [] = []" "rules_ok []" by (simp_all add: buildRequestRuleExpr_def nonempty_def rules_ok_def)
  note O = opened_state [OF assms(1) b(2), of name, unfolded b(1)]
  have s: "in_step s" "ed_visualConfig s = Some cfg" "\<not> ed_initRef s" "ed_requestRuleExpr s = []"
    using assms(2) config_visual_ok [OF assms(1)] b by (auto simp: O in_step_def)
  have "tryParseRequestRuleExpr (buildRequestRuleExpr gs) \<noteq> tryParseRequestRuleExpr []"
    using rules_read [OF assms(3)] rule_text.read_back [OF b(2)] assms(4) by (simp add: b(1) unread_def [abs_def])
  then have "buildRequestRuleExpr gs \<noteq> ed_requestRuleExpr s" using s(4) by auto
  then show ?thesis using unread_steps [OF s(1,3,2) assms(1,3,4)] by blast
qed

subsection \<open>Witnesses\<close>

definition sample_editor :: editor where
  "sample_editor = \<lparr>ed_editorMode = Visual, ed_visualConfig = Some sample_config,
     ed_rawExpr = combineBillingExpr (generateExprFromVisualConfig (Some sample_config)) (buildRequestRuleExpr sample_rules),
     ed_requestRuleGroups = sample_rules, ed_initRef = False,
     ed_exprDeps = Some (generateExprFromVisualConfig (Some sample_config), buildRequestRuleExpr sample_rules),
     ed_nameDep = Some (js ''m''), ed_modelName = js ''m'', ed_billingExpr = generateExprFromVisualConfig (Some sample_config),
     ed_requestRuleExpr = buildRequestRuleExpr sample_rules\<rparr>"

lemma sample_rules_ok: "rules_ok sample_rules"
  using sample_printable(1,2) by (simp add: rules_ok_def)

lemma sample_in_step: "in_step sample_editor"
  using sample_config_ok(1) sample_rules_ok by (simp add: sample_editor_def in_step_def)

definition sample_added :: visual_config where
  "sample_added = the (VisualEditor (Some sample_config) AddTier)"

definition sample_edited :: visual_config where
  "sample_edited = the (VisualEditor (Some sample_added) (TierEdit 0 (PriceChange (js ''input_unit_cost'') (Some (2, 0)))))"

lemma sample_edited: "edited sample_config sample_edited"
proof -
  have "edited sample_config sample_added"
    by (rule edited_step [OF edited_start, where e = AddTier]) (simp_all add: sample_added_def VisualEditor_def)
  moreover have "visual_edit_ok sample_added (TierEdit 0 (PriceChange (js ''input_unit_cost'') (Some (2, 0))))"
    by code_simp
  ultimately show ?thesis
    by (rule edited_step) (simp add: sample_edited_def VisualEditor_def Let_def)
qed

lemma sample_edit_applies: "list_all few_conditions (vc_tiers sample_config)" "visual_edit_ok sample_edited (RemoveTier 1)"
  by code_simp+

theorem edits_read_back_witness:
  "tryParseVisualConfig (Some (generateExprFromVisualConfig (Some sample_edited))) = Some (canonical sample_edited) \<and>
   list_all few_conditions (vc_tiers sample_edited) \<and>
   VisualEditor (Some sample_edited) (RemoveTier 1) =
     map_option (\<lambda>ts. sample_edited\<lparr>vc_tiers := ts\<rparr>) (edited_tiers (vc_tiers sample_edited) (RemoveTier 1))"
  using edits_read_back [OF sample_edited sample_config_ok(1)] sample_edit_applies by blast

theorem editor_settles_witness:
  "\<exists>s'. commits 2 (handleRuleGroupsChange (handleVisualChange sample_editor createDefaultVisualConfig) []) = Inr s' \<and>
     commit s' = Inr s' \<and> ed_billingExpr s' = generateExprFromVisualConfig (Some createDefaultVisualConfig)"
  using editor_settles [OF sample_config_ok(2) sample_rules_ok sample_in_step default_config_ok(1), of "[]"]
  by (auto simp: rules_ok_def)

theorem mode_switch_roundtrip_witness:
  "\<exists>s'. handleModeChange (snd (handleModeChange sample_editor Raw)) Visual = (None, s') \<and>
     ed_visualConfig s' = Some (canonical sample_config) \<and> ed_requestRuleGroups s' = sample_rules"
proof -
  have "unnested sample_config" by code_simp
  then show ?thesis
    using mode_switch_roundtrip [of sample_editor sample_config] sample_config_ok(1) sample_rules_ok by (auto simp: sample_editor_def)
qed

lemma first_preset: "hd presets \<in> set presets"
  using preset_lengths(1) by (metis list.set_sel(1) list.size(3) zero_neq_numeral)

theorem presets_apply_witness:
  "\<exists>cfg s'. tryParseVisualConfig (Some (pr_expr (hd presets))) = Some cfg \<and>
     commits 2 (applyPreset (sample_editor\<lparr>ed_initRef := True\<rparr>) (hd presets)) = Inr s' \<and> ed_visualConfig s' = Some cfg"
proof -
  have "in_step (sample_editor\<lparr>ed_initRef := True\<rparr>)" using sample_in_step by (simp add: in_step_def)
  then show ?thesis using presets_apply [OF first_preset, of "sample_editor\<lparr>ed_initRef := True\<rparr>"] by auto
qed

lemma sample_opened:
  "opened (js ''m'') (generateExprFromVisualConfig (Some sample_config)) (buildRequestRuleExpr sample_rules) = Inr sample_editor"
  unfolding opened_state [OF sample_config_ok(2) sample_rules_ok] by (simp add: sample_editor_def)

theorem preset_prices_lost_witness:
  "\<exists>s'. commits 2 (applyPreset sample_editor (hd presets)) = Inr s' \<and> ed_visualConfig s' = Some sample_config \<and> ed_requestRuleExpr s' = []"
proof -
  have r: "pr_requestRules (hd presets) = []" "buildRequestRuleExpr [] = []" "buildRequestRuleExpr sample_rules \<noteq> []" by code_simp+
  show ?thesis using preset_prices_lost [OF sample_config_ok(2) sample_rules_ok sample_opened first_preset] r by auto
qed

theorem guarded_rule_vanishes_witness:
  "\<exists>s s'. opened (js ''m'') (generateExprFromVisualConfig (Some sample_config)) [] = Inr s \<and>
     commits 3 (handleRuleGroupsChange s sample_guarded) = Inr s' \<and> ed_requestRuleGroups s' = [] \<and> ed_requestRuleExpr s' = []"
proof -
  have b: "buildRequestRuleExpr [] = []" "rules_ok []" by (simp_all add: buildRequestRuleExpr_def nonempty_def rules_ok_def)
  obtain s where s: "opened (js ''m'') (generateExprFromVisualConfig (Some sample_config)) [] = Inr s"
    using opened_in_step [OF sample_config_ok(2) b(2), of "js ''m''"] by (auto simp: b(1))
  show ?thesis using guarded_rule_vanishes [OF sample_config_ok(2) s sample_printable(3,4)] s by blast
qed

end
