(* ===== verification/Spec2Isabelle.thy ===== *)
theory Spec2Isabelle
  imports Status_Codes Chat_State Flow_View Tier_Editor
begin

text \<open>
  A verification development for the web console of the gateway (\<open>src/web/default/src\<close>, called
  \<open>default\<close> below). The console is written in TypeScript; its components render the results of
  pure functions and of hooks that keep state. The development models these functions and hooks
  one by one, under the names of the source, and proves what they promise to their callers.

  \<^bold>\<open>Parts of the program and the theories that model them\<close>

  \<^item> \<open>Prelude\<close>, \<open>JS_Number\<close>, \<open>JSON\<close>, \<open>JS_Regex\<close>: the language and its standard library, as far as
    the sources use them. A string is a list of UTF-16 code units, a number a decimal, a JSON value
    a \<open>jsval\<close>; \<open>Map\<close> and \<open>Set\<close> keep insertion order; regular expressions are matched by
    backtracking, and \<open>rx_reads\<close> describes a pattern by the texts it reads. The contracts that
    several components rely on are the locales \<open>js_comparator\<close> (sorting), \<open>tallying\<close> (adding up
    records by key) and \<open>printed_form\<close> (data that is kept as text).
  \<^item> \<open>Status_Codes\<close>: \<open>lib/http-status-code-rules.ts\<close>, the rules an administrator types to say which
    status codes disable a channel or are retried.
  \<^item> \<open>Chat_Message\<close>, \<open>Chat_Streaming\<close>: \<open>features/playground/types.ts\<close> and \<open>lib/message/*\<close>. A message
    is the record \<open>message\<close>; the functions on one message come first, then those on the
    conversation, then the request body (\<open>lib/streaming/payload-builder.ts\<close>).
  \<^item> \<open>Chat_Session\<close>: the hooks \<open>use-chat-handler.ts\<close>, \<open>use-stream-request.ts\<close> and
    \<open>use-playground-conversation.ts\<close> as one state machine. The refs and states of the hooks are the
    fields of \<open>session\<close>, a callback is a branch of \<open>handle\<close>, and \<open>reachable\<close> are the states that
    sequences of events lead to. The hooks call the functions of \<open>Chat_Streaming\<close>.
  \<^item> \<open>Chat_Storage\<close>: \<open>lib/storage/*\<close>, what is kept in \<open>localStorage\<close> and how it is validated, repaired
    and cut to size. It prints and reads the messages of \<open>Chat_Message\<close> through \<open>JSON\<close>.
  \<^item> \<open>Chat_State\<close>: \<open>use-playground-state.ts\<close>, \<open>use-playground-options.ts\<close> and the functions they
    call; the page with its timers and its store as a state machine over \<open>Chat_Storage\<close>.
  \<^item> \<open>Flow\<close>: \<open>features/dashboard/lib/flow.ts\<close> and \<open>flow-selection.ts\<close>, the Sankey diagram of usage.
    \<open>Flow_Graph\<close> and \<open>Flow_View\<close> hold its properties.
  \<^item> \<open>Billing_Expr\<close>: \<open>features/pricing/lib/billing-expr.ts\<close>, the variables of a billing expression, the
    readers of its tiers and of its request rules, combining and splitting of the two parts, and the
    printers of the rule editor. An exception of a reader is \<open>Inl SyntaxError\<close>. \<open>Billing_Rules\<close> holds
    its properties.
  \<^item> \<open>Tier_Expr\<close>: \<open>features/pricing/lib/tier-expr.ts\<close>, the configurations of the visual editor, their
    printer and their reader. \<open>Tier_Rules\<close> holds their properties.
  \<^item> \<open>Tier_Editor\<close>: \<open>features/system-settings/models/tiered-pricing-editor.tsx\<close>, the editor over both. The
    states and refs of the component and the expressions of the sheet around it are the fields of
    \<open>editor\<close>, a render with its effects is \<open>commit\<close>, and the handlers have their names.

  \<^bold>\<open>What the lemmas show\<close>

  \<^item> Status codes: accepted texts have one canonical result for each set of codes, which prints
    and parses back; a text is rejected exactly for its invalid segments, and these are reported.
  \<^item> Messages: think tags are split exactly; an answer streamed in genuine deltas equals the answer
    received whole; loading repairs the last pending answer and nothing else.
  \<^item> Sessions: one open stream at most, no pending text without a timer, stopping and errors end
    the generation, what an aborted request still brings changes nothing, and the text does not depend on
    the timing of the flush timer under a stated condition on chunks. Two theorems show what the code
    does not guarantee: waiting text of an abandoned stream and a late answer reach the wrong question.
  \<^item> Storage and page: saving and loading are inverse within the limits, whatever is loaded is
    within the limits; with no save timer scheduled the store holds what the screen shows, and a page
    reopened then shows the same, within the stated limits.
  \<^item> Flow diagram: the graph refines sums over paths (\<open>path_sum\<close>), quantities are conserved, all
    columns have the same total and, unless a limit hides the rest, that of the summary, the limit keeps the
    largest nodes, masking hides names and nothing else, selection and filters are exact.
  \<^item> Billing expressions: request rules (\<open>rules_ok\<close>) and whole expressions are read back as they were
    printed, and what is read is well-typed; two theorems show the rules that are not read back and the
    texts on which the reader throws.
  \<^item> Visual editor: the expression of a configuration (\<open>visual_ok\<close>) is read back as its canonical form, edits
    within it keep this so and change exactly the tiers they name, the effects settle after two renders, switching the mode is undone by switching back,
    and every preset is readable. Two theorems show what the repeated initialisation loses: the prices of
    a preset and a rule that cannot be read.

  \<^bold>\<open>Parameters\<close>

  Code outside the repository is an argument of the definitions that use it: the validation library
  (\<open>z\<close>, with \<open>zod_documented\<close>), the quota of \<open>localStorage\<close>, the clock, \<open>nanoid\<close>, the translation
  function, \<open>localeCompare\<close>, the number format and the colour schemes of the chart library
  (\<open>flow_host\<close>). Each property with a hypothesis on a parameter has a witness with a concrete
  function in its place.

  \<^bold>\<open>Bounds and fuel\<close>

  The JSON reader has fuel twice the length of the text and one; \<open>json_fuel\<close> shows that more never
  changes a result. A repetition of a regular expression has as many rounds as there is text
  left, since an empty round ends it. All other recursion is structural or has its
  \<open>termination\<close> proof. Quantities are unbounded integers and numbers exact decimals: the sources agree with them as
  long as a number stays within what a double holds exactly. \<open>toFixed\<close> of a share or an opacity rounds the exact fraction,
  where the program rounds the double next to it.

  \<^bold>\<open>Not modelled\<close>

  React components and markup, routes, stores, and the calls of the HTTP client; the styling and
  tooltip callbacks of the chart specification, which read objects of the chart library; the
  classic console; the Go server, whose answers enter as the data of events; the desktop shell.
  Of the billing files: \<open>normalizeTierLabel\<close>, which needs the case mapping of Unicode, the list of time
  zones, \<open>evalExprLocally\<close>, which runs the text of the expression as a program (\<open>new Function\<close>), the drafts of
  number inputs, and hints formatted by \<open>toLocaleString\<close>. The other pages, and
  pure helpers among them such as those of \<open>features/channels/lib\<close>, \<open>features/pricing/lib/price.ts\<close> and
  \<open>lib/nav-modules.ts\<close>, are outside the scope of the development; the manifest lists them with the reason.
\<close>

end
